(* ===== verification/Prelude.thy ===== *)
theory Prelude
  imports Main "HOL-Library.Char_ord" "HOL-Library.List_Lexorder"
begin

text \<open>
  What every component of the development shares: bytes and byte strings (a Go
  \<^verbatim>\<open>string\<close> or \<^verbatim>\<open>[]byte\<close> is a list of 8-bit characters), the result of a fallible
  operation as a sum whose left side is the error, and generic facts on lists that the
  component proofs use through the simplifier or the collections declared here.
\<close>

named_theorems go_eval \<open>definitions to unfold when a closed term is evaluated\<close>
named_theorems err_class \<open>which sentinel an error value belongs to\<close>
named_theorems no_crlf \<open>facts that a text carries neither CR nor LF\<close>

type_synonym bytes = string

type_synonym duration = int

text \<open>Go's \<^verbatim>\<open>byte\<close> read as a number.\<close>

abbreviation byte :: "char \<Rightarrow> nat" where
  "byte c \<equiv> of_char c"

abbreviation CR :: char where "CR \<equiv> CHR 0x0D"
abbreviation LF :: char where "LF \<equiv> CHR 0x0A"
abbreviation TAB :: char where "TAB \<equiv> CHR 0x09"
abbreviation SP :: char where "SP \<equiv> CHR 0x20"
abbreviation CRLF :: bytes where "CRLF \<equiv> [CR, LF]"

lemma byte_less_256 [simp]: "byte c < 256"
  using of_char_eq_iff by (metis char_of_eq_iff of_char_mod_256 mod_less_divisor zero_less_numeral)

lemma byte_eq_iff: "byte c = byte d \<longleftrightarrow> c = d"
  by simp

section \<open>Results of fallible operations\<close>

text \<open>
  \<open>bindE r k\<close> is the Go idiom \<^verbatim>\<open>x, err := r; if err != nil { return err }; k(x)\<close>.
\<close>

definition bindE :: "'e + 'a \<Rightarrow> ('a \<Rightarrow> 'e + 'b) \<Rightarrow> 'e + 'b" where
  "bindE r k = (case r of Inl e \<Rightarrow> Inl e | Inr x \<Rightarrow> k x)"

lemma bindE_simps [simp, go_eval]:
  "bindE (Inl e) k = Inl e"
  "bindE (Inr x) k = k x"
  by (simp_all add: bindE_def)

lemma bindE_eq_Inr: "bindE r k = Inr y \<longleftrightarrow> (\<exists>x. r = Inr x \<and> k x = Inr y)"
  by (cases r) auto

lemma bindE_eq_Inl: "bindE r k = Inl e \<longleftrightarrow> r = Inl e \<or> (\<exists>x. r = Inr x \<and> k x = Inl e)"
  by (cases r) auto

lemma bindE_cong [fundef_cong]:
  "r = r' \<Longrightarrow> (\<And>x. r' = Inr x \<Longrightarrow> k x = k' x) \<Longrightarrow> bindE r k = bindE r' k'"
  by (cases r') auto

text \<open>Writing \<open>s\<close> before whatever the rest of a writer produces.\<close>

definition emit :: "bytes \<Rightarrow> 'e + bytes \<Rightarrow> 'e + bytes" where
  "emit s r = map_sum id ((@) s) r"

lemma emit_simps [simp, go_eval]:
  "emit s (Inl e) = Inl e"
  "emit s (Inr t) = Inr (s @ t)"
  by (simp_all add: emit_def)

lemma emit_eq_Inr: "emit s r = Inr u \<longleftrightarrow> (\<exists>t. r = Inr t \<and> u = s @ t)"
  by (cases r) auto

lemma emit_eq_Inl: "emit s r = Inl e \<longleftrightarrow> r = Inl e"
  by (cases r) auto

section \<open>Lists\<close>

lemma length_dropWhile_less: "xs \<noteq> [] \<Longrightarrow> P (hd xs) \<Longrightarrow> length (dropWhile P xs) < length xs"
  by (cases xs) (auto simp: length_dropWhile_le le_imp_less_Suc)

lemma takeWhile_eq_Nil: "takeWhile P xs = [] \<longleftrightarrow> xs = [] \<or> \<not> P (hd xs)"
  by (cases xs) auto

lemma dropWhile_Nil_or: "dropWhile P xs = [] \<or> \<not> P (hd (dropWhile P xs))"
  using hd_dropWhile [of P xs] by blast

lemma hd_append_or: "t = [] \<or> P (hd t) \<Longrightarrow> P c \<Longrightarrow> P (hd (t @ c # b))"
  by (cases t) auto

lemma set_dropWhile_subset: "set (dropWhile P xs) \<subseteq> set xs"
  by (auto dest: set_dropWhileD)

lemma set_takeWhile_subset: "set (takeWhile P xs) \<subseteq> set xs"
  by (auto dest: set_takeWhileD)

lemma map_of_filter_keep:
  "P k \<Longrightarrow> map_of (filter (\<lambda>(k, v). P k) xs) k = map_of xs k"
  by (induction xs) auto

end
