(* ===== verification/Go_Strings.thy ===== *)
theory Go_Strings
  imports Prelude
begin

text \<open>
  The functions of Go's \<^verbatim>\<open>strings\<close>, \<^verbatim>\<open>bytes\<close> and \<^verbatim>\<open>unicode/utf8\<close> packages that the mailer
  calls, on byte strings. An index that Go reports as -1 is \<open>None\<close>. UTF-8 decoding follows
  \<^verbatim>\<open>utf8.DecodeRuneInString\<close>, an invalid byte being the replacement rune of width 1.
  The case tables of package \<^verbatim>\<open>unicode\<close> beyond ASCII and its printable ranges are generated
  data: they are the fields of the record \<open>unicode\<close>, a parameter of the functions that
  consult them.
\<close>

section \<open>UTF-8\<close>

definition RuneError :: nat where
  "RuneError = 0xFFFD"

definition is_cont :: "nat \<Rightarrow> bool" where
  "is_cont b \<longleftrightarrow> 0x80 \<le> b \<and> b \<le> 0xBF"

text \<open>\<open>decode_rune s\<close> is the first rune of \<open>s\<close> with the number of bytes it takes.\<close>

fun decode_rune :: "bytes \<Rightarrow> nat \<times> nat" where
  "decode_rune [] = (RuneError, 0)"
| "decode_rune (c # s) =
    (let b0 = byte c; b1 = (case s of c1 # _ \<Rightarrow> byte c1 | _ \<Rightarrow> 0);
         b2 = (case s of _ # c2 # _ \<Rightarrow> byte c2 | _ \<Rightarrow> 0);
         b3 = (case s of _ # _ # c3 # _ \<Rightarrow> byte c3 | _ \<Rightarrow> 0) in
     if b0 < 0x80 then (b0, 1)
     else if 0xC2 \<le> b0 \<and> b0 \<le> 0xDF then
       (if is_cont b1 then ((b0 - 0xC0) * 64 + (b1 - 0x80), 2) else (RuneError, 1))
     else if 0xE0 \<le> b0 \<and> b0 \<le> 0xEF then
       (if is_cont b1 \<and> (b0 = 0xE0 \<longrightarrow> 0xA0 \<le> b1) \<and> (b0 = 0xED \<longrightarrow> b1 \<le> 0x9F) \<and> is_cont b2
        then ((b0 - 0xE0) * 4096 + (b1 - 0x80) * 64 + (b2 - 0x80), 3) else (RuneError, 1))
     else if 0xF0 \<le> b0 \<and> b0 \<le> 0xF4 then
       (if is_cont b1 \<and> (b0 = 0xF0 \<longrightarrow> 0x90 \<le> b1) \<and> (b0 = 0xF4 \<longrightarrow> b1 \<le> 0x8F) \<and> is_cont b2
           \<and> is_cont b3
        then ((b0 - 0xF0) * 262144 + (b1 - 0x80) * 4096 + (b2 - 0x80) * 64 + (b3 - 0x80), 4)
        else (RuneError, 1))
     else (RuneError, 1))"

lemma decode_rune_pos: "s \<noteq> [] \<Longrightarrow> 0 < snd (decode_rune s)"
  by (cases s) (auto simp: Let_def)

lemma decode_rune_le_4: "snd (decode_rune s) \<le> 4"
  by (cases s) (auto simp: Let_def)

lemma decode_rune_le_length: "snd (decode_rune s) \<le> length s"
  by (cases s) (auto simp: Let_def is_cont_def split: list.splits)

lemma decode_rune_ascii: "byte c < 0x80 \<Longrightarrow> decode_rune (c # s) = (byte c, 1)"
  by (simp add: Let_def)

text \<open>The string cut into runes: each with the bytes it was read from.\<close>

function runes :: "bytes \<Rightarrow> (nat \<times> bytes) list" where
  "runes [] = []"
| "runes (c # s) =
    (let (r, n) = decode_rune (c # s)
     in (r, take n (c # s)) # runes (drop n (c # s)))"
  by pat_completeness auto
termination
proof (relation "measure length")
  fix c s x r n
  assume "x = decode_rune (c # s)" and "(r, n) = x"
  then have "0 < n" using decode_rune_pos [of "c # s"] by (metis list.distinct(1) snd_conv)
  then show "(drop n (c # s), c # s) \<in> measure length" by simp
qed simp

declare runes.simps(2) [simp del]

lemma concat_runes: "concat (map snd (runes s)) = s"
proof (induction s rule: runes.induct)
  case (2 c s)
  then show ?case
    by (simp add: runes.simps(2) [of c s] case_prod_beta) (metis append_take_drop_id prod.collapse)
qed simp

lemma runes_ascii:
  "byte c < 0x80 \<Longrightarrow> runes (c # s) = (byte c, [c]) # runes s"
  by (simp add: runes.simps(2) [of c s] decode_rune_ascii)

text \<open>\<^verbatim>\<open>utf8.ValidString\<close>: no rune of the string comes from an invalid encoding.\<close>

definition ValidString :: "bytes \<Rightarrow> bool" where
  "ValidString s \<longleftrightarrow> list_all (\<lambda>(r, b). \<not> (r = RuneError \<and> length b = 1)) (runes s)"

text \<open>\<^verbatim>\<open>utf8.RuneStart\<close>: the byte is not a continuation byte.\<close>

definition RuneStart :: "char \<Rightarrow> bool" where
  "RuneStart c \<longleftrightarrow> \<not> is_cont (byte c)"

text \<open>\<^verbatim>\<open>unicode.IsSpace\<close>: the White\_Space property, whose table is short.\<close>

definition IsSpace :: "nat \<Rightarrow> bool" where
  "IsSpace r \<longleftrightarrow> r = 9 \<or> r = 10 \<or> r = 11 \<or> r = 12 \<or> r = 13 \<or> r = 32 \<or> r = 0x85 \<or> r = 0xA0
     \<or> r = 0x1680 \<or> (0x2000 \<le> r \<and> r \<le> 0x200A) \<or> r = 0x2028 \<or> r = 0x2029 \<or> r = 0x202F
     \<or> r = 0x205F \<or> r = 0x3000"

definition isASCII :: "bytes \<Rightarrow> bool" where
  "isASCII s \<longleftrightarrow> list_all (\<lambda>c. byte c < 0x80) s"

record unicode =
  uc_IsPrint :: "nat \<Rightarrow> bool"
  uc_Upper :: "bytes \<Rightarrow> bytes"
  uc_Lower :: "bytes \<Rightarrow> bytes"

section \<open>Prefixes, suffixes and searching\<close>

definition HasPrefix :: "bytes \<Rightarrow> bytes \<Rightarrow> bool" where
  "HasPrefix s p \<longleftrightarrow> length p \<le> length s \<and> take (length p) s = p"

definition HasSuffix :: "bytes \<Rightarrow> bytes \<Rightarrow> bool" where
  "HasSuffix s p \<longleftrightarrow> length p \<le> length s \<and> drop (length s - length p) s = p"

definition TrimPrefix :: "bytes \<Rightarrow> bytes \<Rightarrow> bytes" where
  "TrimPrefix s p = (if HasPrefix s p then drop (length p) s else s)"

definition TrimSuffix :: "bytes \<Rightarrow> bytes \<Rightarrow> bytes" where
  "TrimSuffix s p = (if HasSuffix s p then take (length s - length p) s else s)"

lemma HasPrefix_iff: "HasPrefix s p \<longleftrightarrow> (\<exists>t. s = p @ t)"
  unfolding HasPrefix_def by (metis append_eq_conv_conj append_take_drop_id length_append le_add1)

lemma HasSuffix_iff: "HasSuffix s p \<longleftrightarrow> (\<exists>t. s = t @ p)"
proof
  assume "HasSuffix s p"
  then show "\<exists>t. s = t @ p" unfolding HasSuffix_def by (metis append_take_drop_id)
qed (auto simp: HasSuffix_def)

fun IndexFunc :: "(char \<Rightarrow> bool) \<Rightarrow> bytes \<Rightarrow> nat option" where
  "IndexFunc P [] = None"
| "IndexFunc P (c # s) = (if P c then Some 0 else map_option Suc (IndexFunc P s))"

fun LastIndexFunc :: "(char \<Rightarrow> bool) \<Rightarrow> bytes \<Rightarrow> nat option" where
  "LastIndexFunc P [] = None"
| "LastIndexFunc P (c # s) =
    (case LastIndexFunc P s of Some i \<Rightarrow> Some (Suc i) | None \<Rightarrow> if P c then Some 0 else None)"

abbreviation IndexByte :: "bytes \<Rightarrow> char \<Rightarrow> nat option" where
  "IndexByte s c \<equiv> IndexFunc (\<lambda>d. d = c) s"

abbreviation LastIndexByte :: "bytes \<Rightarrow> char \<Rightarrow> nat option" where
  "LastIndexByte s c \<equiv> LastIndexFunc (\<lambda>d. d = c) s"

text \<open>\<^verbatim>\<open>strings.IndexAny\<close> and \<^verbatim>\<open>ContainsAny\<close> for a set of ASCII characters.\<close>

abbreviation IndexAny :: "bytes \<Rightarrow> bytes \<Rightarrow> nat option" where
  "IndexAny s chars \<equiv> IndexFunc (\<lambda>d. d \<in> set chars) s"

definition ContainsAny :: "bytes \<Rightarrow> bytes \<Rightarrow> bool" where
  "ContainsAny s chars \<longleftrightarrow> list_ex (\<lambda>d. d \<in> set chars) s"

fun Index :: "bytes \<Rightarrow> bytes \<Rightarrow> nat option" where
  "Index [] p = (if p = [] then Some 0 else None)"
| "Index (c # s) p = (if HasPrefix (c # s) p then Some 0 else map_option Suc (Index s p))"

definition Contains :: "bytes \<Rightarrow> bytes \<Rightarrow> bool" where
  "Contains s p \<longleftrightarrow> Index s p \<noteq> None"

lemma IndexFunc_None: "IndexFunc P s = None \<longleftrightarrow> (\<forall>c \<in> set s. \<not> P c)"
  by (induction s) auto

lemma IndexFunc_Some:
  "IndexFunc P s = Some i \<longleftrightarrow> i < length s \<and> P (s ! i) \<and> (\<forall>j < i. \<not> P (s ! j))"
proof (induction s arbitrary: i)
  case (Cons c s)
  show ?case
  proof (cases i)
    case (Suc k)
    have "(\<forall>j < Suc k. \<not> P ((c # s) ! j)) \<longleftrightarrow> \<not> P c \<and> (\<forall>j < k. \<not> P (s ! j))"
      by (auto simp: less_Suc_eq_0_disj)
    with Suc Cons.IH [of k] show ?thesis by auto
  qed simp
qed simp

lemma LastIndexFunc_None: "LastIndexFunc P s = None \<longleftrightarrow> (\<forall>c \<in> set s. \<not> P c)"
  by (induction s) (auto split: option.splits)

lemma LastIndexFunc_Some:
  "LastIndexFunc P s = Some i \<Longrightarrow> i < length s \<and> P (s ! i) \<and> (\<forall>c \<in> set (drop (Suc i) s). \<not> P c)"
proof (induction s arbitrary: i)
  case (Cons c s)
  then show ?case
    by (cases "LastIndexFunc P s") (auto simp: LastIndexFunc_None split: if_splits)
qed simp

lemma LastIndexFunc_append:
  "P c \<Longrightarrow> \<forall>d \<in> set t. \<not> P d \<Longrightarrow> LastIndexFunc P (s @ c # t) = Some (length s)"
  by (induction s) (auto simp: LastIndexFunc_None split: option.splits)

lemma ContainsAny_iff: "ContainsAny s chars \<longleftrightarrow> set s \<inter> set chars \<noteq> {}"
  by (auto simp: ContainsAny_def list_ex_iff)

lemma Index_Some_split: "Index s p = Some i \<Longrightarrow> \<exists>t. s = take i s @ p @ t \<and> i \<le> length s"
proof (induction s arbitrary: i)
  case (Cons c s)
  then show ?case
    by (cases "HasPrefix (c # s) p") (auto simp: HasPrefix_iff)
qed (auto split: if_splits)

lemma Index_None: "Index s p = None \<longleftrightarrow> (\<forall>a b. s \<noteq> a @ p @ b)"
proof (induction s)
  case (Cons c s)
  have "(\<forall>a b. c # s \<noteq> a @ p @ b) \<longleftrightarrow> \<not> HasPrefix (c # s) p \<and> (\<forall>a b. s \<noteq> a @ p @ b)"
    unfolding HasPrefix_iff
    by (metis (no_types, opaque_lifting) append_Cons append_Nil list.exhaust list.sel(1,3))
  with Cons show ?case by simp
qed simp

lemma Contains_iff: "Contains s p \<longleftrightarrow> (\<exists>a b. s = a @ p @ b)"
  by (auto simp: Contains_def Index_None)

section \<open>Trimming, splitting and joining\<close>

definition TrimLeft :: "bytes \<Rightarrow> bytes \<Rightarrow> bytes" where
  "TrimLeft s cutset = dropWhile (\<lambda>c. c \<in> set cutset) s"

definition TrimRight :: "bytes \<Rightarrow> bytes \<Rightarrow> bytes" where
  "TrimRight s cutset = rev (dropWhile (\<lambda>c. c \<in> set cutset) (rev s))"

definition Trim :: "bytes \<Rightarrow> bytes \<Rightarrow> bytes" where
  "Trim s cutset = TrimRight (TrimLeft s cutset) cutset"

text \<open>
  \<^verbatim>\<open>strings.TrimSpace\<close>. Go trims the end by decoding runes backwards; since a lead byte
  never lies inside another encoding, a white space rune at the end is a rune of the forward
  decoding too, so both ends are trimmed on \<open>runes s\<close>.
\<close>

definition TrimSpace :: "bytes \<Rightarrow> bytes" where
  "TrimSpace s =
    concat (map snd (rev (dropWhile (IsSpace \<circ> fst) (rev (dropWhile (IsSpace \<circ> fst) (runes s))))))"

fun fields_of :: "(nat \<times> bytes) list \<Rightarrow> bytes \<Rightarrow> bytes list" where
  "fields_of [] cur = (if cur = [] then [] else [cur])"
| "fields_of ((r, b) # rs) cur =
    (if IsSpace r then (if cur = [] then fields_of rs [] else cur # fields_of rs [])
     else fields_of rs (cur @ b))"

definition Fields :: "bytes \<Rightarrow> bytes list" where
  "Fields s = fields_of (runes s) []"

text \<open>\<^verbatim>\<open>strings.Split\<close> at a one-byte separator.\<close>

fun SplitByte :: "bytes \<Rightarrow> char \<Rightarrow> bytes list" where
  "SplitByte [] c = [[]]"
| "SplitByte (d # s) c =
    (if d = c then [] # SplitByte s c
     else (case SplitByte s c of [] \<Rightarrow> [[d]] | w # ws \<Rightarrow> (d # w) # ws))"

text \<open>\<^verbatim>\<open>strings.Split(s, "\r\n")\<close>.\<close>

fun SplitCRLF :: "bytes \<Rightarrow> bytes list" where
  "SplitCRLF [] = [[]]"
| "SplitCRLF [c] = [[c]]"
| "SplitCRLF (c # d # s) =
    (if c = CR \<and> d = LF then [] # SplitCRLF s
     else (case SplitCRLF (d # s) of [] \<Rightarrow> [[c]] | w # ws \<Rightarrow> (c # w) # ws))"

fun Join :: "bytes list \<Rightarrow> bytes \<Rightarrow> bytes" where
  "Join [] sep = []"
| "Join [w] sep = w"
| "Join (w # v # ws) sep = w @ sep @ Join (v # ws) sep"

lemma SplitByte_not_Nil [simp]: "SplitByte s c \<noteq> []"
  by (cases s) (auto split: list.splits)

lemma SplitCRLF_not_Nil [simp]: "SplitCRLF s \<noteq> []"
  by (induction s rule: SplitCRLF.induct) (auto split: list.splits)

lemma Join_Cons_hd: "Join ((c # w) # ws) sep = c # Join (w # ws) sep"
  by (cases ws) auto

lemma Join_Nil_hd: "ws \<noteq> [] \<Longrightarrow> Join ([] # ws) sep = sep @ Join ws sep"
  by (cases ws) auto

lemma Join_SplitByte: "Join (SplitByte s c) [c] = s"
proof (induction s)
  case (Cons d s)
  then show ?case
    by (cases "SplitByte s c") (auto simp: Join_Cons_hd Join_Nil_hd)
qed simp

lemma Join_SplitCRLF: "Join (SplitCRLF s) CRLF = s"
proof (induction s rule: SplitCRLF.induct)
  case (3 c d s)
  show ?case
  proof (cases "c = CR \<and> d = LF")
    case True
    with 3 show ?thesis by (simp add: Join_Nil_hd)
  next
    case False
    with 3 show ?thesis by (cases "SplitCRLF (d # s)") (auto simp: Join_Cons_hd)
  qed
qed auto

lemma SplitByte_no_sep: "w \<in> set (SplitByte s c) \<Longrightarrow> c \<notin> set w"
  by (induction s arbitrary: w) (auto split: if_splits list.splits)

lemma set_Join: "set (Join ws sep) \<subseteq> \<Union> (set ` set ws) \<union> set sep"
  by (induction ws sep rule: Join.induct) auto

section \<open>Case mapping\<close>

definition upper_byte :: "char \<Rightarrow> char" where
  "upper_byte c = (if 97 \<le> byte c \<and> byte c \<le> 122 then char_of (byte c - 32) else c)"

definition lower_byte :: "char \<Rightarrow> char" where
  "lower_byte c = (if 65 \<le> byte c \<and> byte c \<le> 90 then char_of (byte c + 32) else c)"

definition ToUpper :: "unicode \<Rightarrow> bytes \<Rightarrow> bytes" where
  "ToUpper U s = (if isASCII s then map upper_byte s else uc_Upper U s)"

definition ToLower :: "unicode \<Rightarrow> bytes \<Rightarrow> bytes" where
  "ToLower U s = (if isASCII s then map lower_byte s else uc_Lower U s)"

section \<open>Replacing\<close>

text \<open>\<^verbatim>\<open>bytes.ReplaceAll\<close> for a non-empty pattern: left to right, without overlap.\<close>

function ReplaceAll :: "bytes \<Rightarrow> bytes \<Rightarrow> bytes \<Rightarrow> bytes" where
  "ReplaceAll [] old new = []"
| "ReplaceAll (c # s) old new =
    (if old \<noteq> [] \<and> HasPrefix (c # s) old then new @ ReplaceAll (drop (length old) (c # s)) old new
     else c # ReplaceAll s old new)"
  by pat_completeness auto
termination
  by (relation "measure (\<lambda>(s, old, new). length s)") (auto simp: Suc_diff_le neq_Nil_conv)

section \<open>Decimal numbers\<close>

definition is_digit :: "char \<Rightarrow> bool" where
  "is_digit c \<longleftrightarrow> 48 \<le> byte c \<and> byte c \<le> 57"

definition is_letter :: "char \<Rightarrow> bool" where
  "is_letter c \<longleftrightarrow> (65 \<le> byte c \<and> byte c \<le> 90) \<or> (97 \<le> byte c \<and> byte c \<le> 122)"

definition is_alnum :: "char \<Rightarrow> bool" where
  "is_alnum c \<longleftrightarrow> is_letter c \<or> is_digit c"

fun nat_Itoa :: "nat \<Rightarrow> bytes" where
  "nat_Itoa n = (if n < 10 then [char_of (48 + n)] else nat_Itoa (n div 10) @ [char_of (48 + n mod 10)])"

declare nat_Itoa.simps [simp del]

text \<open>\<^verbatim>\<open>strconv.Itoa\<close>.\<close>

definition Itoa :: "int \<Rightarrow> bytes" where
  "Itoa i = (if i < 0 then CHR ''-'' # nat_Itoa (nat (- i)) else nat_Itoa (nat i))"

definition digits_value :: "bytes \<Rightarrow> int" where
  "digits_value s = foldl (\<lambda>n c. n * 10 + (int (byte c) - 48)) 0 s"

text \<open>
  \<^verbatim>\<open>strconv.Atoi\<close> on a 64-bit platform: an optional sign, at least one digit, and a value
  that fits an \<^verbatim>\<open>int\<close>.
\<close>

definition Atoi :: "bytes \<Rightarrow> int option" where
  "Atoi s =
    (let neg = (s \<noteq> [] \<and> hd s = CHR ''-'');
         ds = (if s \<noteq> [] \<and> (hd s = CHR ''-'' \<or> hd s = CHR ''+'') then tl s else s);
         v = (if neg then - digits_value ds else digits_value ds)
     in if ds = [] \<or> \<not> list_all is_digit ds then None
        else if v < - (2 ^ 63) \<or> 2 ^ 63 - 1 < v then None
        else Some v)"

text \<open>The value of a 64-bit \<^verbatim>\<open>int\<close> after wrap-around.\<close>

definition wrap64 :: "int \<Rightarrow> int" where
  "wrap64 i = (i + 2 ^ 63) mod 2 ^ 64 - 2 ^ 63"

lemma wrap64_id: "- (2 ^ 63) \<le> i \<Longrightarrow> i < 2 ^ 63 \<Longrightarrow> wrap64 i = i"
  by (simp add: wrap64_def)

lemma wrap64_range: "- (2 ^ 63) \<le> wrap64 i \<and> wrap64 i < 2 ^ 63"
  by (simp add: wrap64_def)

lemmas strings_eval [go_eval] =
  RuneError_def is_cont_def ValidString_def RuneStart_def IsSpace_def isASCII_def
  HasPrefix_def HasSuffix_def TrimPrefix_def TrimSuffix_def ContainsAny_def Contains_def
  TrimLeft_def TrimRight_def Trim_def TrimSpace_def Fields_def upper_byte_def lower_byte_def
  ToUpper_def ToLower_def is_digit_def is_letter_def is_alnum_def Itoa_def digits_value_def
  Atoi_def wrap64_def runes_ascii nat_Itoa.simps char_of_def

end
