(* ===== verification/Errors.thy ===== *)
theory Errors
  imports Go_Strings
begin

text \<open>
  The error values of the program (\<^verbatim>\<open>errors.go\<close> and the \<^verbatim>\<open>errors\<close>/\<^verbatim>\<open>fmt\<close> packages it uses):
  sentinels, errors built with \<^verbatim>\<open>fmt.Errorf\<close>, \<^verbatim>\<open>*TransportError\<close> and joined errors, with
  \<^verbatim>\<open>errors.Is\<close>, \<^verbatim>\<open>errors.As\<close> to a \<^verbatim>\<open>*TransportError\<close> and the rendering of their text.
\<close>

section \<open>Error values\<close>

datatype sentinel =
    ErrInvalidArgument
  | ErrLogic
  | ErrRuntime
  | ErrTransport
  | ErrIncompleteDSN
  | ErrUnsupportedScheme
  | ContextCanceled
  | ContextDeadlineExceeded
  | ErrReject

text \<open>
  An \<open>Errorf\<close> keeps the format string and its operands; an operand that is itself an error
  is consumed by a \<^verbatim>\<open>%w\<close> verb and so is wrapped. A \<open>Foreign\<close> error comes from another
  package and is known by its text only.
\<close>

datatype goerr =
    Sentinel sentinel
  | Foreign bytes
  | Errorf bytes "operand list"
  | TransportError bytes int "goerr option" bytes
  | Joined "goerr list"
and operand = OStr bytes | OInt int | OStrs "bytes list" | OErr goerr

fun te_Msg :: "goerr \<Rightarrow> bytes" where
  "te_Msg (TransportError m c w d) = m"
| "te_Msg _ = []"

fun te_Code :: "goerr \<Rightarrow> int" where
  "te_Code (TransportError m c w d) = c"
| "te_Code _ = 0"

text \<open>\<^verbatim>\<open>TransportError.Unwrap\<close>.\<close>

fun te_Unwrap :: "goerr \<Rightarrow> goerr option" where
  "te_Unwrap (TransportError m c w d) = w"
| "te_Unwrap _ = None"

text \<open>\<^verbatim>\<open>TransportError.Debug\<close>.\<close>

fun te_Debug :: "goerr \<Rightarrow> bytes" where
  "te_Debug (TransportError m c w d) = d"
| "te_Debug _ = []"

definition NewTransportError :: "bytes \<Rightarrow> goerr" where
  "NewTransportError msg = TransportError msg 0 None []"

text \<open>\<^verbatim>\<open>TransportError.AppendDebug\<close>, and the assignments to the fields \<^verbatim>\<open>Code\<close> and \<^verbatim>\<open>Cause\<close>.\<close>

fun te_AppendDebug :: "goerr \<Rightarrow> bytes \<Rightarrow> goerr" where
  "te_AppendDebug (TransportError m c w d) s = TransportError m c w (d @ s)"
| "te_AppendDebug e s = e"

fun te_set_Code :: "goerr \<Rightarrow> int \<Rightarrow> goerr" where
  "te_set_Code (TransportError m c w d) c' = TransportError m c' w d"
| "te_set_Code e c' = e"

fun te_set_Cause :: "goerr \<Rightarrow> goerr \<Rightarrow> goerr" where
  "te_set_Cause (TransportError m c w d) e = TransportError m c (Some e) d"
| "te_set_Cause t e = t"

section \<open>errors.Is and errors.As\<close>

fun operand_errs :: "operand list \<Rightarrow> goerr list" where
  "operand_errs [] = []"
| "operand_errs (OErr e # xs) = e # operand_errs xs"
| "operand_errs (_ # xs) = operand_errs xs"

lemma size_operand_errs [termination_simp]:
  "e \<in> set (operand_errs xs) \<Longrightarrow> size e < Suc (size_list size xs)"
  by (induction xs rule: operand_errs.induct) (auto simp: less_Suc_eq)

lemma operand_errs_append [simp]: "operand_errs (xs @ ys) = operand_errs xs @ operand_errs ys"
  by (induction xs rule: operand_errs.induct) auto

text \<open>
  \<^verbatim>\<open>errors.Is(err, target)\<close> for a sentinel target. On a \<^verbatim>\<open>*TransportError\<close> its method
  \<^verbatim>\<open>Is\<close> answers first: every transport error is an \<open>ErrTransport\<close>.
\<close>

fun errors_Is :: "goerr \<Rightarrow> sentinel \<Rightarrow> bool" where
  "errors_Is (Sentinel s) t \<longleftrightarrow> s = t"
| "errors_Is (Foreign x) t \<longleftrightarrow> False"
| "errors_Is (Errorf f xs) t \<longleftrightarrow> list_ex (\<lambda>e. errors_Is e t) (operand_errs xs)"
| "errors_Is (TransportError m c w d) t \<longleftrightarrow>
     t = ErrTransport \<or> (case w of None \<Rightarrow> False | Some e \<Rightarrow> errors_Is e t)"
| "errors_Is (Joined es) t \<longleftrightarrow> list_ex (\<lambda>e. errors_Is e t) es"

text \<open>\<^verbatim>\<open>TransportError.Is\<close>.\<close>

fun te_Is :: "goerr \<Rightarrow> sentinel \<Rightarrow> bool" where
  "te_Is (TransportError m c w d) target \<longleftrightarrow>
     (if target = ErrTransport then True
      else (case w of None \<Rightarrow> False | Some e \<Rightarrow> errors_Is e target))"
| "te_Is _ target \<longleftrightarrow> False"

text \<open>
  \<^verbatim>\<open>errors.As(err, &te)\<close> with \<^verbatim>\<open>te *TransportError\<close>: the first transport error in a
  depth-first walk of the tree of wrapped errors.
\<close>

fun first_Some :: "'a option list \<Rightarrow> 'a option" where
  "first_Some [] = None"
| "first_Some (None # xs) = first_Some xs"
| "first_Some (Some x # xs) = Some x"

fun errors_As :: "goerr \<Rightarrow> goerr option" where
  "errors_As (Sentinel s) = None"
| "errors_As (Foreign x) = None"
| "errors_As (Errorf f xs) = first_Some (map errors_As (operand_errs xs))"
| "errors_As (TransportError m c w d) = Some (TransportError m c w d)"
| "errors_As (Joined es) = first_Some (map errors_As es)"

text \<open>
  Appending to the transcript of the transport error that \<^verbatim>\<open>errors.As\<close> finds: the
  pointer it returns aliases a node of the tree, so the tree changes there.
\<close>

fun append_debug_As :: "goerr \<Rightarrow> bytes \<Rightarrow> goerr"
  and append_debug_operands :: "operand list \<Rightarrow> bytes \<Rightarrow> operand list"
  and append_debug_errs :: "goerr list \<Rightarrow> bytes \<Rightarrow> goerr list" where
  "append_debug_As (Sentinel t) s = Sentinel t"
| "append_debug_As (Foreign x) s = Foreign x"
| "append_debug_As (Errorf f xs) s = Errorf f (append_debug_operands xs s)"
| "append_debug_As (TransportError m c w d) s = te_AppendDebug (TransportError m c w d) s"
| "append_debug_As (Joined es) s = Joined (append_debug_errs es s)"
| "append_debug_operands [] s = []"
| "append_debug_operands (OErr e # xs) s =
    (if errors_As e \<noteq> None then OErr (append_debug_As e s) # xs
     else OErr e # append_debug_operands xs s)"
| "append_debug_operands (OStr x # xs) s = OStr x # append_debug_operands xs s"
| "append_debug_operands (OInt i # xs) s = OInt i # append_debug_operands xs s"
| "append_debug_operands (OStrs ss # xs) s = OStrs ss # append_debug_operands xs s"
| "append_debug_errs [] s = []"
| "append_debug_errs (e # es) s =
    (if errors_As e \<noteq> None then append_debug_As e s # es else e # append_debug_errs es s)"

section \<open>Text of an error\<close>

definition hex_digit :: "nat \<Rightarrow> char" where
  "hex_digit n = (if n < 10 then char_of (48 + n) else char_of (97 + (n - 10)))"

fun hex_digits :: "nat \<Rightarrow> nat \<Rightarrow> bytes" where
  "hex_digits 0 n = []"
| "hex_digits (Suc k) n = hex_digits k (n div 16) @ [hex_digit (n mod 16)]"

text \<open>\<^verbatim>\<open>strconv.Quote\<close> on one rune with the bytes it was read from.\<close>

definition quote_rune :: "unicode \<Rightarrow> nat \<times> bytes \<Rightarrow> bytes" where
  "quote_rune U rb = (case rb of (r, b) \<Rightarrow>
     if r = RuneError \<and> length b = 1 then [CHR 0x5C, CHR ''x''] @ hex_digits 2 (byte (hd b))
     else if r = 34 then [CHR 0x5C, CHR 0x22]
     else if r = 92 then [CHR 0x5C, CHR 0x5C]
     else if (r < 0x80 \<and> 32 \<le> r \<and> r \<noteq> 127) \<or> (0x80 \<le> r \<and> uc_IsPrint U r) then b
     else if r = 7 then [CHR 0x5C, CHR ''a''] else if r = 8 then [CHR 0x5C, CHR ''b''] else if r = 12 then [CHR 0x5C, CHR ''f'']
     else if r = 10 then [CHR 0x5C, CHR ''n''] else if r = 13 then [CHR 0x5C, CHR ''r''] else if r = 9 then [CHR 0x5C, CHR ''t'']
     else if r = 11 then [CHR 0x5C, CHR ''v'']
     else if r < 32 \<or> r = 127 then [CHR 0x5C, CHR ''x''] @ hex_digits 2 r
     else if r < 0x10000 then [CHR 0x5C, CHR ''u''] @ hex_digits 4 r
     else [CHR 0x5C, CHR ''U''] @ hex_digits 8 r)"

definition Quote :: "unicode \<Rightarrow> bytes \<Rightarrow> bytes" where
  "Quote U s = [CHR 0x22] @ concat (map (quote_rune U) (runes s)) @ [CHR 0x22]"

text \<open>
  \<^verbatim>\<open>fmt\<close> formatting with the verbs the program uses: \<^verbatim>\<open>%q\<close> quotes, \<^verbatim>\<open>%w\<close>, \<^verbatim>\<open>%v\<close>, \<^verbatim>\<open>%s\<close>
  and \<^verbatim>\<open>%d\<close> print the operand. An operand comes as its plain and its quoted text.
\<close>

fun sprintf :: "bytes \<Rightarrow> (bytes \<times> bytes) list \<Rightarrow> bytes" where
  "sprintf [] xs = []"
| "sprintf [c] xs = [c]"
| "sprintf (c # v # f) xs =
    (if c = CHR 0x25 then
       (case xs of [] \<Rightarrow> c # v # sprintf f []
        | (plain, quoted) # ys \<Rightarrow> (if v = CHR ''q'' then quoted else plain) @ sprintf f ys)
     else c # sprintf (v # f) xs)"

fun sentinel_text :: "sentinel \<Rightarrow> bytes" where
  "sentinel_text ErrInvalidArgument = ''gomailer: invalid argument''"
| "sentinel_text ErrLogic = ''gomailer: logic error''"
| "sentinel_text ErrRuntime = ''gomailer: runtime error''"
| "sentinel_text ErrTransport = ''gomailer: transport error''"
| "sentinel_text ErrIncompleteDSN = ''gomailer: incomplete DSN''"
| "sentinel_text ErrUnsupportedScheme = ''gomailer: unsupported DSN scheme''"
| "sentinel_text ContextCanceled = ''context canceled''"
| "sentinel_text ContextDeadlineExceeded = ''context deadline exceeded''"
| "sentinel_text ErrReject = ''gomailer/middleware: send rejected''"

text \<open>The method \<^verbatim>\<open>Error() string\<close> of every kind of error.\<close>

fun Error_text :: "unicode \<Rightarrow> goerr \<Rightarrow> bytes"
  and operand_text :: "unicode \<Rightarrow> operand \<Rightarrow> bytes \<times> bytes" where
  "Error_text U (Sentinel s) = sentinel_text s"
| "Error_text U (Foreign x) = x"
| "Error_text U (Errorf f xs) = sprintf f (map (operand_text U) xs)"
| "Error_text U (TransportError m c w d) =
    (if c \<noteq> 0 \<and> w \<noteq> None then
       ''gomailer: transport error (code '' @ Itoa c @ ''): '' @ m @ '': ''
         @ (case w of Some e \<Rightarrow> Error_text U e | None \<Rightarrow> [])
     else if c \<noteq> 0 then ''gomailer: transport error (code '' @ Itoa c @ ''): '' @ m
     else if w \<noteq> None then
       ''gomailer: transport error: '' @ m @ '': ''
         @ (case w of Some e \<Rightarrow> Error_text U e | None \<Rightarrow> [])
     else ''gomailer: transport error: '' @ m)"
| "Error_text U (Joined es) = Join (map (Error_text U) es) [LF]"
| "operand_text U (OStr s) = (s, Quote U s)"
| "operand_text U (OInt i) = (Itoa i, Itoa i)"
| "operand_text U (OStrs ss) = ([], ''['' @ Join (map (Quote U) ss) '' '' @ '']'')"
| "operand_text U (OErr e) = (Error_text U e, Quote U (Error_text U e))"

section \<open>Classification\<close>

lemma errors_Is_TransportError [simp, err_class]:
  "errors_Is (TransportError m c w d) ErrTransport"
  by simp

lemma errors_Is_NewTransportError [simp]:
  "errors_Is (NewTransportError m) t \<longleftrightarrow> t = ErrTransport"
  by (simp add: NewTransportError_def)

lemma errors_Is_Errorf_hd [simp, err_class]:
  "errors_Is (Errorf f (OErr (Sentinel s) # xs)) s"
  by simp

lemma errors_Is_te_Is:
  "errors_Is (TransportError m c w d) t \<longleftrightarrow> te_Is (TransportError m c w d) t"
  by (auto split: option.splits)

lemma first_Some_None: "first_Some xs = None \<longleftrightarrow> (\<forall>x \<in> set xs. x = None)"
  by (induction xs rule: first_Some.induct) auto

lemma first_Some_in: "first_Some xs = Some y \<Longrightarrow> Some y \<in> set xs"
  by (induction xs rule: first_Some.induct) auto

lemma errors_As_is_transport: "errors_As e = Some t \<Longrightarrow> \<exists>m c w d. t = TransportError m c w d"
proof (induction e rule: errors_As.induct)
  case (3 f xs)
  then show ?case by (auto dest!: first_Some_in)
next
  case (5 es)
  then show ?case by (auto dest!: first_Some_in)
qed auto

lemma errors_As_imp_Is:
  assumes "errors_As e = Some t"
  shows "errors_Is e ErrTransport"
  using assms
proof (induction e arbitrary: t rule: errors_As.induct)
  case (3 f xs)
  then obtain e where "e \<in> set (operand_errs xs)" "errors_As e = Some t"
    by (auto dest!: first_Some_in)
  with 3 show ?case by (auto simp: list_ex_iff)
next
  case (5 es)
  then obtain e where "e \<in> set es" "errors_As e = Some t"
    by (auto dest!: first_Some_in)
  with 5 show ?case by (auto simp: list_ex_iff)
qed auto

lemma append_debug_As_keeps_class:
  "errors_Is (append_debug_As e s) t = errors_Is e t"
  "list_ex (\<lambda>e. errors_Is e t) (operand_errs (append_debug_operands xs s))
     = list_ex (\<lambda>e. errors_Is e t) (operand_errs xs)"
  "list_ex (\<lambda>e. errors_Is e t) (append_debug_errs es s) = list_ex (\<lambda>e. errors_Is e t) es"
  by (induction e s and xs s and es s
        rule: append_debug_As_append_debug_operands_append_debug_errs.induct) auto

lemma te_updates_keep_class [simp, err_class]:
  "errors_Is (te_AppendDebug e s) t = errors_Is e t"
  "errors_Is (te_set_Code e c) t = errors_Is e t"
  by (cases e; simp)+

lemma te_Code_updates [simp]:
  "te_Code (te_AppendDebug e s) = te_Code e"
  "te_Code (te_set_Cause e w) = te_Code e"
  by (cases e; simp)+

end
