(* ===== verification/Go_Mime.thy ===== *)
theory Go_Mime
  imports Go_Strings
begin

text \<open>
  The encoders of the Go standard library that the MIME writer and the SMTP authenticators
  call: \<^verbatim>\<open>base64.StdEncoding\<close>, the RFC 2047 word encoders \<^verbatim>\<open>mime.QEncoding\<close> and
  \<^verbatim>\<open>mime.BEncoding\<close> for the charset utf-8, \<^verbatim>\<open>quotedprintable.Writer\<close> and
  \<^verbatim>\<open>textproto.CanonicalMIMEHeaderKey\<close>; and the interface \<open>codec\<close> of an encoder with a
  decoder that undoes it.
\<close>

section \<open>Encoders with a decoder\<close>

locale codec =
  fixes encode :: "'a \<Rightarrow> 'b" and decode :: "'b \<Rightarrow> 'a option"
  assumes decode_encode: "decode (encode x) = Some x"
begin

lemma encode_inj: "encode x = encode y \<longleftrightarrow> x = y"
  by (metis decode_encode option.inject)

lemma decode_unique: "decode (encode x) = Some y \<Longrightarrow> y = x"
  by (simp add: decode_encode)

end

section \<open>base64.StdEncoding\<close>

text \<open>The alphabet \<^verbatim>\<open>A-Z a-z 0-9 + /\<close>, by position.\<close>

definition b64_char :: "nat \<Rightarrow> char" where
  "b64_char n =
    (if n < 26 then char_of (n + 65) else if n < 52 then char_of (n + 71)
     else if n < 62 then char_of (n - 4) else if n = 62 then CHR ''+'' else CHR 0x2F)"

abbreviation b64_pad :: char where "b64_pad \<equiv> CHR ''=''"

fun EncodeToString :: "bytes \<Rightarrow> bytes" where
  "EncodeToString [] = []"
| "EncodeToString [a] = [b64_char (byte a div 4), b64_char (byte a mod 4 * 16), b64_pad, b64_pad]"
| "EncodeToString [a, b] =
    [b64_char (byte a div 4), b64_char (byte a mod 4 * 16 + byte b div 16),
     b64_char (byte b mod 16 * 4), b64_pad]"
| "EncodeToString (a # b # c # s) =
    b64_char (byte a div 4) # b64_char (byte a mod 4 * 16 + byte b div 16)
      # b64_char (byte b mod 16 * 4 + byte c div 64) # b64_char (byte c mod 64) # EncodeToString s"

definition b64_val :: "char \<Rightarrow> nat option" where
  "b64_val c =
    (let b = byte c in
     if 65 \<le> b \<and> b \<le> 90 then Some (b - 65)
     else if 97 \<le> b \<and> b \<le> 122 then Some (b - 71)
     else if 48 \<le> b \<and> b \<le> 57 then Some (b + 4)
     else if b = 43 then Some 62
     else if b = 47 then Some 63
     else None)"

fun b64_quads :: "bytes \<Rightarrow> bytes option" where
  "b64_quads [] = Some []"
| "b64_quads (p # q # r # t # s) =
    (case (b64_val p, b64_val q) of
       (Some v0, Some v1) \<Rightarrow>
         (if r = b64_pad then
            (if t = b64_pad \<and> s = [] then Some [char_of (v0 * 4 + v1 div 16)] else None)
          else (case b64_val r of None \<Rightarrow> None | Some v2 \<Rightarrow>
            if t = b64_pad then
              (if s = [] then Some [char_of (v0 * 4 + v1 div 16), char_of (v1 mod 16 * 16 + v2 div 4)]
               else None)
            else (case b64_val t of None \<Rightarrow> None | Some v3 \<Rightarrow>
              map_option (\<lambda>u. char_of (v0 * 4 + v1 div 16) # char_of (v1 mod 16 * 16 + v2 div 4)
                # char_of (v2 mod 4 * 64 + v3) # u) (b64_quads s))))
     | _ \<Rightarrow> None)"
| "b64_quads _ = None"

text \<open>\<^verbatim>\<open>base64.StdEncoding.DecodeString\<close>: CR and LF are skipped, padding is required.\<close>

definition DecodeString :: "bytes \<Rightarrow> bytes option" where
  "DecodeString s = b64_quads (filter (\<lambda>c. c \<noteq> CR \<and> c \<noteq> LF) s)"

lemma b64_val_char [simp]: "n < 64 \<Longrightarrow> b64_val (b64_char n) = Some n"
  by (auto simp: b64_val_def b64_char_def Let_def)

lemma b64_char_plain: "n < 64 \<Longrightarrow> 33 \<le> byte (b64_char n) \<and> byte (b64_char n) < 127"
  by (auto simp: b64_char_def)

lemma b64_char_neq_pad [simp]: "n < 64 \<Longrightarrow> b64_char n \<noteq> b64_pad"
proof
  assume n: "n < 64" and "b64_char n = b64_pad"
  then have "b64_val b64_pad = Some n" using b64_val_char [OF n] by simp
  then show False by (simp add: b64_val_def)
qed

lemma byte_div_mod:
  "byte a div 4 < 64" "byte a div 16 < 16" "byte a div 64 < 4"
  "byte a div 16 div 16 = 0" "byte a div 64 div 4 = 0"
  using byte_less_256 [of a] by linarith+

lemma byte_div_mod2:
  "byte a div 16 mod 16 = byte a div 16" "byte a div 64 mod 4 = byte a div 64"
  using byte_div_mod(2,3) [of a] by simp_all

lemma byte_mod_mult: "byte a mod 4 * 16 < 64" "byte a mod 16 * 4 < 64"
  using mod_less_divisor [of 4 "byte a"] mod_less_divisor [of 16 "byte a"] by linarith+

lemma b64_sum: "byte a mod 4 * 16 + byte b div 16 < 64" "byte b mod 16 * 4 + byte c div 64 < 64"
  using byte_less_256 [of b] byte_less_256 [of c] by linarith+

lemmas b64_arith = byte_div_mod byte_div_mod2 byte_mod_mult b64_sum

lemma EncodeToString_plain:
  "x \<in> set (EncodeToString s) \<Longrightarrow> 33 \<le> byte x \<and> byte x < 127"
  by (induction s rule: EncodeToString.induct) (auto simp: b64_char_plain b64_arith)

lemma b64_quads_Encode: "b64_quads (EncodeToString s) = Some s"
  by (induction s rule: EncodeToString.induct) (simp_all add: b64_arith)

lemma DecodeString_Encode: "DecodeString (EncodeToString s) = Some s"
proof -
  have "filter (\<lambda>c. c \<noteq> CR \<and> c \<noteq> LF) (EncodeToString s) = EncodeToString s"
    by (rule filter_True) (auto dest: EncodeToString_plain)
  then show ?thesis by (simp add: DecodeString_def b64_quads_Encode)
qed

interpretation b64: codec EncodeToString DecodeString
  by unfold_locales (rule DecodeString_Encode)

lemma length_EncodeToString: "length (EncodeToString s) = 4 * ((length s + 2) div 3)"
proof (induction s rule: EncodeToString.induct)
  case (4 a b c s)
  have "(Suc (Suc (Suc (length s))) + 2) div 3 = Suc ((length s + 2) div 3)" by presburger
  with 4 show ?case by simp
qed simp_all

text \<open>\<^verbatim>\<open>EncodedLen\<close> of the padded encoding.\<close>

definition EncodedLen :: "nat \<Rightarrow> nat" where
  "EncodedLen n = (n + 2) div 3 * 4"

section \<open>RFC 2047 encoded words\<close>

definition upperhex :: "nat \<Rightarrow> char" where
  "upperhex n = ''0123456789ABCDEF'' ! n"

definition hex_escape :: "char \<Rightarrow> char \<Rightarrow> bytes" where
  "hex_escape lead c = [lead, upperhex (byte c div 16), upperhex (byte c mod 16)]"

lemma upperhex_table: "list_all (\<lambda>n. 33 \<le> byte (upperhex n) \<and> byte (upperhex n) < 127) [0..<16]"
  by code_simp

lemma upperhex_plain: "n < 16 \<Longrightarrow> 33 \<le> byte (upperhex n) \<and> byte (upperhex n) < 127"
  using upperhex_table by (auto simp: list_all_iff)

lemma nibbles: "byte c div 16 < 16" "byte c mod 16 < 16"
  using byte_less_256 [of c] by linarith+

definition writeQByte :: "char \<Rightarrow> bytes" where
  "writeQByte b =
    (if b = SP then ''_''
     else if 33 \<le> byte b \<and> byte b \<le> 126 \<and> b \<noteq> CHR ''='' \<and> b \<noteq> CHR ''?'' \<and> b \<noteq> CHR ''_'' then [b]
     else hex_escape (CHR ''='') b)"

definition openWord :: "char \<Rightarrow> bytes" where
  "openWord e = ''=?utf-8?'' @ [e] @ ''?''"

definition closeWord :: bytes where
  "closeWord = ''?=''"

definition splitWord :: "char \<Rightarrow> bytes" where
  "splitWord e = closeWord @ '' '' @ openWord e"

definition maxContentLen :: nat where
  "maxContentLen = 63"

function qEncode :: "nat \<Rightarrow> bytes \<Rightarrow> bytes" where
  "qEncode currentLen [] = []"
| "qEncode currentLen (b # s) =
    (let plain = 32 \<le> byte b \<and> byte b \<le> 126 \<and> b \<noteq> CHR ''='' \<and> b \<noteq> CHR ''?'' \<and> b \<noteq> CHR ''_'';
         runeLen = (if plain then 1 else snd (decode_rune (b # s)));
         encLen = (if plain then 1 else 3 * runeLen);
         split = maxContentLen < currentLen + encLen
     in (if split then splitWord (CHR ''q'') else [])
        @ concat (map writeQByte (take runeLen (b # s)))
        @ qEncode ((if split then 0 else currentLen) + encLen) (drop runeLen (b # s)))"
  by pat_completeness auto
termination
  by (relation "measure (\<lambda>(n, s). length s)") (auto simp: decode_rune_pos simp del: decode_rune.simps)

declare qEncode.simps(2) [simp del]

definition needsEncoding :: "bytes \<Rightarrow> bool" where
  "needsEncoding s \<longleftrightarrow> list_ex (\<lambda>(r, b). (r < 32 \<or> 126 < r) \<and> r \<noteq> 9) (runes s)"

definition QEncoding_Encode :: "bytes \<Rightarrow> bytes" where
  "QEncoding_Encode s =
    (if \<not> needsEncoding s then s else openWord (CHR ''q'') @ qEncode 0 s @ closeWord)"

definition maxBase64Len :: nat where
  "maxBase64Len = 45"

function bEncode_loop :: "nat \<Rightarrow> bytes \<Rightarrow> bytes \<Rightarrow> bytes" where
  "bEncode_loop currentLen pending [] = EncodeToString pending"
| "bEncode_loop currentLen pending (b # s) =
    (let runeLen = snd (decode_rune (b # s)) in
     if currentLen + runeLen \<le> maxBase64Len then
       bEncode_loop (currentLen + runeLen) (pending @ take runeLen (b # s)) (drop runeLen (b # s))
     else EncodeToString pending @ splitWord (CHR ''b'')
            @ bEncode_loop runeLen (take runeLen (b # s)) (drop runeLen (b # s)))"
  by pat_completeness auto
termination
  by (relation "measure (\<lambda>(n, p, s). length s)") (auto simp: decode_rune_pos simp del: decode_rune.simps)

declare bEncode_loop.simps(2) [simp del]

definition BEncoding_Encode :: "bytes \<Rightarrow> bytes" where
  "BEncoding_Encode s =
    (if \<not> needsEncoding s then s
     else openWord (CHR ''b'')
       @ (if EncodedLen (length s) \<le> maxContentLen then EncodeToString s else bEncode_loop 0 [] s)
       @ closeWord)"

text \<open>An encoded word is printable ASCII with spaces, whatever bytes it encodes.\<close>

definition printable_sp :: "bytes \<Rightarrow> bool" where
  "printable_sp s \<longleftrightarrow> list_all (\<lambda>c. 32 \<le> byte c \<and> byte c < 127) s"

lemma printable_sp_simps [simp]:
  "printable_sp []"
  "printable_sp (c # s) \<longleftrightarrow> 32 \<le> byte c \<and> byte c < 127 \<and> printable_sp s"
  "printable_sp (s @ t) \<longleftrightarrow> printable_sp s \<and> printable_sp t"
  by (auto simp: printable_sp_def)

lemma printable_sp_concat: "printable_sp (concat ss) \<longleftrightarrow> (\<forall>s \<in> set ss. printable_sp s)"
  by (induction ss) auto

lemma printable_sp_hex_escape: "32 \<le> byte c \<Longrightarrow> byte c < 127 \<Longrightarrow> printable_sp (hex_escape c d)"
  using upperhex_plain [OF nibbles(1) [of d]] upperhex_plain [OF nibbles(2) [of d]]
  by (simp add: hex_escape_def)

lemma printable_sp_writeQByte: "printable_sp (writeQByte b)"
  by (auto simp: writeQByte_def intro!: printable_sp_hex_escape)

lemma printable_sp_words:
  "printable_sp closeWord"
  "32 \<le> byte e \<Longrightarrow> byte e < 127 \<Longrightarrow> printable_sp (openWord e)"
  "32 \<le> byte e \<Longrightarrow> byte e < 127 \<Longrightarrow> printable_sp (splitWord e)"
  by (simp_all add: closeWord_def openWord_def splitWord_def)

lemma printable_sp_Encode: "printable_sp (EncodeToString s)"
  by (auto simp: printable_sp_def list_all_iff dest: EncodeToString_plain)

lemma printable_sp_qEncode: "printable_sp (qEncode n s)"
  by (induction n s rule: qEncode.induct)
     (auto simp: qEncode.simps(2) Let_def printable_sp_concat printable_sp_writeQByte printable_sp_words
           simp del: decode_rune.simps)

lemma printable_sp_bEncode: "printable_sp (bEncode_loop n p s)"
  by (induction n p s rule: bEncode_loop.induct)
     (auto simp: bEncode_loop.simps(2) Let_def printable_sp_Encode printable_sp_words
           simp del: decode_rune.simps)

lemma needsEncoding_no_crlf: "\<not> needsEncoding s \<Longrightarrow> c \<in> set s \<Longrightarrow> byte c = 9 \<or> (32 \<le> byte c \<and> byte c < 127)"
proof (induction s rule: runes.induct)
  case (2 d s)
  let ?n = "snd (decode_rune (d # s))"
  let ?r = "fst (decode_rune (d # s))"
  have runes: "runes (d # s) = (?r, take ?n (d # s)) # runes (drop ?n (d # s))"
    by (simp add: runes.simps(2) [of d s] case_prod_beta del: decode_rune.simps)
  have "byte d < 0x80"
  proof (rule ccontr)
    assume "\<not> byte d < 0x80"
    then have "126 < ?r" by (auto simp: Let_def RuneError_def is_cont_def)
    with 2(2) runes show False by (auto simp: needsEncoding_def simp del: decode_rune.simps)
  qed
  then have *: "decode_rune (d # s) = (byte d, 1)" by (rule decode_rune_ascii)
  with runes 2(2) have "\<not> needsEncoding s" and "byte d = 9 \<or> (32 \<le> byte d \<and> byte d < 127)"
    by (auto simp: needsEncoding_def)
  with 2 * show ?case by auto
qed simp

text \<open>An RFC 2047 encoding carries no control byte but TAB, hence no CR and no LF.\<close>

lemma QEncoding_Encode_bytes:
  "c \<in> set (QEncoding_Encode s) \<Longrightarrow> byte c = 9 \<or> (32 \<le> byte c \<and> byte c < 127)"
proof (cases "needsEncoding s")
  case True
  then have "printable_sp (QEncoding_Encode s)"
    by (simp add: QEncoding_Encode_def printable_sp_qEncode printable_sp_words)
  then show "c \<in> set (QEncoding_Encode s) \<Longrightarrow> ?thesis" by (auto simp: printable_sp_def list_all_iff)
qed (auto simp: QEncoding_Encode_def dest: needsEncoding_no_crlf)

lemma BEncoding_Encode_bytes:
  "c \<in> set (BEncoding_Encode s) \<Longrightarrow> byte c = 9 \<or> (32 \<le> byte c \<and> byte c < 127)"
proof (cases "needsEncoding s")
  case True
  then have "printable_sp (BEncoding_Encode s)"
    by (simp add: BEncoding_Encode_def printable_sp_bEncode printable_sp_Encode printable_sp_words)
  then show "c \<in> set (BEncoding_Encode s) \<Longrightarrow> ?thesis" by (auto simp: printable_sp_def list_all_iff)
qed (auto simp: BEncoding_Encode_def dest: needsEncoding_no_crlf)

section \<open>quotedprintable.Writer\<close>

text \<open>
  The writer buffers one line; \<open>qp_out\<close> is what was flushed to the underlying writer,
  \<open>qp_line\<close> the buffer and \<open>qp_cr\<close> the field \<^verbatim>\<open>cr\<close>.
\<close>

record qp =
  qp_out :: bytes
  qp_line :: bytes
  qp_cr :: bool

definition qp_lineMaxLen :: nat where
  "qp_lineMaxLen = 76"

definition qp_insertCRLF :: "qp \<Rightarrow> qp" where
  "qp_insertCRLF w = w\<lparr>qp_out := qp_out w @ qp_line w @ CRLF, qp_line := []\<rparr>"

definition qp_insertSoftLineBreak :: "qp \<Rightarrow> qp" where
  "qp_insertSoftLineBreak w = qp_insertCRLF (w\<lparr>qp_line := qp_line w @ ''=''\<rparr>)"

definition qp_encode :: "char \<Rightarrow> qp \<Rightarrow> qp" where
  "qp_encode b w =
    (let w = (if qp_lineMaxLen - 1 - length (qp_line w) < 3 then qp_insertSoftLineBreak w else w)
     in w\<lparr>qp_line := qp_line w @ hex_escape (CHR ''='') b\<rparr>)"

definition qp_checkLastByte :: "qp \<Rightarrow> qp" where
  "qp_checkLastByte w =
    (if qp_line w = [] then w
     else let b = last (qp_line w) in
       if b = SP \<or> b = TAB then qp_encode b (w\<lparr>qp_line := butlast (qp_line w)\<rparr>) else w)"

definition qp_write_byte :: "char \<Rightarrow> qp \<Rightarrow> qp" where
  "qp_write_byte b w =
    (if b = LF \<or> b = CR then
       (if qp_cr w \<and> b = LF then w\<lparr>qp_cr := False\<rparr>
        else let w = qp_insertCRLF (qp_checkLastByte w) in if b = CR then w\<lparr>qp_cr := True\<rparr> else w)
     else let w = (if length (qp_line w) = qp_lineMaxLen - 1 then qp_insertSoftLineBreak w else w)
       in w\<lparr>qp_line := qp_line w @ [b], qp_cr := False\<rparr>)"

definition qp_Write_byte :: "qp \<Rightarrow> char \<Rightarrow> qp" where
  "qp_Write_byte w b =
    (if (33 \<le> byte b \<and> byte b \<le> 126 \<and> b \<noteq> CHR ''='') \<or> b = SP \<or> b = TAB \<or> b = LF \<or> b = CR
     then qp_write_byte b w else qp_encode b w)"

definition qp_Write :: "bytes \<Rightarrow> qp \<Rightarrow> qp" where
  "qp_Write p w = foldl qp_Write_byte w p"

definition qp_Close :: "qp \<Rightarrow> qp" where
  "qp_Close w = (let w = qp_checkLastByte w in w\<lparr>qp_out := qp_out w @ qp_line w, qp_line := []\<rparr>)"

definition qp_new :: qp where
  "qp_new = \<lparr>qp_out = [], qp_line = [], qp_cr = False\<rparr>"

section \<open>textproto.CanonicalMIMEHeaderKey\<close>

definition validHeaderFieldByte :: "char \<Rightarrow> bool" where
  "validHeaderFieldByte c \<longleftrightarrow> is_alnum c \<or> c \<in> set ''!#$%&*+-.^_`|~'' \<or> c = CHR 0x27"

fun canon_loop :: "bool \<Rightarrow> bytes \<Rightarrow> bytes" where
  "canon_loop upper [] = []"
| "canon_loop upper (c # s) =
    (let c' = (if upper then upper_byte c else lower_byte c) in c' # canon_loop (c' = CHR ''-'') s)"

definition CanonicalMIMEHeaderKey :: "bytes \<Rightarrow> bytes" where
  "CanonicalMIMEHeaderKey s = (if list_all validHeaderFieldByte s then canon_loop True s else s)"

lemmas mime_eval [go_eval] =
  b64_char_def b64_val_def DecodeString_def EncodedLen_def upperhex_def
  hex_escape_def writeQByte_def openWord_def closeWord_def splitWord_def maxContentLen_def
  qEncode.simps(2) needsEncoding_def QEncoding_Encode_def maxBase64Len_def bEncode_loop.simps(2)
  BEncoding_Encode_def qp_lineMaxLen_def qp_insertCRLF_def qp_insertSoftLineBreak_def
  qp_encode_def qp_checkLastByte_def qp_write_byte_def qp_Write_byte_def qp_Write_def
  qp_Close_def qp_new_def validHeaderFieldByte_def CanonicalMIMEHeaderKey_def

end
