(* ===== verification/Address.thy ===== *)
theory Address
  imports Errors Go_Mime
begin

text \<open>
  Mailboxes (\<^verbatim>\<open>address.go\<close>). An address wraps a \<^verbatim>\<open>mail.Address\<close>: a display name and an
  addr-spec. The parsers of \<^verbatim>\<open>net/mail\<close> and \<^verbatim>\<open>mime\<close>, the host's table of media types,
  content sniffing and the IDNA conversion of \<^verbatim>\<open>golang.org/x/net/idna\<close> are the fields of the
  record \<open>netlib\<close>; the validity check of
  the program runs on whatever a parser returns, so what is proved here holds for every
  parser. \<^verbatim>\<open>(*mail.Address).String\<close> is modelled.
\<close>

record address =
  addr_Name :: bytes
  addr_Address :: bytes

record netlib =
  nl_unicode :: unicode
  mail_ParseAddress :: "bytes \<Rightarrow> goerr + address"
  mail_ParseAddressList :: "bytes \<Rightarrow> goerr + address list"
  idna_ToASCII :: "bytes \<Rightarrow> goerr + bytes"
  mime_ParseMediaType :: "bytes \<Rightarrow> goerr + bytes \<times> (bytes \<times> bytes) list"
  mime_TypeByExtension :: "bytes \<Rightarrow> bytes"
  http_DetectContentType :: "bytes \<Rightarrow> bytes"

section \<open>Validity\<close>

text \<open>The bytes a local part may hold: letters, digits, \<^verbatim>\<open>atext\<close> specials, dots, non-ASCII.\<close>

definition local_special :: bytes where
  "local_special = ''!#$%&*+-/=?^_`{|}~.'' @ [CHR 0x27]"

definition local_byte :: "char \<Rightarrow> bool" where
  "local_byte c \<longleftrightarrow> 0x80 \<le> byte c \<or> is_alnum c \<or> c \<in> set local_special"

definition validLocalPart :: "bytes \<Rightarrow> bool" where
  "validLocalPart loc \<longleftrightarrow>
     \<not> (loc = [] \<or> \<not> ValidString loc \<or> HasPrefix loc ''.'' \<or> HasSuffix loc ''.'' \<or> Contains loc ''..'')
     \<and> list_all local_byte loc"

definition Email :: "address \<Rightarrow> bytes" where
  "Email a = addr_Address a"

definition Name :: "address \<Rightarrow> bytes" where
  "Name a = addr_Name a"

definition valid :: "address \<Rightarrow> bool" where
  "valid a =
    (let email = TrimSpace (Email a) in
     if email = [] \<or> email \<noteq> Email a \<or> ContainsAny email CRLF then False
     else case LastIndexByte email (CHR ''@'') of
       None \<Rightarrow> False
     | Some i \<Rightarrow> if i = 0 \<or> length email - 1 \<le> i then False else validLocalPart (take i email))"

definition HasUnicodeLocalPart :: "address \<Rightarrow> bool" where
  "HasUnicodeLocalPart a =
    (let local = (case LastIndexByte (addr_Address a) (CHR ''@'') of
                    Some i \<Rightarrow> take i (addr_Address a) | None \<Rightarrow> addr_Address a)
     in list_ex (\<lambda>c. 0x80 \<le> byte c) local)"

section \<open>Construction and parsing\<close>

definition NewAddress :: "netlib \<Rightarrow> bytes \<Rightarrow> bytes \<Rightarrow> goerr + address" where
  "NewAddress L email name =
    (let email = TrimSpace email in
     case mail_ParseAddress L email of
       Inl err \<Rightarrow> Inl (Errorf ''%w: invalid email address %q: %w''
                        [OErr (Sentinel ErrInvalidArgument), OStr email, OErr err])
     | Inr parsed \<Rightarrow>
         (let addr = \<lparr>addr_Name = name, addr_Address = addr_Address parsed\<rparr> in
          if \<not> valid addr then
            Inl (Errorf ''%w: invalid email address %q'' [OErr (Sentinel ErrInvalidArgument), OStr email])
          else Inr addr))"

definition ParseAddress :: "netlib \<Rightarrow> bytes \<Rightarrow> goerr + address" where
  "ParseAddress L s =
    (case mail_ParseAddress L s of
       Inl err \<Rightarrow> Inl (Errorf ''%w: invalid address %q: %w''
                        [OErr (Sentinel ErrInvalidArgument), OStr s, OErr err])
     | Inr parsed \<Rightarrow>
         if \<not> valid parsed then
           Inl (Errorf ''%w: invalid address %q'' [OErr (Sentinel ErrInvalidArgument), OStr s])
         else Inr parsed)"

text \<open>The loop over the parsed list stops at the first invalid address.\<close>

fun check_list :: "bytes \<Rightarrow> address list \<Rightarrow> goerr + address list" where
  "check_list s [] = Inr []"
| "check_list s (p # ps) =
    (if \<not> valid p then
       Inl (Errorf ''%w: invalid address list %q'' [OErr (Sentinel ErrInvalidArgument), OStr s])
     else map_sum id ((#) p) (check_list s ps))"

definition ParseAddressList :: "netlib \<Rightarrow> bytes \<Rightarrow> goerr + address list" where
  "ParseAddressList L s =
    (case mail_ParseAddressList L s of
       Inl err \<Rightarrow> Inl (Errorf ''%w: invalid address list %q: %w''
                        [OErr (Sentinel ErrInvalidArgument), OStr s, OErr err])
     | Inr parsed \<Rightarrow> check_list s parsed)"

text \<open>\<^verbatim>\<open>MustAddress\<close> panics where \<^verbatim>\<open>NewAddress\<close> fails: \<open>None\<close>.\<close>

definition MustAddress :: "netlib \<Rightarrow> bytes \<Rightarrow> bytes \<Rightarrow> address option" where
  "MustAddress L email name = (case NewAddress L email name of Inl _ \<Rightarrow> None | Inr a \<Rightarrow> Some a)"

section \<open>Encoding\<close>

definition encodeAddrSpecDomain :: "netlib \<Rightarrow> bytes \<Rightarrow> goerr + bytes" where
  "encodeAddrSpecDomain L addr =
    (case LastIndexByte addr (CHR ''@'') of
       None \<Rightarrow> Inr addr
     | Some i \<Rightarrow>
         if i = length addr - 1 then Inr addr
         else let loc = take i addr; domain = drop (i + 1) addr in
           if HasPrefix domain ''['' \<and> HasSuffix domain '']'' then Inr addr
           else (case idna_ToASCII L domain of
             Inl err \<Rightarrow> Inl (Errorf ''%w: invalid address domain %q: %w''
                              [OErr (Sentinel ErrInvalidArgument), OStr domain, OErr err])
           | Inr ascii \<Rightarrow> Inr (loc @ ''@'' @ ascii)))"

definition EncodedEmail :: "netlib \<Rightarrow> address \<Rightarrow> goerr + bytes" where
  "EncodedEmail L a = encodeAddrSpecDomain L (Email a)"

text \<open>\<^verbatim>\<open>net/mail\<close>: \<^verbatim>\<open>isAtext\<close> with \<^verbatim>\<open>dot = false\<close>, \<^verbatim>\<open>quoteString\<close> and \<^verbatim>\<open>Address.String\<close>.\<close>

definition mail_isAtext :: "nat \<Rightarrow> bool" where
  "mail_isAtext r \<longleftrightarrow>
     (if r = byte (CHR ''.'') \<or> r \<in> byte ` set ''()<>[]:;@,'' \<or> r = 92 \<or> r = 34 then False
      else (33 \<le> r \<and> r \<le> 126) \<or> 128 \<le> r)"

definition mail_quote_rune :: "nat \<times> bytes \<Rightarrow> bytes" where
  "mail_quote_rune rb = (case rb of (r, b) \<Rightarrow>
     if (33 \<le> r \<and> r \<le> 126 \<and> r \<noteq> 34 \<and> r \<noteq> 92) \<or> 128 \<le> r \<or> r = 32 \<or> r = 9 then b
     else if 33 \<le> r \<and> r \<le> 126 then [CHR 0x5C] @ b
     else [])"

definition mail_quoteString :: "bytes \<Rightarrow> bytes" where
  "mail_quoteString s = [CHR 0x22] @ concat (map mail_quote_rune (runes s)) @ [CHR 0x22]"

fun mail_local_needs_quote :: "(nat \<times> bytes) list \<Rightarrow> char option \<Rightarrow> bool" where
  "mail_local_needs_quote [] prev \<longleftrightarrow> False"
| "mail_local_needs_quote ((r, b) # rs) prev \<longleftrightarrow>
    (if mail_isAtext r then mail_local_needs_quote rs (Some (last b))
     else if r = byte (CHR ''.'') \<and> (case prev of None \<Rightarrow> False | Some p \<Rightarrow> p \<noteq> CHR ''.'')
             \<and> (case rs of [] \<Rightarrow> False | (r', b') # _ \<Rightarrow> hd b' \<noteq> CHR ''.'')
     then mail_local_needs_quote rs (Some (CHR ''.''))
     else True)"

definition mail_String :: "address \<Rightarrow> bytes" where
  "mail_String a =
    (let at = LastIndexByte (addr_Address a) (CHR ''@'');
         local = (case at of None \<Rightarrow> addr_Address a | Some i \<Rightarrow> take i (addr_Address a));
         domain = (case at of None \<Rightarrow> [] | Some i \<Rightarrow> drop (i + 1) (addr_Address a));
         local' = (if mail_local_needs_quote (runes local) None then mail_quoteString local else local);
         s = ''<'' @ local' @ ''@'' @ domain @ ''>'';
         name = addr_Name a in
     if name = [] then s
     else if list_all (\<lambda>(r, b). (33 \<le> r \<and> r \<le> 126) \<or> r = 32 \<or> r = 9) (runes name)
     then mail_quoteString name @ '' '' @ s
     else if ContainsAny name ([CHR 0x22, CHR 0x27] @ ''#$%&(),.:;<>@[]^`{|}~'')
     then BEncoding_Encode name @ '' '' @ s
     else QEncoding_Encode name @ '' '' @ s)"

text \<open>\<^verbatim>\<open>Address.String\<close> of the program.\<close>

definition Address_String :: "address \<Rightarrow> bytes" where
  "Address_String a = (if Name a = [] then Email a else mail_String a)"

definition headerAddrSpec :: "netlib \<Rightarrow> address \<Rightarrow> bytes" where
  "headerAddrSpec L a =
    (case encodeAddrSpecDomain L (Email a) of Inr encoded \<Rightarrow> encoded | Inl _ \<Rightarrow> Email a)"

definition headerString :: "netlib \<Rightarrow> address \<Rightarrow> bytes" where
  "headerString L a =
    (if Name a = [] then headerAddrSpec L a
     else mail_String \<lparr>addr_Name = Name a, addr_Address = headerAddrSpec L a\<rparr>)"

lemmas address_eval [go_eval] =
  local_special_def local_byte_def validLocalPart_def Email_def Name_def valid_def
  HasUnicodeLocalPart_def NewAddress_def ParseAddress_def ParseAddressList_def MustAddress_def
  encodeAddrSpecDomain_def EncodedEmail_def mail_isAtext_def mail_quote_rune_def
  mail_quoteString_def mail_String_def Address_String_def headerAddrSpec_def headerString_def

section \<open>What validity gives\<close>

lemma validD:
  assumes "valid a"
  obtains local domain where
    "Email a = local @ CHR ''@'' # domain" "validLocalPart local" "domain \<noteq> []"
    "CHR ''@'' \<notin> set domain" "CR \<notin> set (Email a)" "LF \<notin> set (Email a)"
    "TrimSpace (Email a) = Email a"
proof -
  let ?e = "Email a"
  from assms have trim: "TrimSpace ?e = ?e" and crlf: "\<not> ContainsAny ?e CRLF"
    unfolding valid_def Let_def by (metis (full_types))+
  with assms obtain i where i: "LastIndexByte ?e (CHR ''@'') = Some i" "i \<noteq> 0" "i < length ?e - 1"
    "validLocalPart (take i ?e)"
    unfolding valid_def Let_def trim by (fastforce split: if_splits option.splits)
  have at: "?e ! i = CHR ''@''" and no: "CHR ''@'' \<notin> set (drop (Suc i) ?e)"
    using LastIndexFunc_Some [OF i(1)] by blast+
  have "i < length ?e" using i(3) by linarith
  then have split: "?e = take i ?e @ CHR ''@'' # drop (Suc i) ?e"
    using id_take_nth_drop [of i ?e] unfolding at by blast
  have dom: "drop (Suc i) ?e \<noteq> []" using i(3) by simp
  have "CR \<notin> set ?e" "LF \<notin> set ?e" using crlf unfolding ContainsAny_iff by auto
  with that [OF split i(4) dom no] trim show thesis by blast
qed

lemma valid_no_crlf [no_crlf]: "valid a \<Longrightarrow> CR \<notin> set (Email a) \<and> LF \<notin> set (Email a)"
  by (erule validD) auto

lemma validLocalPart_bytes: "validLocalPart l \<Longrightarrow> c \<in> set l \<Longrightarrow> local_byte c"
  by (auto simp: validLocalPart_def list_all_iff)

lemma local_byte_plain:
  "local_byte c \<Longrightarrow> 33 \<le> byte c \<and> byte c \<noteq> 127 \<and> c \<noteq> CHR ''<'' \<and> c \<noteq> CHR ''>'' \<and> c \<noteq> CHR ''@''"
  by (auto simp: local_byte_def local_special_def is_alnum_def is_letter_def is_digit_def)

lemma valid_cong: "Email a = Email b \<Longrightarrow> valid a = valid b"
  by (simp add: valid_def)

lemma NewAddress_Inr: "NewAddress L e n = Inr a \<Longrightarrow> valid a \<and> Name a = n"
  by (auto simp: NewAddress_def Let_def Name_def split: sum.splits if_splits)

lemma NewAddress_Inl: "NewAddress L e n = Inl err \<Longrightarrow> errors_Is err ErrInvalidArgument"
  by (auto simp: NewAddress_def Let_def split: sum.splits if_splits)

lemma ParseAddress_Inr: "ParseAddress L s = Inr a \<Longrightarrow> valid a"
  by (auto simp: ParseAddress_def split: sum.splits if_splits)

lemma ParseAddress_Inl: "ParseAddress L s = Inl err \<Longrightarrow> errors_Is err ErrInvalidArgument"
  by (auto simp: ParseAddress_def split: sum.splits if_splits)

lemma check_list_Inr: "check_list s ps = Inr as \<longleftrightarrow> as = ps \<and> list_all valid ps"
proof (induction ps arbitrary: as)
  case (Cons p ps)
  then show ?case by (cases "check_list s ps") auto
qed auto

lemma check_list_Inl: "check_list s ps = Inl err \<Longrightarrow> errors_Is err ErrInvalidArgument"
proof (induction ps)
  case (Cons p ps)
  then show ?case by (cases "check_list s ps") (auto split: if_splits)
qed auto

lemma ParseAddressList_Inr: "ParseAddressList L s = Inr as \<Longrightarrow> list_all valid as"
  by (auto simp: ParseAddressList_def check_list_Inr split: sum.splits)

lemma ParseAddressList_Inl: "ParseAddressList L s = Inl err \<Longrightarrow> errors_Is err ErrInvalidArgument"
  by (auto simp: ParseAddressList_def dest: check_list_Inl split: sum.splits)

text \<open>
  The envelope form of a valid address: the local part is kept byte for byte, the domain is
  either an address literal or the IDNA conversion's result.
\<close>

lemma encode_at_split:
  assumes "CHR ''@'' \<notin> set domain" "domain \<noteq> []"
  shows "encodeAddrSpecDomain L (local @ CHR ''@'' # domain) =
    (if HasPrefix domain ''['' \<and> HasSuffix domain '']'' then Inr (local @ CHR ''@'' # domain)
     else (case idna_ToASCII L domain of
        Inl err \<Rightarrow> Inl (Errorf ''%w: invalid address domain %q: %w''
                          [OErr (Sentinel ErrInvalidArgument), OStr domain, OErr err])
      | Inr ascii \<Rightarrow> Inr (local @ CHR ''@'' # ascii)))"
proof -
  have "LastIndexByte (local @ CHR ''@'' # domain) (CHR ''@'') = Some (length local)"
    using assms(1) by (intro LastIndexFunc_append) auto
  moreover have "length local \<noteq> length (local @ CHR ''@'' # domain) - 1" using assms(2) by simp
  ultimately show ?thesis
    by (simp add: encodeAddrSpecDomain_def Let_def split: sum.splits)
qed

lemma HasUnicodeLocalPart_split:
  assumes "CHR ''@'' \<notin> set domain"
  shows "HasUnicodeLocalPart \<lparr>addr_Name = n, addr_Address = local @ CHR ''@'' # domain\<rparr>
    \<longleftrightarrow> \<not> isASCII local"
proof -
  have "LastIndexByte (local @ CHR ''@'' # domain) (CHR ''@'') = Some (length local)"
    using assms by (intro LastIndexFunc_append) auto
  then show ?thesis
    by (simp add: HasUnicodeLocalPart_def isASCII_def list_all_iff list_ex_iff not_less)
qed

end
