(* ===== verification/Mime.thy ===== *)
theory Mime
  imports Address
begin

text \<open>
  The MIME and header encoding helpers (\<^verbatim>\<open>mime.go\<close>). A function that writes to an
  \<^verbatim>\<open>io.Writer\<close> returns the text it writes: the writers are in-memory buffers, whose own
  writes never fail, and on an error the caller drops the buffer. The random bytes of
  \<^verbatim>\<open>crypto/rand\<close> come in as the outcome of the read.
\<close>

definition maxBase64LineLength :: nat where "maxBase64LineLength = 76"
definition maxHeaderTokenLength :: nat where "maxHeaderTokenLength = 900"
definition maxHeaderLineLength :: nat where "maxHeaderLineLength = 78"
definition hardHeaderLineLength :: nat where "hardHeaderLineLength = 998"

section \<open>Header values\<close>

definition isPrintableASCII :: "bytes \<Rightarrow> bool" where
  "isPrintableASCII s \<longleftrightarrow> list_all (\<lambda>c. \<not> (0x80 \<le> byte c \<or> byte c < 0x20) \<or> c = TAB) s"

definition hasOverlongHeaderToken :: "bytes \<Rightarrow> bool" where
  "hasOverlongHeaderToken s \<longleftrightarrow>
     list_ex (\<lambda>token. maxHeaderTokenLength < length token) (Fields s)
     \<or> (maxHeaderTokenLength < length s \<and> length (Fields s) = 0)"

definition encodedWordPrefix :: bytes where "encodedWordPrefix = ''=?utf-8?b?''"
definition encodedWordSuffix :: bytes where "encodedWordSuffix = ''?=''"

text \<open>\<open>rawChunkLen\<close> as the source computes it from the 75-character limit.\<close>

definition rawChunkLen :: nat where
  "rawChunkLen =
    (let encodedTextLen = 75 - length encodedWordPrefix - length encodedWordSuffix;
         encodedTextLen = encodedTextLen - encodedTextLen mod 4;
         n = encodedTextLen div 4 * 3
     in if n \<le> 0 then 45 else n)"

lemma rawChunkLen_eq [simp]: "rawChunkLen = 45"
  by (simp add: rawChunkLen_def encodedWordPrefix_def encodedWordSuffix_def)

function ascii_words :: "bytes \<Rightarrow> bytes list" where
  "ascii_words [] = []"
| "ascii_words (c # s) =
    (let n = (if rawChunkLen > length (c # s) then length (c # s) else rawChunkLen)
     in (encodedWordPrefix @ EncodeToString (take n (c # s)) @ encodedWordSuffix)
        # ascii_words (drop n (c # s)))"
  by pat_completeness auto
termination
  by (relation "measure length") auto

declare ascii_words.simps(2) [simp del]

definition encodeASCIIEncodedWords :: "bytes \<Rightarrow> bytes" where
  "encodeASCIIEncodedWords s = Join (ascii_words s) '' ''"

definition encodeHeaderWord :: "bytes \<Rightarrow> bytes" where
  "encodeHeaderWord s =
    (if isPrintableASCII s \<and> \<not> hasOverlongHeaderToken s then s
     else if isPrintableASCII s then encodeASCIIEncodedWords s
     else QEncoding_Encode s)"

definition encodeAddressList :: "netlib \<Rightarrow> address list \<Rightarrow> bytes" where
  "encodeAddressList L addrs = Join (map (headerString L) addrs) '', ''"

definition hname_special :: bytes where
  "hname_special = ''!#$%&*+-/=?^_`{|}~'' @ [CHR 0x27]"

definition isValidHeaderName :: "bytes \<Rightarrow> bool" where
  "isValidHeaderName name \<longleftrightarrow>
     name \<noteq> [] \<and> list_all (\<lambda>c. is_alnum c \<or> c \<in> set hname_special) name"

definition hasCRLF :: "bytes \<Rightarrow> bool" where
  "hasCRLF s \<longleftrightarrow> ContainsAny s CRLF"

definition canonicalHeaderName :: "bytes \<Rightarrow> bytes" where
  "canonicalHeaderName name = CanonicalMIMEHeaderKey name"

section \<open>Folding\<close>

definition is_ws :: "char \<Rightarrow> bool" where
  "is_ws c \<longleftrightarrow> c = SP \<or> c = TAB"

definition overlong_error :: "bytes \<Rightarrow> goerr" where
  "overlong_error name = Errorf ''%w: header %q line exceeds %d octets''
     [OErr (Sentinel ErrInvalidArgument), OStr name, OInt (int hardHeaderLineLength)]"

text \<open>
  The loop of \<^verbatim>\<open>foldHeaderLine\<close>: \<open>plen\<close> is the length of the prefix \<^verbatim>\<open>Name: \<close>, \<open>i\<close> the
  position in the value (\<^verbatim>\<open>wsStart\<close> at the loop's head) and the last argument what is left of
  the value from there.
\<close>

function fold_loop :: "bytes \<Rightarrow> nat \<Rightarrow> nat \<Rightarrow> nat \<Rightarrow> bytes \<Rightarrow> goerr + bytes" where
  "fold_loop name plen curLen i [] = Inr CRLF"
| "fold_loop name plen curLen i (c # v) =
    (let ws = takeWhile is_ws (c # v);
         v' = dropWhile is_ws (c # v);
         word = takeWhile (\<lambda>d. \<not> is_ws d) v';
         rest = dropWhile (\<lambda>d. \<not> is_ws d) v';
         i' = i + length ws + length word in
     if word = [] then
       (if hardHeaderLineLength < curLen + length ws then Inl (overlong_error name)
        else emit ws (fold_loop name plen (curLen + length ws) i' rest))
     else
       (let fold = (0 < i \<and> maxHeaderLineLength < curLen + length ws + length word \<and> plen < curLen);
            curLen' = (if fold then 1 else curLen);
            ws' = (if fold then [] else ws) in
        if hardHeaderLineLength < curLen' + length ws' + length word then Inl (overlong_error name)
        else emit ((if fold then CRLF @ '' '' else []) @ ws' @ word)
               (fold_loop name plen (curLen' + length ws' + length word) i' rest)))"
  by pat_completeness auto
termination
proof (relation "measure (\<lambda>(name, plen, curLen, i, v). length v)", goal_cases)
  have *: "length (dropWhile P (dropWhile Q v)) < Suc (length v)" for P Q and v :: bytes
    by (meson length_dropWhile_le le_trans le_imp_less_Suc)
  case (2 name plen curLen i c v)
  then show ?case by (cases "is_ws c") (auto simp: *)
next
  have *: "length (dropWhile P (dropWhile Q v)) < Suc (length v)" for P Q and v :: bytes
    by (meson length_dropWhile_le le_trans le_imp_less_Suc)
  case (3 name plen curLen i c v)
  then show ?case
    by (cases "is_ws c") (auto simp: le_imp_less_Suc length_dropWhile_le *)
qed simp

declare fold_loop.simps(2) [simp del]

definition foldHeaderLine :: "bytes \<Rightarrow> bytes \<Rightarrow> goerr + bytes" where
  "foldHeaderLine name value =
    (if \<not> isValidHeaderName name then
       Inl (Errorf ''%w: invalid header name %q'' [OErr (Sentinel ErrInvalidArgument), OStr name])
     else if hasCRLF value then
       Inl (Errorf ''%w: invalid header value for %q: CR/LF is not allowed''
              [OErr (Sentinel ErrInvalidArgument), OStr name])
     else let prefix = name @ '': '' in
       emit prefix (fold_loop name (length prefix) (length prefix) 0 value))"

definition writeRawHeader :: "bytes \<Rightarrow> bytes \<Rightarrow> goerr + bytes" where
  "writeRawHeader name value = foldHeaderLine name (encodeHeaderWord value)"

section \<open>Media type parameters\<close>

definition isTSpecial :: "char \<Rightarrow> bool" where
  "isTSpecial c \<longleftrightarrow> c \<in> set (''()<>@,;:/[]?='' @ [CHR 0x5C, CHR 0x22])"

definition isToken :: "bytes \<Rightarrow> bool" where
  "isToken s \<longleftrightarrow> s \<noteq> [] \<and> list_all (\<lambda>c. 0x20 < byte c \<and> byte c < 0x7F \<and> \<not> isTSpecial c) s"

definition mime_pct :: "char \<Rightarrow> bytes" where
  "mime_pct c =
    (if byte c \<le> 32 \<or> 0x7F \<le> byte c \<or> c = CHR ''*'' \<or> c = CHR 0x27 \<or> c = CHR 0x25 \<or> isTSpecial c
     then hex_escape (CHR 0x25) c else [c])"

definition mime_quote :: "char \<Rightarrow> bytes" where
  "mime_quote c = (if c = CHR 0x22 \<or> c = CHR 0x5C then [CHR 0x5C, c] else [c])"

text \<open>\<^verbatim>\<open>mime.FormatMediaType\<close> with one parameter.\<close>

definition media_type_ok :: "bytes \<Rightarrow> bool" where
  "media_type_ok t =
    (case IndexByte t (CHR 0x2F) of
       None \<Rightarrow> isToken t
     | Some k \<Rightarrow> isToken (take k t) \<and> isToken (drop (k + 1) t))"

definition FormatMediaType :: "bytes \<Rightarrow> bytes \<Rightarrow> bytes \<Rightarrow> bytes" where
  "FormatMediaType t key val =
    (if \<not> media_type_ok t \<or> \<not> isToken key then []
     else map lower_byte t @ ''; '' @ map lower_byte key
       @ (if needsEncoding val then ''*=utf-8'' @ [CHR 0x27, CHR 0x27] @ concat (map mime_pct val)
          else if isToken val then ''='' @ val
          else ''='' @ [CHR 0x22] @ concat (map mime_quote val) @ [CHR 0x22]))"

definition needsRFC2231Continuation :: "bytes \<Rightarrow> bool" where
  "needsRFC2231Continuation val \<longleftrightarrow> 200 < length val"

definition rfc2231_special :: bytes where
  "rfc2231_special = ''!#$&+-.^_`|~''"

definition isRFC2231AttrChar :: "char \<Rightarrow> bool" where
  "isRFC2231AttrChar c \<longleftrightarrow> is_alnum c \<or> c \<in> set rfc2231_special"

definition percentEncodeRFC2231 :: "bytes \<Rightarrow> bytes" where
  "percentEncodeRFC2231 val =
    concat (map (\<lambda>c. if isRFC2231AttrChar c then [c] else hex_escape (CHR 0x25) c) val)"

text \<open>The inner loop that moves \<open>n\<close> back to a rune boundary.\<close>

fun rune_back :: "bytes \<Rightarrow> nat \<Rightarrow> nat" where
  "rune_back v 0 = 0"
| "rune_back v (Suc n) = (if RuneStart (v ! Suc n) then Suc n else rune_back v n)"

definition chunk_len :: "bytes \<Rightarrow> nat" where
  "chunk_len v =
    (if 30 < length v then
       (let n = rune_back v 30 in if n = 0 then snd (decode_rune v) else n)
     else length v)"

lemma rune_back_le: "rune_back v n \<le> n"
  by (induction n) (auto simp: le_SucI)

lemma chunk_len_pos: "v \<noteq> [] \<Longrightarrow> 0 < chunk_len v"
  by (auto simp: chunk_len_def Let_def decode_rune_pos)

lemma chunk_len_le_30: "chunk_len v \<le> 30"
  using rune_back_le [of v 30] decode_rune_le_4 [of v] by (auto simp: chunk_len_def Let_def)

lemma chunk_len_le_length: "chunk_len v \<le> length v"
  using rune_back_le [of v 30] decode_rune_le_length [of v] by (auto simp: chunk_len_def Let_def)

function rfc2231ContinuationChunks :: "bytes \<Rightarrow> bytes list" where
  "rfc2231ContinuationChunks [] = []"
| "rfc2231ContinuationChunks (c # v) =
    percentEncodeRFC2231 (take (chunk_len (c # v)) (c # v))
      # rfc2231ContinuationChunks (drop (chunk_len (c # v)) (c # v))"
  by pat_completeness auto
termination
  by (relation "measure length") (simp_all add: chunk_len_pos)

declare rfc2231ContinuationChunks.simps(2) [simp del]

definition rfc2231_param :: "bytes \<Rightarrow> nat \<Rightarrow> bytes \<Rightarrow> bytes" where
  "rfc2231_param key i chunk =
    ''; '' @ key @ ''*'' @ Itoa (int i) @ ''*=''
      @ (if i = 0 then ''utf-8'' @ [CHR 0x27, CHR 0x27] @ chunk else chunk)"

fun rfc2231_params :: "bytes \<Rightarrow> nat \<Rightarrow> bytes list \<Rightarrow> bytes" where
  "rfc2231_params key i [] = []"
| "rfc2231_params key i (ch # chs) = rfc2231_param key i ch @ rfc2231_params key (i + 1) chs"

definition format_param :: "unicode \<Rightarrow> bytes \<Rightarrow> bytes \<Rightarrow> bytes \<Rightarrow> bytes" where
  "format_param U mediaType key val =
    (if needsRFC2231Continuation val then rfc2231_params key 0 (rfc2231ContinuationChunks val)
     else let single = FormatMediaType mediaType key val in
       if HasPrefix single mediaType then TrimPrefix single mediaType
       else ''; '' @ key @ ''='' @ Quote U val)"

text \<open>A Go map as an association list with distinct keys; the loop runs over the sorted keys.\<close>

definition formatMediaTypeHeaderValue :: "unicode \<Rightarrow> bytes \<Rightarrow> (bytes \<times> bytes) list \<Rightarrow> bytes" where
  "formatMediaTypeHeaderValue U mediaType params =
    (if length params = 0 then mediaType
     else mediaType @ concat (map (\<lambda>key. format_param U mediaType key (the (map_of params key)))
            (sort (map fst params))))"

section \<open>Bodies, identifiers\<close>

definition writeQuotedPrintable :: "bytes \<Rightarrow> bytes" where
  "writeQuotedPrintable data = qp_out (qp_Close (qp_Write data qp_new))"

function base64_lines :: "bytes \<Rightarrow> bytes" where
  "base64_lines [] = []"
| "base64_lines (c # s) =
    (let n = (if maxBase64LineLength > length (c # s) then length (c # s) else maxBase64LineLength)
     in take n (c # s) @ CRLF @ base64_lines (drop n (c # s)))"
  by pat_completeness auto
termination
  by (relation "measure length") (auto simp: maxBase64LineLength_def)

declare base64_lines.simps(2) [simp del]

definition writeBase64 :: "bytes \<Rightarrow> bytes" where
  "writeBase64 data = base64_lines (EncodeToString data)"

text \<open>
  The outcome of \<^verbatim>\<open>rand.Read\<close> on 16 bytes: the bytes, or a failure, in which case the
  clock's nanoseconds are used.
\<close>

type_synonym draw = "int + bytes"

definition generateID :: "draw \<Rightarrow> bytes" where
  "generateID d = (case d of Inl nanos \<Rightarrow> Itoa nanos | Inr b \<Rightarrow> concat (map (\<lambda>c. hex_digits 2 (byte c)) b))"

definition generateMessageID :: "draw \<Rightarrow> bytes \<Rightarrow> bytes" where
  "generateMessageID d domain =
    (let domain = (if domain = [] then ''localhost.localdomain'' else domain)
     in generateID d @ ''@'' @ domain)"

definition generateBoundary :: "draw \<Rightarrow> bytes" where
  "generateBoundary d = ''_=_gomailer_'' @ generateID d @ ''_=_''"

lemmas mimego_eval [go_eval] =
  is_ws_def maxBase64LineLength_def maxHeaderTokenLength_def maxHeaderLineLength_def hardHeaderLineLength_def
  isPrintableASCII_def hasOverlongHeaderToken_def encodedWordPrefix_def encodedWordSuffix_def
  ascii_words.simps(2) encodeASCIIEncodedWords_def encodeHeaderWord_def encodeAddressList_def
  hname_special_def isValidHeaderName_def hasCRLF_def canonicalHeaderName_def fold_loop.simps(2)
  foldHeaderLine_def writeRawHeader_def isTSpecial_def isToken_def mime_pct_def mime_quote_def
  media_type_ok_def FormatMediaType_def needsRFC2231Continuation_def rfc2231_special_def isRFC2231AttrChar_def
  percentEncodeRFC2231_def chunk_len_def rfc2231ContinuationChunks.simps(2) rfc2231_param_def
  format_param_def formatMediaTypeHeaderValue_def writeQuotedPrintable_def base64_lines.simps(2)
  writeBase64_def generateID_def generateMessageID_def generateBoundary_def overlong_error_def

end
