(* ===== verification/Mime_Props.thy ===== *)
theory Mime_Props
  imports Mime
begin

text \<open>
  Facts about the header and body encoders of \<^verbatim>\<open>mime.go\<close>: a folded header unfolds to one
  field with the words of its value, its physical lines keep the 998-octet limit, encoded
  values are free of CR and LF, and the base64, RFC 2231 and RFC 2047 encoders are undone by
  their decoders. The interface \<open>header_writer\<close> states what the writers of a single header
  promise the message serializer.
\<close>

section \<open>Unfolding\<close>

fun unfold_header :: "bytes \<Rightarrow> bytes" where
  "unfold_header (c # d # e # s) =
    (if c = CR \<and> d = LF \<and> is_ws e then unfold_header (e # s) else c # unfold_header (d # e # s))"
| "unfold_header s = s"

function ws_words :: "bytes \<Rightarrow> bytes list" where
  "ws_words v =
    (let r = dropWhile is_ws v in
     if r = [] then []
     else takeWhile (\<lambda>d. \<not> is_ws d) r # ws_words (dropWhile (\<lambda>d. \<not> is_ws d) r))"
  by pat_completeness auto
termination
proof (relation "measure length")
  fix v r :: bytes
  assume r: "r = dropWhile is_ws v" "r \<noteq> []"
  then have "length (dropWhile (\<lambda>d. \<not> is_ws d) r) < length r"
    using hd_dropWhile [of is_ws v] by (intro length_dropWhile_less) auto
  also have "length r \<le> length v" by (simp add: r(1) length_dropWhile_le)
  finally show "(dropWhile (\<lambda>d. \<not> is_ws d) r, v) \<in> measure length" by simp
qed simp

declare ws_words.simps [simp del]

lemma ws_words_Nil [simp]: "ws_words [] = []"
  by (simp add: ws_words.simps)

lemma ws_words_strip: "ws_words (dropWhile is_ws v) = ws_words v"
  by (subst (1 2) ws_words.simps) simp

lemma ws_words_skip: "\<forall>c \<in> set ws. is_ws c \<Longrightarrow> ws_words (ws @ v) = ws_words v"
proof -
  assume "\<forall>c \<in> set ws. is_ws c"
  then have "dropWhile is_ws (ws @ v) = dropWhile is_ws v" by (simp add: dropWhile_append2)
  then show ?thesis using ws_words_strip [of "ws @ v"] ws_words_strip [of v] by simp
qed

lemma ws_words_word:
  assumes "w \<noteq> []" "\<forall>c \<in> set w. \<not> is_ws c" "t = [] \<or> is_ws (hd t)"
  shows "ws_words (w @ t) = w # ws_words t"
proof -
  have "dropWhile is_ws (w @ t) = w @ t" using assms(1,2) by (cases w) auto
  moreover have "takeWhile (\<lambda>d. \<not> is_ws d) (w @ t) = w" "dropWhile (\<lambda>d. \<not> is_ws d) (w @ t) = t"
    using assms(2,3) by (cases t; auto simp: takeWhile_append2 dropWhile_append2)+
  ultimately show ?thesis using assms(1) by (subst ws_words.simps) (simp add: Let_def)
qed

lemma ws_words_append_ws:
  assumes "is_ws c"
  shows "ws_words (a @ c # b) = ws_words a @ ws_words b"
proof (induction a rule: ws_words.induct)
  case (1 a)
  let ?r = "dropWhile is_ws a"
  show ?case
  proof (cases "?r = []")
    case True
    then have "\<forall>d \<in> set a. is_ws d" by simp
    then have "ws_words (a @ c # b) = ws_words b" using assms ws_words_skip [of "a @ [c]" b] by auto
    moreover have "ws_words a = []" using True by (subst ws_words.simps) simp
    ultimately show ?thesis by simp
  next
    case False
    let ?w = "takeWhile (\<lambda>d. \<not> is_ws d) ?r" and ?t = "dropWhile (\<lambda>d. \<not> is_ws d) ?r"
    have w: "?w \<noteq> []" using False hd_dropWhile [of is_ws a] by (cases ?r) auto
    have t: "?t = [] \<or> is_ws (hd ?t)" using dropWhile_Nil_or [of "\<lambda>d. \<not> is_ws d" ?r] by (simp only: not_not)
    have nw: "\<forall>d \<in> set ?w. \<not> is_ws d" by (auto dest: set_takeWhileD)
    have "ws_words (a @ c # b) = ws_words (dropWhile is_ws (a @ c # b))" by (rule ws_words_strip [symmetric])
    also have "dropWhile is_ws (a @ c # b) = ?r @ c # b"
      using False by (metis dropWhile_append1 dropWhile_eq_Nil_conv)
    also have "?r @ c # b = ?w @ (?t @ c # b)" by simp
    also have "ws_words (?w @ (?t @ c # b)) = ?w # ws_words (?t @ c # b)"
      using hd_append_or [of ?t is_ws, OF t assms] by (intro ws_words_word [OF w nw]) blast
    also have "ws_words (?t @ c # b) = ws_words ?t @ ws_words b" using "1.IH" [OF refl] False by blast
    also have "?w # ws_words ?t @ ws_words b = ws_words a @ ws_words b"
      using False by (subst (2) ws_words.simps) (simp add: Let_def)
    finally show ?thesis .
  qed
qed

lemma ws_words_Join: "ws_words (Join segs '' '') = concat (map ws_words segs)"
  by (induction segs "'' ''" rule: Join.induct) (simp_all add: ws_words_append_ws is_ws_def)

abbreviation FWS :: bytes where "FWS \<equiv> [CR, LF, SP]"

abbreviation no_CRLF :: "bytes \<Rightarrow> bool" where
  "no_CRLF s \<equiv> CR \<notin> set s \<and> LF \<notin> set s"

lemma unfold_header_no_CR: "CR \<notin> set s \<Longrightarrow> unfold_header (s @ t) = s @ unfold_header t"
proof (induction s)
  case (Cons c s)
  have "unfold_header (c # u) = c # unfold_header u" if "c \<noteq> CR" for c u
    using that by (cases "c # u" rule: unfold_header.cases) auto
  moreover have "c \<noteq> CR" using Cons.prems by auto
  ultimately show ?case using Cons by simp
qed simp

lemma unfold_header_fold: "is_ws e \<Longrightarrow> unfold_header (CR # LF # e # s) = unfold_header (e # s)"
  by auto

lemma unfold_header_segments:
  assumes "segs \<noteq> []" "\<forall>s \<in> set segs. no_CRLF s"
  shows "unfold_header (Join segs FWS @ t) = Join segs '' '' @ unfold_header t"
  using assms
proof (induction segs FWS rule: Join.induct)
  case (3 w v ws)
  have "unfold_header (Join (w # v # ws) FWS @ t)
    = w @ unfold_header (CR # LF # SP # (Join (v # ws) FWS @ t))"
    using 3(3) by (simp add: unfold_header_no_CR)
  also have "unfold_header (CR # LF # SP # (Join (v # ws) FWS @ t))
    = unfold_header ([SP] @ (Join (v # ws) FWS @ t))"
    by (simp add: is_ws_def)
  also have "\<dots> = SP # Join (v # ws) '' '' @ unfold_header t"
    using 3 by (subst unfold_header_no_CR) auto
  finally show ?case by simp
qed (auto simp: unfold_header_no_CR)

section \<open>The folded value as segments\<close>

definition fold_segments :: "nat \<Rightarrow> bytes \<Rightarrow> bytes \<Rightarrow> bytes list \<Rightarrow> bool" where
  "fold_segments curLen v out segs \<longleftrightarrow>
     segs \<noteq> [] \<and> out = Join segs FWS @ CRLF \<and> (\<forall>s \<in> set segs. no_CRLF s)
     \<and> concat (map ws_words segs) = ws_words v
     \<and> curLen + length (hd segs) \<le> hardHeaderLineLength
     \<and> (\<forall>s \<in> set (tl segs). Suc (length s) \<le> hardHeaderLineLength)
     \<and> (v = [] \<or> is_ws (hd v) \<longrightarrow> hd segs = [] \<or> is_ws (hd (hd segs)))"

lemma Join_Cons_append: "Join ((a @ w) # ws) sep = a @ Join (w # ws) sep"
  by (cases ws) auto

lemma fold_segments_keep:
  assumes "fold_segments (curLen + length ws + length word) rest out segs"
    and "\<forall>c \<in> set ws. is_ws c" "\<forall>c \<in> set word. \<not> is_ws c" "word \<noteq> []"
    and "rest = [] \<or> is_ws (hd rest)" "no_CRLF (ws @ word)"
  shows "fold_segments curLen (ws @ word @ rest) (ws @ word @ out) ((ws @ word @ hd segs) # tl segs)"
proof -
  obtain s ss where segs: "segs = s # ss" using assms(1) by (cases segs) (auto simp: fold_segments_def)
  have s: "s = [] \<or> is_ws (hd s)" using assms(1,5) by (auto simp: fold_segments_def segs)
  have "ws_words (ws @ word @ s) = word # ws_words s"
    using assms(2-4) s by (simp add: ws_words_skip ws_words_word)
  moreover have "ws_words (ws @ word @ rest) = word # ws_words rest"
    using assms(2-5) by (simp add: ws_words_skip ws_words_word)
  moreover have "hd (ws @ word @ u) = hd (ws @ word)" for u using assms(4) by (cases ws) auto
  ultimately show ?thesis
    using assms(1,4,6) by (auto simp: fold_segments_def segs Join_Cons_append simp flip: append_assoc)
qed

lemma fold_segments_break:
  assumes "fold_segments (1 + length word) rest out segs"
    and "\<forall>c \<in> set ws. is_ws c" "\<forall>c \<in> set word. \<not> is_ws c" "word \<noteq> []"
    and "rest = [] \<or> is_ws (hd rest)" "no_CRLF word" "curLen \<le> hardHeaderLineLength"
  shows "fold_segments curLen (ws @ word @ rest) (CRLF @ '' '' @ word @ out) ([] # (word @ hd segs) # tl segs)"
proof -
  obtain s ss where segs: "segs = s # ss" using assms(1) by (cases segs) (auto simp: fold_segments_def)
  have s: "s = [] \<or> is_ws (hd s)" using assms(1,5) by (auto simp: fold_segments_def segs)
  have "ws_words (word @ s) = word # ws_words s" using assms(3,4) s by (simp add: ws_words_word)
  moreover have "ws_words (ws @ word @ rest) = word # ws_words rest"
    using assms(2-5) by (simp add: ws_words_skip ws_words_word)
  ultimately show ?thesis
    using assms(1,6,7) by (auto simp: fold_segments_def segs Join_Cons_append)
qed

text \<open>One turn of the loop: a run of white space, the word after it, and what is left.\<close>

definition fold_here :: "nat \<Rightarrow> nat \<Rightarrow> nat \<Rightarrow> bytes \<Rightarrow> bytes \<Rightarrow> bool" where
  "fold_here plen curLen i ws word \<longleftrightarrow>
     0 < i \<and> maxHeaderLineLength < curLen + length ws + length word \<and> plen < curLen"

definition fold_turn :: "bytes \<Rightarrow> nat \<Rightarrow> nat \<Rightarrow> nat \<Rightarrow> bytes \<Rightarrow> bytes \<Rightarrow> (nat \<Rightarrow> goerr + bytes) \<Rightarrow> goerr + bytes" where
  "fold_turn name plen curLen i ws word loop =
    (if word = [] then
       (if hardHeaderLineLength < curLen + length ws then Inl (overlong_error name)
        else emit ws (loop (curLen + length ws)))
     else let f = fold_here plen curLen i ws word;
              cur = (if f then 1 else curLen) + length (if f then [] else ws) + length word in
       if hardHeaderLineLength < cur then Inl (overlong_error name)
       else emit ((if f then CRLF @ '' '' else []) @ (if f then [] else ws) @ word) (loop cur))"

lemma fold_loop_turn:
  assumes "v \<noteq> []"
  obtains ws word rest where
    "v = ws @ word @ rest" "\<forall>d \<in> set ws. is_ws d" "\<forall>d \<in> set word. \<not> is_ws d"
    "rest = [] \<or> is_ws (hd rest)" "length rest < length v" "word = [] \<Longrightarrow> rest = []"
    "\<And>name plen curLen i. fold_loop name plen curLen i v =
       fold_turn name plen curLen i ws word (\<lambda>cur. fold_loop name plen cur (i + length ws + length word) rest)"
proof -
  obtain c u where v: "v = c # u" using assms by (cases v) auto
  define ws v' where "ws = takeWhile is_ws v" and "v' = dropWhile is_ws v"
  define word rest where "word = takeWhile (\<lambda>d. \<not> is_ws d) v'" and "rest = dropWhile (\<lambda>d. \<not> is_ws d) v'"
  have split: "v = ws @ word @ rest"
    unfolding ws_def word_def rest_def v'_def by (metis takeWhile_dropWhile_id)
  have ws: "\<forall>d \<in> set ws. is_ws d" and word: "\<forall>d \<in> set word. \<not> is_ws d"
    unfolding ws_def word_def by (auto dest: set_takeWhileD)
  have rest: "rest = [] \<or> is_ws (hd rest)"
    unfolding rest_def using dropWhile_Nil_or [of "\<lambda>d. \<not> is_ws d" v'] by (simp only: not_not)
  have empty: "rest = []" if "word = []"
    using that dropWhile_Nil_or [of is_ws v] unfolding word_def rest_def v'_def
    by (metis dropWhile.simps(1) takeWhile_eq_Nil)
  have "length rest < length v"
  proof (cases "word = []")
    case True
    with empty assms show ?thesis by simp
  qed (simp add: split)
  moreover have "fold_loop name plen curLen i v =
       fold_turn name plen curLen i ws word (\<lambda>cur. fold_loop name plen cur (i + length ws + length word) rest)" for name plen curLen i
    unfolding fold_turn_def fold_here_def ws_def word_def rest_def v'_def
    unfolding v fold_loop.simps(2) [of name plen curLen i c u] Let_def by (rule refl)
  ultimately show thesis using that [OF split ws word rest] empty by blast
qed

lemma fold_loop_segments:
  assumes "fold_loop name plen curLen i v = Inr out" "no_CRLF v"
    and "curLen \<le> hardHeaderLineLength \<or> (i = 0 \<and> v \<noteq> [])"
  shows "\<exists>segs. fold_segments curLen v out segs"
  using assms
proof (induction v arbitrary: curLen i out rule: length_induct)
  case (1 v)
  show ?case
  proof (cases "v = []")
    case True
    with 1 have "fold_segments curLen v out [[]]" by (auto simp: fold_segments_def)
    then show ?thesis ..
  next
    case False
    obtain ws word rest where v: "v = ws @ word @ rest" and ws: "\<forall>d \<in> set ws. is_ws d"
      and word: "\<forall>d \<in> set word. \<not> is_ws d" and rest: "rest = [] \<or> is_ws (hd rest)"
      and len: "length rest < length v" and empty: "word = [] \<Longrightarrow> rest = []"
      and turn: "\<And>name plen curLen i. fold_loop name plen curLen i v =
       fold_turn name plen curLen i ws word (\<lambda>cur. fold_loop name plen cur (i + length ws + length word) rest)"
      using fold_loop_turn [OF False] by blast
    have crlf: "no_CRLF (ws @ word)" "no_CRLF rest" using "1.prems"(2) unfolding v by auto
    show ?thesis
    proof (cases "word = []")
      case True
      with empty "1.prems"(1) turn have "curLen + length ws \<le> hardHeaderLineLength" "out = ws @ CRLF"
        by (auto simp: fold_turn_def split: if_splits)
      then have "fold_segments curLen v out [ws]"
        using True empty crlf ws False ws_words_skip [OF ws, of "[]"] by (auto simp: fold_segments_def v)
      then show ?thesis ..
    next
      case nonempty: False
      define f where "f = fold_here plen curLen i ws word"
      define cur where "cur = (if f then 1 else curLen) + length (if f then [] else ws) + length word"
      from "1.prems"(1) nonempty obtain out' where le: "cur \<le> hardHeaderLineLength"
        and loop: "fold_loop name plen cur (i + length ws + length word) rest = Inr out'"
        and out: "out = (if f then CRLF @ '' '' else []) @ (if f then [] else ws) @ word @ out'"
        unfolding turn fold_turn_def Let_def f_def [symmetric] cur_def [symmetric]
        by (auto simp: emit_eq_Inr not_less split: if_splits)
      obtain segs where segs: "fold_segments cur rest out' segs"
        using "1.IH" len loop crlf(2) le by blast
      have "fold_segments curLen v out
          (if f then [] # (word @ hd segs) # tl segs else (ws @ word @ hd segs) # tl segs)"
        using fold_segments_break [OF _ ws word nonempty rest, of out' segs curLen] segs crlf "1.prems"(3)
          fold_segments_keep [OF _ ws word nonempty rest, of curLen out' segs] out
        by (auto simp: v cur_def f_def fold_here_def split: if_splits)
      then show ?thesis ..
    qed
  qed
qed

section \<open>A header on the wire\<close>

text \<open>
  \<open>header_field name words out\<close>: unfolded, \<open>out\<close> is the single field \<open>name\<close>, terminated by
  CRLF, and its value has exactly the given words.
\<close>

definition header_field :: "bytes \<Rightarrow> bytes list \<Rightarrow> bytes \<Rightarrow> bool" where
  "header_field name words out \<longleftrightarrow>
     (\<exists>v. unfold_header out = name @ '': '' @ v @ CRLF \<and> no_CRLF v \<and> ws_words v = words)"

lemma isValidHeaderName_no_CRLF [no_crlf]: "isValidHeaderName name \<Longrightarrow> no_CRLF name"
  by (auto simp: isValidHeaderName_def list_all_iff hname_special_def is_alnum_def is_letter_def is_digit_def)

lemma hasCRLF_iff: "hasCRLF s \<longleftrightarrow> \<not> no_CRLF s"
  by (auto simp: hasCRLF_def ContainsAny_iff)

lemma foldHeaderLine_Inr:
  assumes "foldHeaderLine name value = Inr out" and "value \<noteq> [] \<or> length name \<le> 996"
  obtains segs where "isValidHeaderName name" "no_CRLF value" "fold_segments (length name + 2) value (drop (length name + 2) out) segs"
    "out = name @ '': '' @ Join segs FWS @ CRLF"
proof -
  from assms(1) have name: "isValidHeaderName name" and val: "no_CRLF value"
    and loop: "\<exists>t. out = (name @ '': '') @ t \<and>
       fold_loop name (length name + 2) (length name + 2) 0 value = Inr t"
    by (auto simp: foldHeaderLine_def Let_def emit_eq_Inr hasCRLF_iff split: if_splits)
  then obtain t where t: "out = (name @ '': '') @ t"
    "fold_loop name (length name + 2) (length name + 2) 0 value = Inr t" by blast
  have "\<exists>segs. fold_segments (length name + 2) value t segs"
    using assms(2) by (intro fold_loop_segments [OF t(2) val]) (auto simp: hardHeaderLineLength_def)
  then obtain segs where segs: "fold_segments (length name + 2) value t segs" ..
  moreover from segs t(1) have "out = name @ '': '' @ Join segs FWS @ CRLF"
    by (simp add: fold_segments_def)
  moreover from t(1) have "drop (length name + 2) out = t" by simp
  ultimately show thesis using that name val by metis
qed

lemma foldHeaderLine_field:
  assumes "foldHeaderLine name value = Inr out"
  shows "header_field name (ws_words value) out"
proof (cases "value = []")
  case True
  with assms have "out = (name @ '': '') @ CRLF" "no_CRLF name"
    by (auto simp: foldHeaderLine_def emit_eq_Inr Let_def isValidHeaderName_no_CRLF split: if_splits)
  moreover have "unfold_header ((name @ '': '') @ CRLF) = (name @ '': '') @ CRLF"
    using \<open>no_CRLF name\<close> by (subst unfold_header_no_CR) auto
  ultimately show ?thesis using True by (auto simp: header_field_def intro!: exI [of _ "[]"])
next
  case False
  then obtain segs where name: "isValidHeaderName name" and
    segs: "fold_segments (length name + 2) value (drop (length name + 2) out) segs" and
    out: "out = (name @ '': '') @ Join segs FWS @ CRLF"
    using foldHeaderLine_Inr [OF assms] by auto
  have "CR \<notin> set (name @ '': '')" using isValidHeaderName_no_CRLF [OF name] by simp
  then have "unfold_header out = (name @ '': '') @ Join segs '' '' @ CRLF"
    using segs unfolding out fold_segments_def
    by (subst unfold_header_no_CR) (auto simp: unfold_header_segments)
  moreover have "no_CRLF (Join segs '' '')"
    using segs set_Join [of segs "'' ''"] by (auto simp: fold_segments_def)
  moreover have "ws_words (Join segs '' '') = ws_words value"
    using segs by (simp add: ws_words_Join fold_segments_def)
  ultimately show ?thesis by (auto simp: header_field_def)
qed

lemma SplitCRLF_no_CR: "CR \<notin> set w \<Longrightarrow> SplitCRLF w = [w]"
  by (induction w rule: SplitCRLF.induct) auto

lemma SplitCRLF_append: "CR \<notin> set w \<Longrightarrow> SplitCRLF (w @ CR # LF # t) = w # SplitCRLF t"
proof (induction w)
  case (Cons c w)
  then obtain d u where "w @ CR # LF # t = d # u" by (cases w) auto
  with Cons show ?case by auto
qed simp

lemma SplitCRLF_segments:
  assumes "segs \<noteq> []" "\<forall>s \<in> set segs. no_CRLF s" "CR \<notin> set p"
  shows "SplitCRLF (p @ Join segs FWS @ CRLF) = (p @ hd segs) # map ((#) SP) (tl segs) @ [[]]"
  using assms
proof (induction segs FWS arbitrary: p rule: Join.induct)
  case (2 w)
  then show ?case using SplitCRLF_append [of "p @ w" "[]"] by simp
next
  case (3 w v ws)
  have "SplitCRLF (p @ Join (w # v # ws) FWS @ CRLF)
    = (p @ w) # SplitCRLF ([SP] @ Join (v # ws) FWS @ CRLF)"
    using 3(3,4) SplitCRLF_append [of "p @ w" "[SP] @ Join (v # ws) FWS @ CRLF"] by simp
  also have "SplitCRLF ([SP] @ Join (v # ws) FWS @ CRLF) = (SP # v) # map ((#) SP) ws @ [[]]"
    using "3.hyps" [of "[SP]"] 3(3) by simp
  finally show ?case by simp
qed simp

lemma foldHeaderLine_line_bound:
  assumes "foldHeaderLine name value = Inr out" "value \<noteq> [] \<or> length name \<le> 996"
    and "line \<in> set (SplitCRLF out)"
  shows "length line \<le> hardHeaderLineLength"
proof -
  obtain segs where name: "isValidHeaderName name" and
    segs: "fold_segments (length name + 2) value (drop (length name + 2) out) segs" and
    out: "out = (name @ '': '') @ Join segs FWS @ CRLF"
    using foldHeaderLine_Inr [OF assms(1,2)] by auto
  have "SplitCRLF out = ((name @ '': '') @ hd segs) # map ((#) SP) (tl segs) @ [[]]"
    using segs isValidHeaderName_no_CRLF [OF name] unfolding out fold_segments_def
    by (intro SplitCRLF_segments) auto
  with assms(3) segs show ?thesis by (auto simp: fold_segments_def hardHeaderLineLength_def)
qed

section \<open>Encoded header values\<close>

lemma isPrintableASCII_bytes: "isPrintableASCII s \<Longrightarrow> c \<in> set s \<Longrightarrow> byte c = 9 \<or> (32 \<le> byte c \<and> byte c < 128)"
  by (auto simp: isPrintableASCII_def list_all_iff)

lemma ascii_words_bytes: "w \<in> set (ascii_words s) \<Longrightarrow> printable_sp w"
  by (induction s arbitrary: w rule: ascii_words.induct)
     (auto simp: ascii_words.simps(2) Let_def printable_sp_Encode encodedWordPrefix_def encodedWordSuffix_def
           split: if_splits)

lemma encodeHeaderWord_bytes:
  assumes "c \<in> set (encodeHeaderWord s)"
  shows "byte c = 9 \<or> (32 \<le> byte c \<and> byte c < 128)"
proof -
  have "printable_sp (encodeASCIIEncodedWords s)"
    using set_Join [of "ascii_words s" "'' ''"] ascii_words_bytes [of _ s]
    by (fastforce simp: encodeASCIIEncodedWords_def printable_sp_def list_all_iff)
  with assms show ?thesis
    by (auto simp: encodeHeaderWord_def printable_sp_def list_all_iff less_Suc_eq
        dest!: QEncoding_Encode_bytes isPrintableASCII_bytes split: if_splits)
qed

lemma encodeHeaderWord_no_CRLF [no_crlf]: "no_CRLF (encodeHeaderWord s)"
  using encodeHeaderWord_bytes by fastforce

locale header_writer =
  fixes put :: "bytes \<Rightarrow> bytes \<Rightarrow> goerr + bytes" and repr :: "bytes \<Rightarrow> bytes"
  assumes one_field: "put name v = Inr out \<Longrightarrow> header_field name (ws_words (repr v)) out"
    and bad_name: "\<not> isValidHeaderName name \<Longrightarrow> \<exists>e. put name v = Inl e \<and> errors_Is e ErrInvalidArgument"
    and invalid_argument: "put name v = Inl e \<Longrightarrow> errors_Is e ErrInvalidArgument"
begin

lemma written_name: "put name v = Inr out \<Longrightarrow> isValidHeaderName name"
  using bad_name [of name v] by auto

lemma written_prefix: "put name v = Inr out \<Longrightarrow> \<exists>u. unfold_header out = name @ '': '' @ u @ CRLF \<and> no_CRLF u"
  using one_field [of name v out] by (auto simp: header_field_def)

end

lemma fold_loop_Inl: "fold_loop name plen curLen i v = Inl e \<Longrightarrow> e = overlong_error name"
proof (induction v arbitrary: curLen i rule: length_induct)
  case (1 v)
  show ?case
  proof (cases "v = []")
    case False
    show ?thesis
    proof (rule fold_loop_turn [OF False])
      fix ws word rest
      assume "length rest < length v" and turn: "\<And>name plen curLen i. fold_loop name plen curLen i v =
        fold_turn name plen curLen i ws word (\<lambda>cur. fold_loop name plen cur (i + length ws + length word) rest)"
      then have IH: "fold_loop name plen cur j rest = Inl e \<Longrightarrow> e = overlong_error name" for cur j
        using "1.IH" by blast
      from "1.prems" show ?thesis
        unfolding turn fold_turn_def Let_def by (auto simp: emit_eq_Inl split: if_splits elim: IH)
    qed
  qed (use 1 in simp)
qed

lemma foldHeaderLine_Inl: "foldHeaderLine name v = Inl e \<Longrightarrow> errors_Is e ErrInvalidArgument"
  by (auto simp: foldHeaderLine_def Let_def emit_eq_Inl overlong_error_def dest!: fold_loop_Inl split: if_splits)

interpretation folded: header_writer foldHeaderLine "\<lambda>v. v"
  by unfold_locales (auto simp: foldHeaderLine_field foldHeaderLine_Inl foldHeaderLine_def)

interpretation raw: header_writer writeRawHeader encodeHeaderWord
  by unfold_locales (auto simp: writeRawHeader_def foldHeaderLine_field foldHeaderLine_Inl foldHeaderLine_def)

section \<open>base64 bodies\<close>

lemma base64_lines_filter:
  "filter (\<lambda>c. c \<noteq> CR \<and> c \<noteq> LF) (base64_lines s) = filter (\<lambda>c. c \<noteq> CR \<and> c \<noteq> LF) s"
proof (induction s rule: base64_lines.induct)
  case (2 c s)
  let ?n = "if maxBase64LineLength > length (c # s) then length (c # s) else maxBase64LineLength"
  have "filter P (take n xs) @ filter P (drop n xs) = filter P xs" for P n and xs :: bytes
    by (metis append_take_drop_id filter_append)
  with 2 [OF refl] show ?case by (simp only: base64_lines.simps(2) Let_def filter_append) simp
qed simp

lemma DecodeString_writeBase64: "DecodeString (writeBase64 data) = Some data"
  using DecodeString_Encode [of data] by (simp add: DecodeString_def writeBase64_def base64_lines_filter)

interpretation b64_body: codec writeBase64 DecodeString
  by unfold_locales (rule DecodeString_writeBase64)

lemma base64_lines_bound:
  assumes "CR \<notin> set s" "line \<in> set (SplitCRLF (base64_lines s))"
  shows "length line \<le> maxBase64LineLength"
  using assms
proof (induction s rule: base64_lines.induct)
  case (2 c s)
  let ?n = "if maxBase64LineLength > length (c # s) then length (c # s) else maxBase64LineLength"
  have "CR \<notin> set (take ?n (c # s))" using 2(2) by (meson in_set_takeD)
  then have "SplitCRLF (base64_lines (c # s)) = take ?n (c # s) # SplitCRLF (base64_lines (drop ?n (c # s)))"
    using SplitCRLF_append by (simp only: base64_lines.simps(2) Let_def append_Cons append_Nil)
  moreover have "CR \<notin> set (drop ?n (c # s))" using 2(2) by (meson in_set_dropD)
  ultimately show ?case using 2(1) [OF refl] 2(3) by (auto split: if_splits)
qed simp

lemma writeBase64_line_bound:
  "line \<in> set (SplitCRLF (writeBase64 data)) \<Longrightarrow> length line \<le> maxBase64LineLength"
  unfolding writeBase64_def by (rule base64_lines_bound) (auto dest: EncodeToString_plain)

section \<open>RFC 2231 parameters\<close>

definition hex_val :: "char \<Rightarrow> nat option" where
  "hex_val c =
    (let b = byte c in
     if 48 \<le> b \<and> b \<le> 57 then Some (b - 48)
     else if 65 \<le> b \<and> b \<le> 70 then Some (b - 55) else None)"

fun pct_decode :: "bytes \<Rightarrow> bytes option" where
  "pct_decode [] = Some []"
| "pct_decode (c # s) =
    (if c = CHR 0x25 then
       (case s of
          h # l # t \<Rightarrow>
            (case (hex_val h, hex_val l) of
               (Some x, Some y) \<Rightarrow> map_option ((#) (char_of (x * 16 + y))) (pct_decode t)
             | _ \<Rightarrow> None)
        | _ \<Rightarrow> None)
     else map_option ((#) c) (pct_decode s))"

lemma hex_table: "list_all (\<lambda>n. hex_val (upperhex n) = Some n) [0..<16]"
  by code_simp

lemma hex_val_upperhex: "n < 16 \<Longrightarrow> hex_val (upperhex n) = Some n"
  using hex_table by (auto simp: list_all_iff)

lemma pct_decode_escape: "pct_decode (hex_escape (CHR 0x25) c @ s) = map_option ((#) c) (pct_decode s)"
  by (simp add: hex_escape_def hex_val_upperhex nibbles)

lemma pct_decode_percentEncode_append:
  "pct_decode (percentEncodeRFC2231 v @ s) = map_option ((@) v) (pct_decode s)"
proof (induction v)
  case (Cons c v)
  have "isRFC2231AttrChar c \<Longrightarrow> c \<noteq> CHR 0x25"
    by (auto simp: isRFC2231AttrChar_def rfc2231_special_def is_alnum_def is_letter_def is_digit_def)
  with Cons show ?case
    by (auto simp: percentEncodeRFC2231_def pct_decode_escape option.map_comp comp_def simp del: pct_decode.simps(2))
       (simp add: option.map_comp comp_def)
qed (simp add: percentEncodeRFC2231_def option.map_ident)

lemma pct_decode_percentEncode: "pct_decode (percentEncodeRFC2231 v) = Some v"
  using pct_decode_percentEncode_append [of v "[]"] by simp

interpretation pct: codec percentEncodeRFC2231 pct_decode
  by unfold_locales (rule pct_decode_percentEncode)

lemma rfc2231_chunks_concat: "concat (rfc2231ContinuationChunks v) = percentEncodeRFC2231 v"
proof (induction v rule: rfc2231ContinuationChunks.induct)
  case (2 c v)
  let ?n = "chunk_len (c # v)"
  have "percentEncodeRFC2231 (take ?n (c # v)) @ percentEncodeRFC2231 (drop ?n (c # v)) = percentEncodeRFC2231 (c # v)"
    unfolding percentEncodeRFC2231_def by (metis append_take_drop_id concat_append map_append)
  with 2 show ?case by (simp only: rfc2231ContinuationChunks.simps(2) concat.simps)
qed (simp add: percentEncodeRFC2231_def)

lemma length_percentEncode: "length (percentEncodeRFC2231 v) \<le> 3 * length v"
  by (induction v) (auto simp: percentEncodeRFC2231_def hex_escape_def)

lemma percentEncode_Nil: "percentEncodeRFC2231 v = [] \<longleftrightarrow> v = []"
  by (cases v) (auto simp: percentEncodeRFC2231_def hex_escape_def)

lemma rfc2231_chunk_bound:
  "ch \<in> set (rfc2231ContinuationChunks v) \<Longrightarrow> ch \<noteq> [] \<and> length ch \<le> 90"
proof (induction v rule: rfc2231ContinuationChunks.induct)
  case (2 c v)
  let ?t = "take (chunk_len (c # v)) (c # v)"
  have "?t \<noteq> []" using chunk_len_pos [of "c # v"] by simp
  then have "percentEncodeRFC2231 ?t \<noteq> []"
    by (simp add: percentEncode_Nil)
  moreover have "length (percentEncodeRFC2231 ?t) \<le> 90"
    using length_percentEncode [of ?t] chunk_len_le_30 [of "c # v"] unfolding length_take by linarith
  ultimately show ?case using 2 by (auto simp only: rfc2231ContinuationChunks.simps(2) set_simps)
qed simp

section \<open>Long ASCII values as encoded words\<close>

definition word_decode :: "bytes \<Rightarrow> bytes option" where
  "word_decode w =
    (if HasPrefix w encodedWordPrefix \<and> HasSuffix w encodedWordSuffix
     then DecodeString (take (length w - 12) (drop 10 w)) else None)"

lemma word_decode_encode: "word_decode (encodedWordPrefix @ EncodeToString s @ encodedWordSuffix) = Some s"
proof -
  let ?w = "encodedWordPrefix @ EncodeToString s @ encodedWordSuffix"
  have "HasPrefix ?w encodedWordPrefix" by (simp add: HasPrefix_iff)
  moreover have "HasSuffix ?w encodedWordSuffix" unfolding HasSuffix_iff by (metis append_assoc)
  moreover have "take (length ?w - 12) (drop 10 ?w) = EncodeToString s"
    by (simp add: encodedWordPrefix_def encodedWordSuffix_def)
  ultimately show ?thesis by (simp add: word_decode_def DecodeString_Encode)
qed

lemma ascii_words_decode: "concat (map (the \<circ> word_decode) (ascii_words s)) = s"
proof (induction s rule: ascii_words.induct)
  case (2 c s)
  then show ?case
    by (simp only: ascii_words.simps(2) Let_def list.map concat.simps comp_apply word_decode_encode
        option.sel append_take_drop_id)
qed simp

lemma ascii_word_bound: "w \<in> set (ascii_words s) \<Longrightarrow> length w \<le> 75 \<and> word_decode w \<noteq> None"
proof (induction s rule: ascii_words.induct)
  case (2 c s)
  let ?n = "if rawChunkLen > length (c # s) then length (c # s) else rawChunkLen"
  let ?w = "encodedWordPrefix @ EncodeToString (take ?n (c # s)) @ encodedWordSuffix"
  have "length (EncodeToString (take ?n (c # s))) \<le> 60"
    by (simp add: length_EncodeToString) linarith
  then have "length ?w \<le> 75" by (simp add: encodedWordPrefix_def encodedWordSuffix_def)
  with 2 show ?case
    by (simp only: ascii_words.simps(2) Let_def set_simps insert_iff) (auto simp: word_decode_encode)
qed simp

section \<open>quoted-printable bodies\<close>

definition qp_text :: "bytes \<Rightarrow> bool" where
  "qp_text s \<longleftrightarrow> list_all (\<lambda>c. byte c = 9 \<or> (32 \<le> byte c \<and> byte c < 127)) s"

definition qp_ok :: "qp \<Rightarrow> bool" where
  "qp_ok w \<longleftrightarrow>
     length (qp_line w) \<le> 75 \<and> qp_text (qp_line w)
     \<and> (\<exists>ls. qp_out w = concat (map (\<lambda>l. l @ CRLF) ls) \<and> (\<forall>l \<in> set ls. length l \<le> 76 \<and> qp_text l))"

lemma qp_text_simps [simp]:
  "qp_text []" "qp_text (s @ t) \<longleftrightarrow> qp_text s \<and> qp_text t"
  "qp_text (c # s) \<longleftrightarrow> (byte c = 9 \<or> (32 \<le> byte c \<and> byte c < 127)) \<and> qp_text s"
  by (auto simp: qp_text_def)

lemma qp_text_hex: "qp_text (hex_escape (CHR ''='') c)"
  using printable_sp_hex_escape [of "CHR ''=''" c] by (auto simp: qp_text_def printable_sp_def list_all_iff)

lemma qp_text_butlast: "qp_text s \<Longrightarrow> qp_text (butlast s)"
  by (auto simp: qp_text_def list_all_iff dest: in_set_butlastD)

lemma qp_flush_line:
  assumes "qp_ok w" "length l \<le> 76" "qp_text l"
  shows "qp_ok (w\<lparr>qp_out := qp_out w @ l @ CRLF, qp_line := []\<rparr>)"
proof -
  obtain ls where "qp_out w = concat (map (\<lambda>l. l @ CRLF) ls)" "\<forall>l \<in> set ls. length l \<le> 76 \<and> qp_text l"
    using assms(1) by (auto simp: qp_ok_def)
  with assms(2,3) show ?thesis by (auto simp: qp_ok_def intro!: exI [of _ "ls @ [l]"])
qed

lemma qp_ok_insertCRLF: "qp_ok w \<Longrightarrow> qp_ok (qp_insertCRLF w)"
  unfolding qp_insertCRLF_def by (rule qp_flush_line) (auto simp: qp_ok_def)

lemma qp_ok_soft: "qp_ok w \<Longrightarrow> qp_ok (qp_insertSoftLineBreak w)"
  using qp_flush_line [of w "qp_line w @ ''=''"]
  by (simp add: qp_insertSoftLineBreak_def qp_insertCRLF_def qp_ok_def)

lemma qp_ok_set_line: "qp_ok w \<Longrightarrow> length l \<le> 75 \<Longrightarrow> qp_text l \<Longrightarrow> qp_ok (w\<lparr>qp_line := l\<rparr>)"
  by (simp add: qp_ok_def)

lemma qp_soft_line [simp]: "qp_line (qp_insertSoftLineBreak w) = []"
  by (simp add: qp_insertSoftLineBreak_def qp_insertCRLF_def)

lemma qp_ok_encode: "qp_ok w \<Longrightarrow> qp_ok (qp_encode b w)"
proof -
  assume ok: "qp_ok w"
  let ?w = "if qp_lineMaxLen - 1 - length (qp_line w) < 3 then qp_insertSoftLineBreak w else w"
  have w: "qp_ok ?w" using ok qp_ok_soft by simp
  then have qt: "qp_text (qp_line ?w)" by (simp add: qp_ok_def)
  have len: "length (qp_line ?w) \<le> 72" by (auto simp: qp_lineMaxLen_def)
  have "length (hex_escape (CHR ''='') b) = 3" by (simp add: hex_escape_def)
  with qt len have "qp_ok (?w\<lparr>qp_line := qp_line ?w @ hex_escape (CHR ''='') b\<rparr>)"
    by (intro qp_ok_set_line [OF w]) (simp_all only: length_append qp_text_simps qp_text_hex)
  then show ?thesis unfolding qp_encode_def Let_def .
qed

lemma qp_ok_checkLastByte: "qp_ok w \<Longrightarrow> qp_ok (qp_checkLastByte w)"
  by (auto simp: qp_checkLastByte_def Let_def intro!: qp_ok_encode qp_ok_set_line)
     (auto simp: qp_ok_def qp_text_butlast)

lemma qp_ok_cr: "qp_ok (w\<lparr>qp_cr := x\<rparr>) = qp_ok w"
  by (simp add: qp_ok_def)

lemma qp_ok_write_byte:
  assumes "qp_ok w" "(32 \<le> byte b \<and> byte b < 127) \<or> b = TAB \<or> b = LF \<or> b = CR"
  shows "qp_ok (qp_write_byte b w)"
proof (cases "b = LF \<or> b = CR")
  case True
  with assms(1) show ?thesis
    by (auto simp: qp_write_byte_def Let_def qp_ok_cr intro!: qp_ok_insertCRLF qp_ok_checkLastByte)
next
  case False
  let ?w = "if length (qp_line w) = qp_lineMaxLen - 1 then qp_insertSoftLineBreak w else w"
  have w: "qp_ok ?w" using assms(1) qp_ok_soft by simp
  have len: "length (qp_line ?w) \<le> 74" using assms(1) by (auto simp: qp_lineMaxLen_def qp_ok_def)
  have "qp_write_byte b w = ?w\<lparr>qp_line := qp_line ?w @ [b], qp_cr := False\<rparr>"
    unfolding qp_write_byte_def Let_def using False by simp
  moreover have "qp_ok (?w\<lparr>qp_line := qp_line ?w @ [b]\<rparr>)"
    using w len assms(2) False by (intro qp_ok_set_line) (auto simp: qp_ok_def)
  ultimately show ?thesis by (simp add: qp_ok_cr)
qed

lemma qp_ok_Write_byte: "qp_ok w \<Longrightarrow> qp_ok (qp_Write_byte w b)"
  unfolding qp_Write_byte_def by (auto intro!: qp_ok_write_byte qp_ok_encode)

lemma qp_ok_Write: "qp_ok w \<Longrightarrow> qp_ok (qp_Write p w)"
  unfolding qp_Write_def by (induction p arbitrary: w) (auto intro: qp_ok_Write_byte)

lemma qp_lines_split:
  assumes "\<forall>l \<in> set ls. qp_text l" "qp_text u"
  shows "SplitCRLF (concat (map (\<lambda>l. l @ CRLF) ls) @ u) = ls @ [u]"
proof -
  have no: "qp_text l \<Longrightarrow> CR \<notin> set l" for l by (auto simp: qp_text_def list_all_iff)
  from assms show ?thesis
  proof (induction ls)
    case (Cons l ls)
    then show ?case using SplitCRLF_append [OF no, of l "concat (map (\<lambda>l. l @ CRLF) ls) @ u"] by simp
  qed (simp add: SplitCRLF_no_CR no)
qed

lemma writeQuotedPrintable_lines:
  "line \<in> set (SplitCRLF (writeQuotedPrintable data)) \<Longrightarrow> length line \<le> 76 \<and> qp_text line"
proof -
  assume line: "line \<in> set (SplitCRLF (writeQuotedPrintable data))"
  let ?w = "qp_checkLastByte (qp_Write data qp_new)"
  have "qp_ok qp_new" by (auto simp: qp_ok_def qp_new_def intro!: exI [of _ "[]"])
  then have ok: "qp_ok ?w" by (intro qp_ok_checkLastByte qp_ok_Write)
  then obtain ls where ls: "qp_out ?w = concat (map (\<lambda>l. l @ CRLF) ls)"
    "\<forall>l \<in> set ls. length l \<le> 76 \<and> qp_text l" by (auto simp: qp_ok_def)
  have "SplitCRLF (writeQuotedPrintable data) = ls @ [qp_line ?w]"
    using qp_lines_split [of ls "qp_line ?w"] ls ok
    by (simp add: writeQuotedPrintable_def qp_Close_def Let_def qp_ok_def)
  with line ls(2) ok show ?thesis by (auto simp: qp_ok_def)
qed

section \<open>An equals sign is never followed by an underscore\<close>

fun eq_us_free :: "bytes \<Rightarrow> bool" where
  "eq_us_free (c # d # s) \<longleftrightarrow> \<not> (c = CHR ''='' \<and> d = CHR ''_'') \<and> eq_us_free (d # s)"
| "eq_us_free _ \<longleftrightarrow> True"

lemma eq_us_free_append:
  "eq_us_free (s @ t) \<longleftrightarrow> eq_us_free s \<and> eq_us_free t
     \<and> \<not> (s \<noteq> [] \<and> t \<noteq> [] \<and> last s = CHR ''='' \<and> hd t = CHR ''_'')"
  by (induction s rule: eq_us_free.induct; cases t) auto

lemma eq_us_free_butlast: "eq_us_free s \<Longrightarrow> eq_us_free (butlast s)"
  by (cases s rule: rev_cases) (auto simp: eq_us_free_append)

lemma upperhex_not_special: "n < 16 \<Longrightarrow> upperhex n \<noteq> CHR ''_'' \<and> upperhex n \<noteq> CHR ''=''"
  using hex_val_upperhex [of n] by (auto simp: hex_val_def split: if_splits)

lemma eq_us_free_escape:
  "eq_us_free (hex_escape (CHR ''='') b) \<and> last (hex_escape (CHR ''='') b) \<noteq> CHR ''=''"
proof -
  have "byte b div 16 < 16" using byte_less_256 [of b] by linarith
  then show ?thesis
    using upperhex_not_special [of "byte b div 16"] upperhex_not_special [of "byte b mod 16"]
    by (auto simp: hex_escape_def)
qed

definition qp_eq :: "qp \<Rightarrow> bool" where
  "qp_eq w \<longleftrightarrow> eq_us_free (qp_out w) \<and> (qp_out w = [] \<or> last (qp_out w) = LF)
     \<and> eq_us_free (qp_line w) \<and> (qp_line w = [] \<or> last (qp_line w) \<noteq> CHR ''='')"

lemma qp_eq_insertCRLF: "eq_us_free l \<Longrightarrow> qp_eq w \<Longrightarrow> qp_eq (qp_insertCRLF (w\<lparr>qp_line := l\<rparr>))"
  by (auto simp: qp_eq_def qp_insertCRLF_def eq_us_free_append)

lemma qp_eq_soft: "qp_eq w \<Longrightarrow> qp_eq (qp_insertSoftLineBreak w)"
  unfolding qp_insertSoftLineBreak_def
  by (rule qp_eq_insertCRLF) (auto simp: qp_eq_def eq_us_free_append)

lemma qp_eq_encode_line:
  assumes "qp_eq w" "eq_us_free l"
  shows "qp_eq (qp_encode b (w\<lparr>qp_line := l\<rparr>))"
proof -
  have "hex_escape (CHR ''='') b \<noteq> [] \<and> hd (hex_escape (CHR ''='') b) \<noteq> CHR ''_''"
    by (simp add: hex_escape_def)
  with assms eq_us_free_escape [of b] show ?thesis
    by (auto simp: qp_encode_def Let_def qp_eq_def qp_insertSoftLineBreak_def qp_insertCRLF_def
          eq_us_free_append)
qed

lemma qp_eq_checkLastByte: "qp_eq w \<Longrightarrow> qp_eq (qp_checkLastByte w)"
  by (auto simp: qp_checkLastByte_def Let_def qp_eq_def eq_us_free_butlast
      intro!: qp_eq_encode_line [unfolded qp_eq_def])

lemma qp_eq_cr: "qp_eq (w\<lparr>qp_cr := x\<rparr>) = qp_eq w"
  by (simp add: qp_eq_def)

lemma qp_eq_write_byte:
  assumes "qp_eq w" "b \<noteq> CHR ''=''"
  shows "qp_eq (qp_write_byte b w)"
proof (cases "b = LF \<or> b = CR")
  case True
  have "qp_eq (qp_insertCRLF (qp_checkLastByte w))"
    using qp_eq_insertCRLF [of "qp_line (qp_checkLastByte w)" "qp_checkLastByte w"]
      qp_eq_checkLastByte [OF assms(1)] by (simp add: qp_eq_def)
  with True assms(1) show ?thesis by (auto simp: qp_write_byte_def Let_def qp_eq_cr)
next
  case False
  let ?w = "if length (qp_line w) = qp_lineMaxLen - 1 then qp_insertSoftLineBreak w else w"
  have w: "qp_eq ?w" using assms(1) qp_eq_soft by simp
  have "qp_write_byte b w = ?w\<lparr>qp_line := qp_line ?w @ [b], qp_cr := False\<rparr>"
    unfolding qp_write_byte_def Let_def using False by simp
  with w assms(2) show ?thesis by (auto simp: qp_eq_def eq_us_free_append)
qed

lemma qp_eq_Write_byte: "qp_eq w \<Longrightarrow> qp_eq (qp_Write_byte w b)"
  using qp_eq_write_byte [of w b] qp_eq_encode_line [of w "qp_line w" b]
  by (auto simp: qp_Write_byte_def qp_eq_def)

lemma qp_eq_Write: "qp_eq w \<Longrightarrow> qp_eq (qp_Write p w)"
  unfolding qp_Write_def by (induction p arbitrary: w) (auto intro: qp_eq_Write_byte)

lemma writeQuotedPrintable_eq_us: "eq_us_free (writeQuotedPrintable data)"
proof -
  have "qp_eq (qp_checkLastByte (qp_Write data qp_new))"
    by (intro qp_eq_checkLastByte qp_eq_Write) (simp add: qp_eq_def qp_new_def)
  then show ?thesis
    by (auto simp: writeQuotedPrintable_def qp_Close_def Let_def qp_eq_def eq_us_free_append)
qed

lemma SplitCRLF_infix: "line \<in> set (SplitCRLF s) \<Longrightarrow> \<exists>a b. s = a @ line @ b"
proof (induction s arbitrary: line rule: SplitCRLF.induct)
  case (3 c d s)
  show ?case
  proof (cases "c = CR \<and> d = LF")
    case True
    with "3.prems" consider "line = []" | "line \<in> set (SplitCRLF s)" by auto
    then show ?thesis
    proof cases
      case 2
      with 3(1) True obtain a b where "s = a @ line @ b" by blast
      with True show ?thesis by (intro exI [of _ "c # d # a"] exI [of _ b]) simp
    qed auto
  next
    case False
    obtain w ws where ws: "SplitCRLF (d # s) = w # ws" by (cases "SplitCRLF (d # s)") auto
    with False "3.prems" consider "line = c # w" | "line \<in> set ws" by auto
    then show ?thesis
    proof cases
      case 1
      have "Join (w # ws) CRLF = d # s" using Join_SplitCRLF [of "d # s"] ws by simp
      moreover obtain r where "Join (w # ws) CRLF = w @ r" by (cases ws) auto
      ultimately show ?thesis using 1 by (intro exI [of _ "[]"] exI [of _ r]) simp
    next
      case 2
      with 3(2) False ws obtain a b where "d # s = a @ line @ b" by force
      then show ?thesis by (intro exI [of _ "c # a"] exI [of _ b]) simp
    qed
  qed
qed auto

lemma writeQuotedPrintable_line_eq_us:
  "line \<in> set (SplitCRLF (writeQuotedPrintable data)) \<Longrightarrow> eq_us_free line"
  using SplitCRLF_infix writeQuotedPrintable_eq_us [of data] by (fastforce simp: eq_us_free_append)

end
