(* ===== verification/Message.thy ===== *)
theory Message
  imports Mime_Props
begin

text \<open>
  The high-level message (\<^verbatim>\<open>message.go\<close>): its record, the builder setters, custom headers,
  the lazily sealed Message-ID and Date, validation, and the serialization to an RFC 5322
  document. Randomness is a stream of draws with the number of draws made so far, the clock
  is an argument; a writer maps that number to its output and the new number. A Go map is
  an association list with distinct keys.
\<close>

section \<open>Time\<close>

text \<open>
  A \<^verbatim>\<open>time.Time\<close>: nanoseconds since January 1, year 1 UTC, with the zone offset in seconds
  east of UTC. The zero value is that instant.
\<close>

record gotime =
  t_nanos :: int
  t_offset :: int

definition IsZero :: "gotime \<Rightarrow> bool" where
  "IsZero t \<longleftrightarrow> t_nanos t = 0"

definition zero_time :: gotime where
  "zero_time = \<lparr>t_nanos = 0, t_offset = 0\<rparr>"

text \<open>Year, month and day of a day number counted from January 1 of year 1 (Gregorian).\<close>

definition civil :: "int \<Rightarrow> int \<times> nat \<times> nat" where
  "civil days =
    (let z = days + 306; era = z div 146097; doe = z mod 146097;
         yoe = (doe - doe div 1460 + doe div 36524 - doe div 146096) div 365;
         doy = doe - (365 * yoe + yoe div 4 - yoe div 100);
         mp = (5 * doy + 2) div 153;
         d = doy - (153 * mp + 2) div 5 + 1;
         m = (if mp < 10 then mp + 3 else mp - 9);
         y = yoe + era * 400 + (if m \<le> 2 then 1 else 0)
     in (y, nat m, nat d))"

definition pad2 :: "int \<Rightarrow> bytes" where
  "pad2 n = (if n < 10 then ''0'' @ Itoa n else Itoa n)"

definition pad4 :: "int \<Rightarrow> bytes" where
  "pad4 n = (let s = Itoa (if n < 0 then - n else n)
     in (if n < 0 then ''-'' else []) @ replicate (4 - length s) (CHR ''0'') @ s)"

definition day_names :: "bytes list" where
  "day_names = [''Mon'', ''Tue'', ''Wed'', ''Thu'', ''Fri'', ''Sat'', ''Sun'']"

definition month_names :: "bytes list" where
  "month_names = [''Jan'', ''Feb'', ''Mar'', ''Apr'', ''May'', ''Jun'', ''Jul'', ''Aug'', ''Sep'', ''Oct'', ''Nov'', ''Dec'']"

definition format_zone :: "int \<Rightarrow> bytes" where
  "format_zone off =
    (let z = (if off < 0 then - ((- off) div 60) else off div 60); a = (if z < 0 then - z else z)
     in (if z < 0 then ''-'' else ''+'') @ pad2 (a div 60) @ pad2 (a mod 60))"

text \<open>\<^verbatim>\<open>t.Format(time.RFC1123Z)\<close>; January 1 of year 1 is a Monday.\<close>

definition formatDate :: "gotime \<Rightarrow> bytes" where
  "formatDate t =
    (let secs = t_nanos t div 1000000000 + t_offset t;
         days = secs div 86400; sod = secs mod 86400
     in case civil days of (y, m, d) \<Rightarrow>
       day_names ! nat (days mod 7) @ '', '' @ pad2 (int d) @ '' '' @ month_names ! (m - 1) @ '' ''
         @ pad4 y @ '' '' @ pad2 (sod div 3600) @ '':'' @ pad2 (sod mod 3600 div 60) @ '':''
         @ pad2 (sod mod 60) @ '' '' @ format_zone (t_offset t))"

section \<open>Data\<close>

record attachment =
  att_Filename :: bytes
  att_ContentType :: bytes
  att_Data :: bytes
  att_Inline :: bool
  att_ContentID :: bytes

record header =
  hdr_Name :: bytes
  hdr_Value :: bytes

record message =
  msg_from :: "address list"
  msg_replyTo :: "address list"
  msg_to :: "address list"
  msg_cc :: "address list"
  msg_bcc :: "address list"
  msg_subject :: bytes
  msg_date :: gotime
  msg_textBody :: bytes
  msg_htmlBody :: bytes
  msg_attachments :: "attachment list"
  msg_headers :: "header list"
  msg_messageID :: bytes
  msg_sealedDate :: gotime
  msg_sealedMsgID :: bytes
  msg_sealed :: bool

definition NewMessage :: message where
  "NewMessage =
    \<lparr>msg_from = [], msg_replyTo = [], msg_to = [], msg_cc = [], msg_bcc = [], msg_subject = [],
     msg_date = zero_time, msg_textBody = [], msg_htmlBody = [], msg_attachments = [],
     msg_headers = [], msg_messageID = [], msg_sealedDate = zero_time, msg_sealedMsgID = [],
     msg_sealed = False\<rparr>"

section \<open>Builder\<close>

definition SetFrom :: "message \<Rightarrow> address list \<Rightarrow> message" where
  "SetFrom m addrs = m\<lparr>msg_from := addrs\<rparr>"

definition SetTo :: "message \<Rightarrow> address list \<Rightarrow> message" where
  "SetTo m addrs = m\<lparr>msg_to := addrs\<rparr>"

definition SetCc :: "message \<Rightarrow> address list \<Rightarrow> message" where
  "SetCc m addrs = m\<lparr>msg_cc := addrs\<rparr>"

definition SetBcc :: "message \<Rightarrow> address list \<Rightarrow> message" where
  "SetBcc m addrs = m\<lparr>msg_bcc := addrs\<rparr>"

definition SetReplyTo :: "message \<Rightarrow> address list \<Rightarrow> message" where
  "SetReplyTo m addrs = m\<lparr>msg_replyTo := addrs\<rparr>"

definition SetSubject :: "message \<Rightarrow> bytes \<Rightarrow> message" where
  "SetSubject m s = m\<lparr>msg_subject := s\<rparr>"

definition SetDate :: "message \<Rightarrow> gotime \<Rightarrow> message" where
  "SetDate m t = m\<lparr>msg_date := t\<rparr>"

definition SetText :: "message \<Rightarrow> bytes \<Rightarrow> message" where
  "SetText m body = m\<lparr>msg_textBody := body\<rparr>"

definition SetHTML :: "message \<Rightarrow> bytes \<Rightarrow> message" where
  "SetHTML m body = m\<lparr>msg_htmlBody := body\<rparr>"

definition Attach :: "draw \<Rightarrow> message \<Rightarrow> attachment \<Rightarrow> message" where
  "Attach d m a =
    (let a = (if att_Inline a \<and> att_ContentID a = [] then a\<lparr>att_ContentID := generateID d @ ''@gomailer''\<rparr> else a)
     in m\<lparr>msg_attachments := msg_attachments m @ [a]\<rparr>)"

text \<open>\<^verbatim>\<open>Clone\<close> builds a new message field by field; slices are copied.\<close>

definition Message_Clone :: "message \<Rightarrow> message" where
  "Message_Clone m =
    \<lparr>msg_from = msg_from m, msg_replyTo = msg_replyTo m, msg_to = msg_to m, msg_cc = msg_cc m,
     msg_bcc = msg_bcc m, msg_subject = msg_subject m, msg_date = msg_date m,
     msg_textBody = msg_textBody m, msg_htmlBody = msg_htmlBody m,
     msg_attachments = map (\<lambda>a. a\<lparr>att_Data := att_Data a\<rparr>) (msg_attachments m),
     msg_headers = msg_headers m, msg_messageID = msg_messageID m, msg_sealedDate = msg_sealedDate m,
     msg_sealedMsgID = msg_sealedMsgID m, msg_sealed = msg_sealed m\<rparr>"

lemma Message_Clone_id [simp]: "Message_Clone m = m"
  by (simp add: Message_Clone_def)

section \<open>Custom headers\<close>

fun set_header :: "header list \<Rightarrow> bytes \<Rightarrow> bytes \<Rightarrow> header list" where
  "set_header [] name val = [\<lparr>hdr_Name = name, hdr_Value = val\<rparr>]"
| "set_header (h # hs) name val =
    (if canonicalHeaderName (hdr_Name h) = canonicalHeaderName name then h\<lparr>hdr_Value := val\<rparr> # hs
     else h # set_header hs name val)"

definition SetHeader :: "message \<Rightarrow> bytes \<Rightarrow> bytes \<Rightarrow> message" where
  "SetHeader m name val =
    (if \<not> isValidHeaderName name \<or> hasCRLF val then m
     else m\<lparr>msg_headers := set_header (msg_headers m) name val\<rparr>)"

fun find_header :: "header list \<Rightarrow> bytes \<Rightarrow> bytes option" where
  "find_header [] name = None"
| "find_header (h # hs) name =
    (if canonicalHeaderName (hdr_Name h) = canonicalHeaderName name then Some (hdr_Value h)
     else find_header hs name)"

text \<open>\<^verbatim>\<open>Header\<close>: the value and whether it was set; \<open>None\<close> when it was not.\<close>

definition Header :: "message \<Rightarrow> bytes \<Rightarrow> bytes option" where
  "Header m name = find_header (msg_headers m) name"

definition RemoveHeader :: "message \<Rightarrow> bytes \<Rightarrow> message" where
  "RemoveHeader m name =
    m\<lparr>msg_headers := filter (\<lambda>h. canonicalHeaderName (hdr_Name h) \<noteq> canonicalHeaderName name) (msg_headers m)\<rparr>"

definition From :: "message \<Rightarrow> address list" where
  "From m = msg_from m"

definition Message_Recipients :: "message \<Rightarrow> address list" where
  "Message_Recipients m = msg_to m @ msg_cc m @ msg_bcc m"

section \<open>Sender and sealing\<close>

text \<open>\<^verbatim>\<open>senderFromMessageHeaders\<close> of \<^verbatim>\<open>envelope.go\<close>.\<close>

fun sender_from :: "netlib \<Rightarrow> message \<Rightarrow> bytes list \<Rightarrow> address option" where
  "sender_from L m [] = (case From m of [] \<Rightarrow> None | a # _ \<Rightarrow> Some a)"
| "sender_from L m (hname # hds) =
    (case Header m hname of
       Some v \<Rightarrow>
         if TrimSpace v \<noteq> [] then
           (case ParseAddress L v of Inr a \<Rightarrow> Some a | Inl _ \<Rightarrow> sender_from L m hds)
         else sender_from L m hds
     | None \<Rightarrow> sender_from L m hds)"

definition senderFromMessageHeaders :: "netlib \<Rightarrow> message \<Rightarrow> address option" where
  "senderFromMessageHeaders L m = sender_from L m [''Sender'', ''Return-Path'']"

definition senderDomain :: "netlib \<Rightarrow> message \<Rightarrow> bytes" where
  "senderDomain L m =
    (let email = (case senderFromMessageHeaders L m of
                    Some a \<Rightarrow> Email a
                  | None \<Rightarrow> (case msg_from m of a # _ \<Rightarrow> Email a | [] \<Rightarrow> []))
     in case LastIndexByte email (CHR ''@'') of
          None \<Rightarrow> []
        | Some i \<Rightarrow>
            let domain = drop (i + 1) email in
            (case idna_ToASCII L domain of Inr ascii \<Rightarrow> ascii | Inl _ \<Rightarrow> domain))"

definition seal :: "netlib \<Rightarrow> (nat \<Rightarrow> draw) \<Rightarrow> gotime \<Rightarrow> message \<Rightarrow> nat \<Rightarrow> message \<times> nat" where
  "seal L R now m n =
    (if msg_sealed m then (m, n)
     else
       (let (mid, n') = (if msg_messageID m \<noteq> [] then (msg_messageID m, n)
                         else (generateMessageID (R n) (senderDomain L m), Suc n));
            date = (if \<not> IsZero (msg_date m) then msg_date m else now)
        in (m\<lparr>msg_sealedMsgID := mid, msg_sealedDate := date, msg_sealed := True\<rparr>, n')))"

text \<open>\<^verbatim>\<open>MessageID()\<close>: the identifier, the sealed message and the number of draws.\<close>

definition MessageID :: "netlib \<Rightarrow> (nat \<Rightarrow> draw) \<Rightarrow> gotime \<Rightarrow> message \<Rightarrow> nat \<Rightarrow> bytes \<times> message \<times> nat" where
  "MessageID L R now m n = (case seal L R now m n of (m', n') \<Rightarrow> (msg_sealedMsgID m', m', n'))"

section \<open>Validation\<close>

fun ensureValidAddressList :: "bytes \<Rightarrow> address list \<Rightarrow> goerr option" where
  "ensureValidAddressList hname [] = None"
| "ensureValidAddressList hname (a # as) =
    (if \<not> valid a then
       Some (Errorf ''%w: invalid %s address %q''
              [OErr (Sentinel ErrInvalidArgument), OStr hname, OStr (Email a)])
     else ensureValidAddressList hname as)"

text \<open>The first error of a list of checks, in order.\<close>

definition EnsureValidity :: "message \<Rightarrow> goerr option" where
  "EnsureValidity m =
    (if msg_to m = [] \<and> msg_cc m = [] \<and> msg_bcc m = [] then
       Some (Errorf ''%w: an email must have a To, Cc, or Bcc header'' [OErr (Sentinel ErrLogic)])
     else if msg_from m = [] then
       Some (Errorf ''%w: an email must have a From header'' [OErr (Sentinel ErrLogic)])
     else first_Some
       [ensureValidAddressList ''From'' (msg_from m), ensureValidAddressList ''Reply-To'' (msg_replyTo m),
        ensureValidAddressList ''To'' (msg_to m), ensureValidAddressList ''Cc'' (msg_cc m),
        ensureValidAddressList ''Bcc'' (msg_bcc m)])"

section \<open>Writers\<close>

type_synonym writer = "nat \<Rightarrow> (goerr + bytes) \<times> nat"

definition wlit :: "bytes \<Rightarrow> writer" where
  "wlit s n = (Inr s, n)"

definition wlift :: "goerr + bytes \<Rightarrow> writer" where
  "wlift r n = (r, n)"

definition wseq :: "writer \<Rightarrow> writer \<Rightarrow> writer" where
  "wseq w1 w2 n =
    (case w1 n of
       (Inl e, n') \<Rightarrow> (Inl e, n')
     | (Inr s, n') \<Rightarrow> (case w2 n' of (r, n'') \<Rightarrow> (emit s r, n'')))"

definition wall :: "writer list \<Rightarrow> writer" where
  "wall ws = foldr wseq ws (wlit [])"

definition wdraw :: "(nat \<Rightarrow> draw) \<Rightarrow> (draw \<Rightarrow> writer) \<Rightarrow> writer" where
  "wdraw R f n = f (R n) (Suc n)"

section \<open>Headers\<close>

definition structural_names :: "bytes list" where
  "structural_names =
    [''Content-Type'', ''Content-Transfer-Encoding'', ''Mime-Version'', ''Content-Disposition'',
     ''Content-Id'', ''Date'', ''Message-Id'', ''Subject'', ''From'', ''To'', ''Cc'', ''Bcc'', ''Reply-To'']"

definition isStructuralHeader :: "bytes \<Rightarrow> bool" where
  "isStructuralHeader name \<longleftrightarrow> canonicalHeaderName name \<in> set structural_names"

definition address_header :: "netlib \<Rightarrow> bytes \<Rightarrow> address list \<Rightarrow> writer" where
  "address_header L name addrs =
    (if addrs \<noteq> [] then wlift (foldHeaderLine name (encodeAddressList L addrs)) else wlit [])"

text \<open>\<^verbatim>\<open>writeHeaders\<close> after its call of \<^verbatim>\<open>seal\<close>: \<open>m\<close> is the sealed message.\<close>

definition writeHeaders :: "netlib \<Rightarrow> message \<Rightarrow> writer" where
  "writeHeaders L m = wall
    ([wlift (writeRawHeader ''Date'' (formatDate (msg_sealedDate m))),
      wlift (foldHeaderLine ''Message-ID'' (''<'' @ msg_sealedMsgID m @ ''>'')),
      (if msg_subject m \<noteq> [] then wlift (writeRawHeader ''Subject'' (msg_subject m)) else wlit []),
      address_header L ''From'' (msg_from m),
      address_header L ''Reply-To'' (msg_replyTo m),
      address_header L ''To'' (msg_to m),
      address_header L ''Cc'' (msg_cc m)]
     @ map (\<lambda>h. if isStructuralHeader (hdr_Name h) then wlit []
                else wlift (writeRawHeader (hdr_Name h) (hdr_Value h))) (msg_headers m))"

section \<open>Body\<close>

definition partitionAttachments :: "message \<Rightarrow> attachment list \<times> attachment list" where
  "partitionAttachments m =
    (filter att_Inline (msg_attachments m), filter (\<lambda>a. \<not> att_Inline a) (msg_attachments m))"

definition writeMultipartHeader :: "unicode \<Rightarrow> bytes \<Rightarrow> bytes \<Rightarrow> bytes" where
  "writeMultipartHeader U subtype boundary =
    ''Content-Type: multipart/'' @ subtype @ ''; boundary='' @ Quote U boundary @ CRLF @ CRLF"

definition openBoundary :: "bytes \<Rightarrow> bytes" where
  "openBoundary boundary = ''--'' @ boundary @ CRLF"

definition closeBoundary :: "bytes \<Rightarrow> bytes" where
  "closeBoundary boundary = ''--'' @ boundary @ ''--'' @ CRLF"

definition writeTextPart :: "bytes \<Rightarrow> bytes \<Rightarrow> bytes" where
  "writeTextPart contentType body =
    ''Content-Type: '' @ contentType @ ''; charset=utf-8'' @ CRLF
      @ ''Content-Transfer-Encoding: quoted-printable'' @ CRLF @ CRLF
      @ writeQuotedPrintable body @ CRLF"

text \<open>\<^verbatim>\<open>filepath.Ext\<close> on a Unix path.\<close>

definition path_Ext :: "bytes \<Rightarrow> bytes" where
  "path_Ext path =
    (case LastIndexFunc (\<lambda>c. c = CHR ''.'' \<or> c = CHR 0x2F) path of
       Some i \<Rightarrow> if path ! i = CHR ''.'' then drop i path else []
     | None \<Rightarrow> [])"

definition sniffContentType :: "netlib \<Rightarrow> bytes \<Rightarrow> bytes \<Rightarrow> bytes" where
  "sniffContentType L filename data =
    (let ext = path_Ext filename in
     if ext \<noteq> [] \<and> mime_TypeByExtension L ext \<noteq> [] then mime_TypeByExtension L ext
     else if data \<noteq> [] \<and> http_DetectContentType L data \<noteq> [] then http_DetectContentType L data
     else ''application/octet-stream'')"

definition normalizeContentID :: "bytes \<Rightarrow> goerr + bytes" where
  "normalizeContentID cid =
    (let cid = TrimSpace cid; cid = TrimPrefix (TrimSuffix cid ''>'') ''<'' in
     if cid = [] \<or> hasCRLF cid \<or> ContainsAny cid (''<> '' @ [TAB])
        \<or> 998 < length (''Content-ID: <'' @ cid @ ''>'')
     then Inl (Errorf ''%w: invalid Content-ID %q'' [OErr (Sentinel ErrInvalidArgument), OStr cid])
     else Inr cid)"

definition map_put :: "(bytes \<times> bytes) list \<Rightarrow> bytes \<Rightarrow> bytes \<Rightarrow> (bytes \<times> bytes) list" where
  "map_put m k v = (k, v) # filter (\<lambda>(k', v'). k' \<noteq> k) m"

definition att_content_type :: "netlib \<Rightarrow> attachment \<Rightarrow> bytes" where
  "att_content_type L a =
    (if att_ContentType a = [] then sniffContentType L (att_Filename a) (att_Data a) else att_ContentType a)"

text \<open>The Content-ID line of an inline part; a missing identifier costs a draw.\<close>

definition att_cid_line :: "(nat \<Rightarrow> draw) \<Rightarrow> attachment \<Rightarrow> writer" where
  "att_cid_line R a =
    (let line = (\<lambda>cid. wlift (bindE (normalizeContentID cid)
                   (\<lambda>cid. Inr (''Content-ID: <'' @ cid @ ''>'' @ CRLF)))) in
     if \<not> att_Inline a then wlit []
     else if att_ContentID a = [] then wdraw R (\<lambda>d. line (generateID d @ ''@gomailer''))
     else line (att_ContentID a))"

definition writeAttachmentPart :: "netlib \<Rightarrow> (nat \<Rightarrow> draw) \<Rightarrow> attachment \<Rightarrow> writer" where
  "writeAttachmentPart L R a =
    (let ctype = att_content_type L a in
     if hasCRLF ctype then
       wlift (Inl (Errorf ''%w: invalid attachment content type %q''
                [OErr (Sentinel ErrInvalidArgument), OStr ctype]))
     else case mime_ParseMediaType L ctype of
       Inl parseErr \<Rightarrow>
         wlift (Inl (Errorf ''%w: invalid attachment content type %q: %w''
                  [OErr (Sentinel ErrInvalidArgument), OStr ctype, OErr parseErr]))
     | Inr (mediaType, mediaParams) \<Rightarrow>
         let params = (if att_Filename a \<noteq> [] then map_put mediaParams ''name'' (att_Filename a) else mediaParams);
             disposition = (if att_Inline a then ''inline'' else ''attachment'') in
         wall
          [wlift (foldHeaderLine ''Content-Type'' (formatMediaTypeHeaderValue (nl_unicode L) mediaType params)),
           wlit (''Content-Transfer-Encoding: base64'' @ CRLF),
           att_cid_line R a,
           (if att_Filename a \<noteq> [] then
              wlift (foldHeaderLine ''Content-Disposition''
                (formatMediaTypeHeaderValue (nl_unicode L) disposition [(''filename'', att_Filename a)]))
            else wlit (''Content-Disposition: '' @ disposition @ CRLF)),
           wlit CRLF,
           wlit (writeBase64 (att_Data a))])"

definition writeAlternative :: "netlib \<Rightarrow> (nat \<Rightarrow> draw) \<Rightarrow> message \<Rightarrow> writer" where
  "writeAlternative L R m = wdraw R (\<lambda>d. let boundary = generateBoundary d in wall
    [wlit (writeMultipartHeader (nl_unicode L) ''alternative'' boundary),
     wlit (openBoundary boundary), wlit (writeTextPart ''text/plain'' (msg_textBody m)),
     wlit (openBoundary boundary), wlit (writeTextPart ''text/html'' (msg_htmlBody m)),
     wlit (closeBoundary boundary)])"

definition writeContentBody :: "netlib \<Rightarrow> (nat \<Rightarrow> draw) \<Rightarrow> message \<Rightarrow> writer" where
  "writeContentBody L R m =
    (let hasText = msg_textBody m \<noteq> []; hasHTML = msg_htmlBody m \<noteq> [] in
     if hasText \<and> hasHTML then writeAlternative L R m
     else if hasHTML then wlit (writeTextPart ''text/html'' (msg_htmlBody m))
     else if hasText then wlit (writeTextPart ''text/plain'' (msg_textBody m))
     else wlit (writeTextPart ''text/plain'' []))"

definition write_parts :: "netlib \<Rightarrow> (nat \<Rightarrow> draw) \<Rightarrow> bytes \<Rightarrow> attachment list \<Rightarrow> writer" where
  "write_parts L R boundary as =
    wall (map (\<lambda>a. wseq (wlit (openBoundary boundary)) (writeAttachmentPart L R a)) as)"

definition writeRelated :: "netlib \<Rightarrow> (nat \<Rightarrow> draw) \<Rightarrow> message \<Rightarrow> attachment list \<Rightarrow> writer" where
  "writeRelated L R m inlineParts = wdraw R (\<lambda>d. let boundary = generateBoundary d in wall
    [wlit (writeMultipartHeader (nl_unicode L) ''related'' boundary),
     wlit (openBoundary boundary), writeContentBody L R m,
     write_parts L R boundary inlineParts,
     wlit (closeBoundary boundary)])"

definition writeMixed :: "netlib \<Rightarrow> (nat \<Rightarrow> draw) \<Rightarrow> message \<Rightarrow> attachment list \<Rightarrow> attachment list \<Rightarrow> writer" where
  "writeMixed L R m inlineParts regularParts =
    (if regularParts = [] \<and> inlineParts \<noteq> [] then writeRelated L R m inlineParts
     else wdraw R (\<lambda>d. let boundary = generateBoundary d in wall
       [wlit (writeMultipartHeader (nl_unicode L) ''mixed'' boundary),
        wlit (openBoundary boundary),
        (if inlineParts \<noteq> [] then writeRelated L R m inlineParts else writeContentBody L R m),
        write_parts L R boundary regularParts,
        wlit (closeBoundary boundary)]))"

definition writeBody :: "netlib \<Rightarrow> (nat \<Rightarrow> draw) \<Rightarrow> message \<Rightarrow> writer" where
  "writeBody L R m = wseq (wlit (''MIME-Version: 1.0'' @ CRLF))
    (let hasText = msg_textBody m \<noteq> []; hasHTML = msg_htmlBody m \<noteq> [];
         hasAttach = msg_attachments m \<noteq> [] in
     if \<not> hasText \<and> \<not> hasHTML \<and> \<not> hasAttach then
       wlit (''Content-Type: text/plain; charset=utf-8'' @ CRLF
             @ ''Content-Transfer-Encoding: 7bit'' @ CRLF @ CRLF)
     else
       (let (related, inline) = partitionAttachments m in
        if hasAttach \<or> (related \<noteq> [] \<and> (hasText \<or> hasHTML)) then writeMixed L R m related inline
        else writeContentBody L R m))"

text \<open>\<^verbatim>\<open>Bytes\<close>: the outcome, the message (sealed by the call) and the number of draws.\<close>

definition Message_Bytes ::
  "netlib \<Rightarrow> (nat \<Rightarrow> draw) \<Rightarrow> gotime \<Rightarrow> message \<Rightarrow> nat \<Rightarrow> (goerr + bytes) \<times> message \<times> nat" where
  "Message_Bytes L R now m n =
    (case seal L R now m n of (m', n') \<Rightarrow>
      (case wseq (writeHeaders L m') (writeBody L R m') n' of (r, n'') \<Rightarrow> (r, m', n'')))"

section \<open>Raw messages\<close>

text \<open>
  The interface \<^verbatim>\<open>RawMessage\<close>: a nil value, a \<^verbatim>\<open>*Message\<close>, wrapped bytes
  (\<^verbatim>\<open>NewRawMessage\<close>), or another implementation, known by what its \<^verbatim>\<open>Bytes\<close> returns.
\<close>

datatype raw_message =
    NilRaw
  | MsgRaw message
  | BytesRaw bytes
  | CustomRaw "goerr + bytes"

definition NewRawMessage :: "bytes \<Rightarrow> raw_message" where
  "NewRawMessage data = BytesRaw data"

text \<open>
  \<^verbatim>\<open>WriteTo\<close>. An \<^verbatim>\<open>io.Writer\<close> tells how many bytes it took, and with which error; it may fail at any
  point. A message is serialized in memory first and then written in one call.
\<close>

type_synonym 'w io_writer = "bytes \<Rightarrow> 'w \<Rightarrow> (int \<times> goerr option) \<times> 'w"

definition Message_WriteTo ::
  "netlib \<Rightarrow> (nat \<Rightarrow> draw) \<Rightarrow> gotime \<Rightarrow> 'w io_writer \<Rightarrow> message \<Rightarrow> nat \<Rightarrow> 'w \<Rightarrow> (int \<times> goerr option) \<times> message \<times> nat \<times> 'w" where
  "Message_WriteTo L R now write m n w =
    (case Message_Bytes L R now m n of
       (Inl err, m', n') \<Rightarrow> ((0, Some err), m', n', w)
     | (Inr buf, m', n') \<Rightarrow> (case write buf w of (r, w') \<Rightarrow> (r, m', n', w')))"

definition raw_WriteTo :: "'w io_writer \<Rightarrow> bytes \<Rightarrow> 'w \<Rightarrow> (int \<times> goerr option) \<times> 'w" where
  "raw_WriteTo write data w = write data w"

definition isNilRawMessage :: "raw_message \<Rightarrow> bool" where
  "isNilRawMessage r \<longleftrightarrow> r = NilRaw"

lemmas message_eval [go_eval] =
  IsZero_def zero_time_def civil_def pad2_def pad4_def day_names_def month_names_def format_zone_def
  formatDate_def NewMessage_def SetFrom_def SetTo_def SetCc_def SetBcc_def SetReplyTo_def SetSubject_def
  SetDate_def SetText_def SetHTML_def Attach_def SetHeader_def Header_def RemoveHeader_def From_def
  Message_Recipients_def senderFromMessageHeaders_def senderDomain_def seal_def MessageID_def
  EnsureValidity_def wlit_def wlift_def wseq_def wall_def wdraw_def structural_names_def
  isStructuralHeader_def address_header_def writeHeaders_def partitionAttachments_def
  writeMultipartHeader_def openBoundary_def closeBoundary_def writeTextPart_def path_Ext_def
  sniffContentType_def normalizeContentID_def map_put_def att_content_type_def att_cid_line_def
  writeAttachmentPart_def writeAlternative_def writeContentBody_def write_parts_def writeRelated_def
  writeMixed_def writeBody_def Message_Bytes_def NewRawMessage_def isNilRawMessage_def

end
