(* ===== verification/Message_Props.thy ===== *)
theory Message_Props
  imports Message
begin

text \<open>
  Facts about messages: the laws of the custom headers (interface \<open>header_store\<close>), the
  invariants of every message the builder can produce, sealing, validation, the header
  section field by field, that Bcc recipients never reach the serialized text, and the MIME
  structure of the body, which a multipart parser recovers.
\<close>

section \<open>Custom headers\<close>

text \<open>
  What a store of named headers promises its clients: names are compared in their canonical
  form, an invalid name or value leaves the store as it is, and a deleted header is gone.
\<close>

definition header_ok :: "bytes \<Rightarrow> bytes \<Rightarrow> bool" where
  "header_ok name val \<longleftrightarrow> isValidHeaderName name \<and> \<not> hasCRLF val"

locale header_store =
  fixes put :: "'m \<Rightarrow> bytes \<Rightarrow> bytes \<Rightarrow> 'm" and get :: "'m \<Rightarrow> bytes \<Rightarrow> bytes option"
    and del :: "'m \<Rightarrow> bytes \<Rightarrow> 'm"
  assumes get_put: "header_ok name v \<Longrightarrow>
      get (put m name v) k = (if canonicalHeaderName k = canonicalHeaderName name then Some v else get m k)"
    and put_bad: "\<not> header_ok name v \<Longrightarrow> put m name v = m"
    and get_del: "get (del m name) k =
      (if canonicalHeaderName k = canonicalHeaderName name then None else get m k)"
begin

lemma get_put_same: "header_ok name v \<Longrightarrow> get (put m name v) name = Some v"
  by (simp add: get_put)

lemma last_put_wins: "header_ok name v \<Longrightarrow> header_ok name w \<Longrightarrow>
    get (put (put m name v) name w) k = get (put m name w) k"
  by (simp add: get_put)

lemma get_del_same [simp]: "get (del m name) name = None"
  by (simp add: get_del)

lemma get_del_put: "get (del (put m name v) name) k = get (del m name) k"
  by (cases "header_ok name v") (simp_all add: get_del get_put put_bad)

lemma get_put_commute:
  "canonicalHeaderName a \<noteq> canonicalHeaderName b \<Longrightarrow>
    get (put (put m a v) b w) k = get (put (put m b w) a v) k"
  by (cases "header_ok a v"; cases "header_ok b w") (simp_all add: get_put put_bad)

end

lemma find_set_header:
  "find_header (set_header hs name v) k =
    (if canonicalHeaderName k = canonicalHeaderName name then Some v else find_header hs k)"
  by (induction hs name v rule: set_header.induct) auto

lemma find_filter_header:
  "find_header (filter (\<lambda>h. canonicalHeaderName (hdr_Name h) \<noteq> canonicalHeaderName name) hs) k =
    (if canonicalHeaderName k = canonicalHeaderName name then None else find_header hs k)"
  by (induction hs) auto

interpretation hstore: header_store SetHeader Header RemoveHeader
  by unfold_locales
     (simp_all add: SetHeader_def Header_def RemoveHeader_def header_ok_def find_set_header find_filter_header)

text \<open>
  The invariant of the header list: every name is valid, every value is free of CR and LF,
  and no two names have the same canonical form.
\<close>

definition headers_wf :: "message \<Rightarrow> bool" where
  "headers_wf m \<longleftrightarrow>
     (\<forall>h \<in> set (msg_headers m). header_ok (hdr_Name h) (hdr_Value h))
     \<and> distinct (map (canonicalHeaderName \<circ> hdr_Name) (msg_headers m))"

lemma set_header_wf:
  assumes "header_ok name v" "\<forall>h \<in> set hs. header_ok (hdr_Name h) (hdr_Value h)"
    and "distinct (map (canonicalHeaderName \<circ> hdr_Name) hs)"
  shows "(\<forall>h \<in> set (set_header hs name v). header_ok (hdr_Name h) (hdr_Value h))
    \<and> distinct (map (canonicalHeaderName \<circ> hdr_Name) (set_header hs name v))
    \<and> set (map (canonicalHeaderName \<circ> hdr_Name) (set_header hs name v))
        = insert (canonicalHeaderName name) (set (map (canonicalHeaderName \<circ> hdr_Name) hs))"
  using assms
  by (induction hs name v rule: set_header.induct) (auto simp: header_ok_def)

lemma headers_wf_New: "headers_wf NewMessage"
  by (simp add: headers_wf_def NewMessage_def)

lemma headers_wf_SetHeader: "headers_wf m \<Longrightarrow> headers_wf (SetHeader m name v)"
  using set_header_wf [of name v "msg_headers m"]
  by (auto simp: headers_wf_def SetHeader_def header_ok_def)

lemma headers_wf_RemoveHeader: "headers_wf m \<Longrightarrow> headers_wf (RemoveHeader m name)"
  by (auto simp: headers_wf_def RemoveHeader_def distinct_map_filter)

text \<open>Messages as the builder API can produce them.\<close>

inductive built :: "message \<Rightarrow> bool" where
  New: "built NewMessage"
| From: "built m \<Longrightarrow> built (SetFrom m as)"
| To: "built m \<Longrightarrow> built (SetTo m as)"
| Cc: "built m \<Longrightarrow> built (SetCc m as)"
| Bcc: "built m \<Longrightarrow> built (SetBcc m as)"
| ReplyTo: "built m \<Longrightarrow> built (SetReplyTo m as)"
| Subject: "built m \<Longrightarrow> built (SetSubject m s)"
| Date: "built m \<Longrightarrow> built (SetDate m t)"
| Text: "built m \<Longrightarrow> built (SetText m s)"
| HTML: "built m \<Longrightarrow> built (SetHTML m s)"
| Attach: "built m \<Longrightarrow> built (Attach d m a)"
| SetHeader: "built m \<Longrightarrow> built (SetHeader m name v)"
| RemoveHeader: "built m \<Longrightarrow> built (RemoveHeader m name)"
| Seal: "built m \<Longrightarrow> built (fst (seal L R now m n))"
| Clone: "built m \<Longrightarrow> built (Message_Clone m)"

lemma seal_headers [simp]: "msg_headers (fst (seal L R now m n)) = msg_headers m"
  by (simp add: seal_def split_beta)

lemma built_headers_wf: "built m \<Longrightarrow> headers_wf m"
proof (induction rule: built.induct)
  case New
  show ?case by (rule headers_wf_New)
qed (auto simp: headers_wf_SetHeader headers_wf_RemoveHeader,
     auto simp: headers_wf_def SetFrom_def SetTo_def SetCc_def SetBcc_def SetReplyTo_def SetSubject_def
       SetDate_def SetText_def SetHTML_def Attach_def)

definition cid_wf :: "message \<Rightarrow> bool" where
  "cid_wf m \<longleftrightarrow> (\<forall>a \<in> set (msg_attachments m). att_Inline a \<longrightarrow> att_ContentID a \<noteq> [])"

lemma seal_attachments [simp]: "msg_attachments (fst (seal L R now m n)) = msg_attachments m"
  by (simp add: seal_def split_beta)

lemma built_cid_wf: "built m \<Longrightarrow> cid_wf m"
  by (induction rule: built.induct)
     (auto simp: cid_wf_def NewMessage_def SetHeader_def RemoveHeader_def SetFrom_def SetTo_def SetCc_def
       SetBcc_def SetReplyTo_def SetSubject_def SetDate_def SetText_def SetHTML_def Attach_def Let_def)

section \<open>Sealing\<close>

lemma seal_sealed [simp]: "msg_sealed (fst (seal L R now m n))"
  by (simp add: seal_def split_beta)

lemma seal_idem: "msg_sealed m \<Longrightarrow> seal L R now m n = (m, n)"
  by (simp add: seal_def)

lemma MessageID_stable:
  "MessageID L R now m n = (mid, m', n') \<Longrightarrow> MessageID L R' now' m' k = (mid, m', k)"
  by (auto simp: MessageID_def seal_idem split: prod.splits) (metis fst_conv prod.inject seal_idem seal_sealed)+

section \<open>Validation\<close>

lemma ensureValidAddressList_None: "ensureValidAddressList hname as = None \<longleftrightarrow> (\<forall>a \<in> set as. valid a)"
  by (induction as) auto

lemma ensureValidAddressList_class:
  "ensureValidAddressList hname as = Some e \<Longrightarrow> errors_Is e ErrInvalidArgument"
  by (induction as) (auto split: if_splits)

lemma EnsureValidity_None:
  "EnsureValidity m = None \<longleftrightarrow> Message_Recipients m \<noteq> [] \<and> msg_from m \<noteq> []
     \<and> (\<forall>a \<in> set (msg_from m @ msg_replyTo m @ Message_Recipients m). valid a)"
  by (auto simp: EnsureValidity_def first_Some_None ensureValidAddressList_None Message_Recipients_def)

section \<open>Writers\<close>

lemma emit_Nil [simp]: "emit [] r = r"
  by (cases r) auto

lemma emit_emit [simp]: "emit s (emit t r) = emit (s @ t) r"
  by (cases r) auto

lemma wseq_Nil [simp]: "wseq (wlit []) w = w"
  by (rule ext) (auto simp: wseq_def wlit_def split: prod.splits)

lemma wseq_assoc: "wseq (wseq a b) c = wseq a (wseq b c)"
  by (rule ext) (auto simp: wseq_def split: prod.splits sum.splits)

lemma wlit_eq [simp]: "wlit s n = (Inr t, n') \<longleftrightarrow> t = s \<and> n' = n"
  by (auto simp: wlit_def)

lemma wlift_eq [simp]: "wlift r n = (Inr t, n') \<longleftrightarrow> r = Inr t \<and> n' = n"
  by (auto simp: wlift_def)

lemma wseq_Inr:
  "wseq w1 w2 n = (Inr out, n') \<longleftrightarrow>
    (\<exists>s t k. w1 n = (Inr s, k) \<and> w2 k = (Inr t, n') \<and> out = s @ t)"
  by (auto simp: wseq_def emit_eq_Inr split: prod.splits sum.splits)

lemma wall_Nil [simp]: "wall [] = wlit []"
  by (simp add: wall_def)

lemma wall_Cons [simp]: "wall (w # ws) = wseq w (wall ws)"
  by (simp add: wall_def)

lemma wseq_wlit_Nil [simp]: "wseq w (wlit []) = w"
  by (rule ext) (auto simp: wseq_def wlit_def emit_def map_sum.id [unfolded id_def] split: prod.splits sum.splits)

lemma wdraw_eq [simp]: "wdraw R f n = f (R n) (Suc n)"
  by (simp add: wdraw_def)

text \<open>Writers that make no draw, written one after the other.\<close>

lemma wall_lifts:
  "(wall (map wlift rs) n = (Inr out, n')) \<longleftrightarrow>
    n' = n \<and> (\<exists>outs. rs = map Inr outs \<and> out = concat outs)"
proof (induction rs arbitrary: out)
  case (Cons r rs)
  show ?case
    by (cases r) (auto simp: wseq_Inr Cons Cons_eq_map_conv)
qed auto

section \<open>The header section\<close>

text \<open>
  The fields a message puts on the wire, in order: each with its name and what is to be
  folded as its value.
\<close>

definition wire_fields :: "netlib \<Rightarrow> message \<Rightarrow> (bytes \<times> bytes) list" where
  "wire_fields L m =
    [(''Date'', encodeHeaderWord (formatDate (msg_sealedDate m))),
     (''Message-ID'', ''<'' @ msg_sealedMsgID m @ ''>'')]
    @ (if msg_subject m \<noteq> [] then [(''Subject'', encodeHeaderWord (msg_subject m))] else [])
    @ concat (map (\<lambda>(name, as). if as \<noteq> [] then [(name, encodeAddressList L as)] else [])
        [(''From'', msg_from m), (''Reply-To'', msg_replyTo m), (''To'', msg_to m), (''Cc'', msg_cc m)])
    @ map (\<lambda>h. (hdr_Name h, encodeHeaderWord (hdr_Value h)))
        (filter (\<lambda>h. \<not> isStructuralHeader (hdr_Name h)) (msg_headers m))"

lemma wall_append: "wall (ws @ us) = wseq (wall ws) (wall us)"
  by (induction ws) (simp_all add: wseq_assoc)

lemma wall_custom:
  "wall (map (\<lambda>h. if isStructuralHeader (hdr_Name h) then wlit []
                else wlift (writeRawHeader (hdr_Name h) (hdr_Value h))) hs)
    = wall (map wlift (map (\<lambda>(k, v). foldHeaderLine k v)
        (map (\<lambda>h. (hdr_Name h, encodeHeaderWord (hdr_Value h)))
           (filter (\<lambda>h. \<not> isStructuralHeader (hdr_Name h)) hs))))"
  by (induction hs) (simp_all add: writeRawHeader_def)

lemma writeHeaders_fields:
  "writeHeaders L m = wall (map wlift (map (\<lambda>(k, v). foldHeaderLine k v) (wire_fields L m)))"
  unfolding writeHeaders_def wire_fields_def address_header_def
  by (simp only: map_append wall_append wall_custom)
     (cases "msg_subject m = []"; cases "msg_from m = []"; cases "msg_replyTo m = []";
      cases "msg_to m = []"; cases "msg_cc m = []"; simp add: wseq_assoc writeRawHeader_def)

lemma writeHeaders_Inr:
  assumes "writeHeaders L m n = (Inr out, n')"
  shows "n' = n \<and> (\<exists>fs. out = concat fs \<and>
    list_all2 (\<lambda>(name, v) f. foldHeaderLine name v = Inr f) (wire_fields L m) fs)"
proof -
  from assms obtain fs where "n' = n" "out = concat fs"
    "map (\<lambda>(k, v). foldHeaderLine k v) (wire_fields L m) = map Inr fs"
    by (auto simp only: writeHeaders_fields wall_lifts)
  moreover from this(3) have "list_all2 (\<lambda>(name, v) f. foldHeaderLine name v = Inr f) (wire_fields L m) fs"
    by (auto simp: list_all2_conv_all_nth list_eq_iff_nth_eq split: prod.splits)
  ultimately show ?thesis by blast
qed

lemma seal_SetBcc: "seal L R now (SetBcc m b) n = map_prod (\<lambda>m. SetBcc m b) id (seal L R now m n)"
proof -
  have sf: "sender_from L (SetBcc m b) hds = sender_from L m hds" for hds
    by (induction L m hds rule: sender_from.induct)
       (auto simp: Header_def From_def SetBcc_def split: option.splits sum.splits)
  have fr: "msg_from (SetBcc m b) = msg_from m" by (simp add: SetBcc_def)
  have "senderDomain L (SetBcc m b) = senderDomain L m"
    unfolding senderDomain_def senderFromMessageHeaders_def sf fr by (rule refl)
  then show ?thesis by (auto simp: seal_def SetBcc_def Let_def)
qed

lemma writeBody_SetBcc: "writeBody L R (SetBcc m b) = writeBody L R m"
  by (simp add: writeBody_def writeMixed_def writeRelated_def writeContentBody_def writeAlternative_def
      partitionAttachments_def SetBcc_def cong: if_cong)

lemma writeHeaders_SetBcc: "writeHeaders L (SetBcc m b) = writeHeaders L m"
  by (simp add: writeHeaders_def SetBcc_def)

lemma Bytes_SetBcc:
  "fst (Message_Bytes L R now (SetBcc m b) n) = fst (Message_Bytes L R now m n)"
  by (simp add: Message_Bytes_def seal_SetBcc writeBody_SetBcc writeHeaders_SetBcc split: prod.splits)

text \<open>Nor does what \<^verbatim>\<open>WriteTo\<close> writes, and how it ends.\<close>

lemma WriteTo_SetBcc:
  "(case Message_WriteTo L R now write (SetBcc m b) n w of (r, m', n', w') \<Rightarrow> (r, w')) =
   (case Message_WriteTo L R now write m n w of (r, m', n', w') \<Rightarrow> (r, w'))"
  using Bytes_SetBcc [of L R now m b n]
  by (cases "Message_Bytes L R now (SetBcc m b) n"; cases "Message_Bytes L R now m n")
     (auto simp: Message_WriteTo_def split: sum.split prod.split)

section \<open>Repeated serialization\<close>

text \<open>A writer that draws nothing writes the same each time.\<close>

definition steady :: "writer \<Rightarrow> bool" where
  "steady w \<longleftrightarrow> (\<exists>r. \<forall>n. w n = (r, n))"

lemma steady_wlit [intro!]: "steady (wlit s)" and steady_wlift [intro!]: "steady (wlift r)"
  by (auto simp: steady_def wlit_def wlift_def)

lemma steady_wseq [intro]: "steady v \<Longrightarrow> steady w \<Longrightarrow> steady (wseq v w)"
  unfolding steady_def by (elim exE) (rename_tac r r', case_tac r; force simp: wseq_def)

lemma steady_wall: "\<forall>w\<in>set ws. steady w \<Longrightarrow> steady (wall ws)"
  unfolding wall_def by (induction ws) auto

lemma steady_writeHeaders: "steady (writeHeaders L m)"
  unfolding writeHeaders_fields by (rule steady_wall) auto

text \<open>Messages that are not multipart.\<close>

definition single_part :: "message \<Rightarrow> bool" where
  "single_part m \<longleftrightarrow> msg_attachments m = [] \<and> (msg_textBody m = [] \<or> msg_htmlBody m = [])"

lemma steady_writeBody:
  assumes "single_part m"
  obtains w where "steady w" "\<And>R. writeBody L R m = w"
proof -
  have "\<exists>w. steady w \<and> (\<forall>R. writeBody L R m = w)"
    using assms by (auto simp: single_part_def writeBody_def writeContentBody_def partitionAttachments_def Let_def)
  then show thesis using that by blast
qed

lemma seal_keeps: "single_part (fst (seal L R now m n)) = single_part m"
  by (auto simp: seal_def single_part_def split: prod.splits)

lemma Bytes_again:
  assumes "Message_Bytes L R now m n = (r, m', n')" "single_part m"
  shows "Message_Bytes L R' now' m' k = (r, m', k)"
proof -
  obtain k' where s: "seal L R now m n = (m', k')" using assms(1) by (auto simp: Message_Bytes_def split: prod.splits)
  have m': "msg_sealed m'" "single_part m'"
    using seal_sealed [of L R now m n] seal_keeps [of L R now m n] assms(2) s by simp_all
  obtain w where w: "steady w" "\<And>R. writeBody L R m' = w" using steady_writeBody [OF m'(2)] by blast
  have "steady (wseq (writeHeaders L m') w)" using steady_writeHeaders w(1) by blast
  then obtain q where q: "\<And>n. wseq (writeHeaders L m') w n = (q, n)" unfolding steady_def by blast
  have "q = r" using assms(1) s by (simp add: Message_Bytes_def w(2) q)
  then show ?thesis by (simp add: Message_Bytes_def seal_idem m'(1) w(2) q)
qed

lemma seal_fixed: "seal L R now m n = (m', n') \<Longrightarrow> msg_sealed m' \<and> single_part m' = single_part m"
  using seal_sealed [of L R now m n] seal_keeps [of L R now m n] by simp

lemma Bytes_sealed: "msg_sealed m \<and> single_part m \<Longrightarrow> \<exists>r. \<forall>R now n. Message_Bytes L R now m n = (r, m, n)"
proof -
  assume m: "msg_sealed m \<and> single_part m"
  obtain r n' where r: "Message_Bytes L (\<lambda>_. Inl 0) zero_time m 0 = (r, m, n')"
    using m by (cases "wseq (writeHeaders L m) (writeBody L (\<lambda>_. Inl 0) m) 0") (auto simp: Message_Bytes_def seal_idem)
  with Bytes_again [OF r] m show ?thesis by blast
qed

section \<open>MIME trees\<close>

text \<open>
  The document as a tree: a leaf is the list of its lines, a multipart entity has a subtype,
  a boundary and its parts. \<open>plines\<close> lists the lines of an entity.
\<close>

datatype mime_part = Leaf "bytes list" | Multi bytes bytes "mime_part list"

definition multi_line :: "bytes \<Rightarrow> bytes \<Rightarrow> bytes" where
  "multi_line st b = ''Content-Type: multipart/'' @ st @ ''; boundary='' @ [CHR 0x22] @ b @ [CHR 0x22]"

fun plines :: "mime_part \<Rightarrow> bytes list" where
  "plines (Leaf ls) = ls"
| "plines (Multi st b ps) =
    multi_line st b # [] # concat (map (\<lambda>p. (''--'' @ b) # plines p) ps) @ [''--'' @ b @ ''--'']"

definition unlines :: "bytes list \<Rightarrow> bytes" where
  "unlines ls = concat (map (\<lambda>l. l @ CRLF) ls)"

lemma unlines_simps [simp]:
  "unlines [] = []" "unlines (l # ls) = l @ CRLF @ unlines ls" "unlines (ls @ ks) = unlines ls @ unlines ks"
  by (simp_all add: unlines_def)

lemma SplitCRLF_unlines: "\<forall>l \<in> set ls. CR \<notin> set l \<Longrightarrow> SplitCRLF (unlines ls @ t) = ls @ SplitCRLF t"
  by (induction ls) (simp_all add: SplitCRLF_append)

text \<open>
  A parser of multipart documents: a line that starts with the delimiter opens the next part,
  one that starts with the closing delimiter ends the entity. \<open>parts_of\<close> returns the
  preamble and the parts.
\<close>

fun parts_of :: "bytes \<Rightarrow> bytes list \<Rightarrow> bytes list list option" where
  "parts_of b [] = None"
| "parts_of b (l # ls) =
    (if HasPrefix l (''--'' @ b @ ''--'') then Some [[]]
     else if HasPrefix l (''--'' @ b) then map_option ((#) []) (parts_of b ls)
     else (case parts_of b ls of Some (p # ps) \<Rightarrow> Some ((l # p) # ps) | _ \<Rightarrow> None))"

definition boundary_of :: "bytes \<Rightarrow> (bytes \<times> bytes) option" where
  "boundary_of l =
    (if HasPrefix l ''Content-Type: multipart/'' then
       (let r = drop 24 l in
        case Index r ''; boundary='' of
          None \<Rightarrow> None
        | Some i \<Rightarrow> Some (take i r, butlast (tl (drop (i + 11) r))))
     else None)"

fun mime_parse :: "nat \<Rightarrow> bytes list \<Rightarrow> mime_part option" where
  "mime_parse 0 ls = None"
| "mime_parse (Suc k) (l # [] # ls) =
    (case boundary_of l of
       None \<Rightarrow> Some (Leaf (l # [] # ls))
     | Some (st, b) \<Rightarrow>
         (case parts_of b ls of
            Some (_ # ps) \<Rightarrow> map_option (Multi st b) (those (map (mime_parse k) ps))
          | _ \<Rightarrow> None))"
| "mime_parse (Suc k) ls = Some (Leaf ls)"

section \<open>Boundaries\<close>

fun boundaries :: "mime_part \<Rightarrow> bytes list" where
  "boundaries (Leaf ls) = []"
| "boundaries (Multi st b ps) = b # concat (map boundaries ps)"

fun depth :: "mime_part \<Rightarrow> nat" where
  "depth (Leaf ls) = 1"
| "depth (Multi st b ps) = Suc (Max (set (0 # map depth ps)))"

definition leaf_ok :: "bytes list \<Rightarrow> bool" where
  "leaf_ok ls \<longleftrightarrow> (\<exists>l l' ls'. ls = l # l' # ls' \<and> l' \<noteq> [])
     \<and> (\<forall>l \<in> set ls. CR \<notin> set l \<and> \<not> HasPrefix l ''--_=_'')"

fun tree_ok :: "mime_part \<Rightarrow> bool" where
  "tree_ok (Leaf ls) \<longleftrightarrow> leaf_ok ls"
| "tree_ok (Multi st b ps) \<longleftrightarrow>
     st \<in> {''mixed'', ''related'', ''alternative''} \<and> (\<exists>d. b = generateBoundary d)
     \<and> list_all tree_ok ps"

lemma hex_digits_alnum: "c \<in> set (hex_digits k n) \<Longrightarrow> is_alnum c"
proof -
  have "is_alnum (hex_digit (m mod 16))" for m
    by (auto simp: hex_digit_def is_alnum_def is_letter_def is_digit_def)
  then show "c \<in> set (hex_digits k n) \<Longrightarrow> is_alnum c"
    by (induction k n rule: hex_digits.induct) auto
qed

lemma nat_Itoa_digits: "c \<in> set (nat_Itoa n) \<Longrightarrow> is_digit c"
proof (induction n arbitrary: c rule: nat_Itoa.induct)
  case (1 n)
  have d: "m < 10 \<Longrightarrow> is_digit (char_of (48 + m))" for m :: nat by (simp add: is_digit_def)
  with 1 show ?case by (subst (asm) nat_Itoa.simps) (auto split: if_splits)
qed

lemma generateID_bytes: "c \<in> set (generateID d) \<Longrightarrow> is_alnum c \<or> c = CHR ''-''"
  by (auto simp: generateID_def Itoa_def is_alnum_def [of c] split: sum.splits if_splits
      dest: nat_Itoa_digits hex_digits_alnum)

lemma generateID_no_underscore: "CHR ''_'' \<notin> set (generateID d)"
  using generateID_bytes [of "CHR ''_''" d] by (auto simp: is_alnum_def is_letter_def is_digit_def)

lemma generateBoundary_plain:
  "c \<in> set (generateBoundary d) \<Longrightarrow> 32 < byte c \<and> byte c < 127 \<and> c \<noteq> CHR 0x22 \<and> c \<noteq> CHR 0x5C"
  using generateID_bytes [of c d]
  by (auto simp: generateBoundary_def is_alnum_def is_letter_def is_digit_def)

lemma before_eq: "c \<notin> set a \<Longrightarrow> c \<notin> set b \<Longrightarrow> a @ c # s = b @ c # t \<Longrightarrow> a = b"
proof (induction a arbitrary: b)
  case Nil
  then show ?case by (cases b) auto
next
  case (Cons x a)
  then show ?case by (cases b) auto
qed

text \<open>A generated delimiter is a prefix of another only when the two identifiers agree.\<close>

lemma boundary_prefix:
  assumes "HasPrefix (generateBoundary d @ t) (generateBoundary e)"
  shows "generateID d = generateID e"
proof -
  from assms obtain u where "generateBoundary d @ t = generateBoundary e @ u"
    by (auto simp: HasPrefix_iff)
  then have "generateID d @ CHR ''_'' # ''=_'' @ t = generateID e @ CHR ''_'' # ''=_'' @ u"
    by (simp add: generateBoundary_def)
  then show ?thesis by (rule before_eq [OF generateID_no_underscore generateID_no_underscore])
qed

lemma Quote_plain:
  assumes "\<forall>c \<in> set s. 32 \<le> byte c \<and> byte c < 127 \<and> c \<noteq> CHR 0x22 \<and> c \<noteq> CHR 0x5C"
  shows "Quote U s = [CHR 0x22] @ s @ [CHR 0x22]"
proof -
  have "concat (map (quote_rune U) (runes s)) = s"
    using assms
  proof (induction s)
    case (Cons c s)
    moreover have "byte c \<noteq> 34" "byte c \<noteq> 92"
      using Cons.prems byte_eq_iff [of c "CHR 0x22"] byte_eq_iff [of c "CHR 0x5C"] by auto
    ultimately show ?case by (simp add: runes_ascii quote_rune_def RuneError_def)
  qed simp
  then show ?thesis by (simp add: Quote_def)
qed

lemma writeMultipartHeader_lines:
  "writeMultipartHeader U st (generateBoundary d) = unlines [multi_line st (generateBoundary d), []]"
proof -
  have "Quote U (generateBoundary d) = [CHR 0x22] @ generateBoundary d @ [CHR 0x22]"
    by (rule Quote_plain) (auto dest: generateBoundary_plain)
  then show ?thesis by (simp add: writeMultipartHeader_def multi_line_def)
qed

section \<open>Parsing what was rendered\<close>

lemma Index_append: "c \<notin> set s \<Longrightarrow> Index (s @ (c # p) @ t) (c # p) = Some (length s)"
proof (induction s)
  case Nil
  have "HasPrefix (c # p @ t) (c # p)" by (simp add: HasPrefix_def)
  then show ?case by simp
next
  case (Cons d s)
  then have "\<not> HasPrefix (d # s @ (c # p) @ t) (c # p)" by (auto simp: HasPrefix_def)
  with Cons show ?case by simp
qed

lemma boundary_of_multi_line: "CHR '';'' \<notin> set st \<Longrightarrow> boundary_of (multi_line st b) = Some (st, b)"
proof -
  assume "CHR '';'' \<notin> set st"
  then have "Index (st @ ''; boundary='' @ [CHR 0x22] @ b @ [CHR 0x22]) ''; boundary='' = Some (length st)"
    by (rule Index_append)
  then show ?thesis by (simp add: boundary_of_def multi_line_def HasPrefix_def Let_def butlast_append)
qed

lemma parts_of_skip:
  assumes "\<forall>l \<in> set p. \<not> HasPrefix l (''--'' @ b)"
  shows "parts_of b (p @ ls) = (case parts_of b ls of Some (q # qs) \<Rightarrow> Some ((p @ q) # qs) | _ \<Rightarrow> None)"
  using assms
proof (induction p)
  case Nil
  have "parts_of b ls \<noteq> Some []" by (induction ls) (auto split: option.splits list.splits)
  then show ?case by (auto split: option.splits list.splits)
next
  case (Cons l p)
  have "HasPrefix l (''--'' @ b @ ''--'') \<Longrightarrow> HasPrefix l (''--'' @ b)"
    by (auto simp: HasPrefix_iff)
  with Cons show ?case by (auto split: option.splits list.splits)
qed

lemma parts_of_render:
  assumes "\<forall>p \<in> set ps. \<forall>l \<in> set p. \<not> HasPrefix l (''--'' @ b)"
  shows "parts_of b (concat (map (\<lambda>p. (''--'' @ b) # p) ps) @ [''--'' @ b @ ''--'']) = Some ([] # ps)"
  using assms
proof (induction ps)
  case Nil
  show ?case by (simp add: HasPrefix_def)
next
  case (Cons p ps)
  have "\<not> HasPrefix (''--'' @ b) (''--'' @ b @ ''--'')" "HasPrefix (''--'' @ b) (''--'' @ b)"
    by (auto simp: HasPrefix_def)
  with Cons show ?case by (simp add: parts_of_skip)
qed

text \<open>In a well-formed tree only the delimiter lines look like delimiters.\<close>

lemma delim_prefix: "HasPrefix l (''--'' @ generateBoundary d) \<Longrightarrow> HasPrefix l ''--_=_''"
  by (auto simp: HasPrefix_iff generateBoundary_def)

lemma plines_delims:
  assumes "tree_ok p" "l \<in> set (plines p)" "HasPrefix l ''--_=_''"
  shows "\<exists>b \<in> set (boundaries p). l = ''--'' @ b \<or> l = ''--'' @ b @ ''--''"
  using assms
proof (induction p)
  case (Multi st b ps)
  from Multi.prems(3) have "l \<noteq> multi_line st b" "l \<noteq> []"
    by (auto simp: multi_line_def HasPrefix_def)
  with Multi.prems(2) consider "l = ''--'' @ b" | "l = ''--'' @ b @ ''--''"
    | p where "p \<in> set ps" "l \<in> set (plines p)" by (auto split: if_splits)
  then show ?case
  proof cases
    case 3
    moreover have "tree_ok p" using Multi.prems(1) 3(1) by (simp add: list_all_iff)
    ultimately show ?thesis using Multi.IH [of p] Multi.prems(3) by auto
  qed auto
qed (auto simp: leaf_ok_def)

lemma tree_boundaries: "tree_ok p \<Longrightarrow> b \<in> set (boundaries p) \<Longrightarrow> \<exists>d. b = generateBoundary d"
  by (induction p) (auto simp: list_all_iff)

lemma part_separated:
  assumes "tree_ok p" "b \<notin> set (boundaries p)" "b = generateBoundary e" "l \<in> set (plines p)"
  shows "\<not> HasPrefix l (''--'' @ b)"
proof
  assume pre: "HasPrefix l (''--'' @ b)"
  then obtain b' where b': "b' \<in> set (boundaries p)" "l = ''--'' @ b' \<or> l = ''--'' @ b' @ ''--''"
    using plines_delims [OF assms(1,4)] delim_prefix assms(3) by blast
  then obtain d where d: "b' = generateBoundary d" using tree_boundaries [OF assms(1)] by blast
  from pre b'(2) have "\<exists>t. HasPrefix (b' @ t) b"
    by (auto simp: HasPrefix_iff) (metis append_Nil2)
  then have "generateID d = generateID e" unfolding assms(3) d using boundary_prefix by blast
  with assms(2,3) b'(1) d show False by (simp add: generateBoundary_def)
qed

lemma those_map_Some: "\<forall>x \<in> set xs. f x = Some (g x) \<Longrightarrow> those (map f xs) = Some (map g xs)"
  by (induction xs) auto

lemma mime_parse_plines:
  assumes "tree_ok p" "distinct (boundaries p)" "depth p \<le> k"
  shows "mime_parse k (plines p) = Some p"
  using assms
proof (induction p arbitrary: k)
  case (Leaf ls)
  then obtain l l' ls' k' where "ls = l # l' # ls'" "l' \<noteq> []" "k = Suc k'"
    by (auto simp: leaf_ok_def) (metis Suc_le_D)
  then show ?case by (cases l') auto
next
  case (Multi st b ps)
  obtain k' where k: "k = Suc k'" using Multi.prems(3) by (cases k) auto
  from Multi.prems(1) obtain d where b: "b = generateBoundary d" and st: "CHR '';'' \<notin> set st" by auto
  have sub: "tree_ok p" "distinct (boundaries p)" "depth p \<le> k'" "b \<notin> set (boundaries p)"
    if "p \<in> set ps" for p
  proof -
    show "tree_ok p" "b \<notin> set (boundaries p)" using Multi.prems(1,2) that by (auto simp: list_all_iff)
    show "distinct (boundaries p)" using Multi.prems(2) that by (auto simp: distinct_concat_iff)
    show "depth p \<le> k'" using Multi.prems(3) k that by simp
  qed
  have "\<forall>q \<in> set (map plines ps). \<forall>l \<in> set q. \<not> HasPrefix l (''--'' @ b)"
    using part_separated [OF sub(1) sub(4) b] by auto
  from parts_of_render [OF this]
  have "parts_of b (concat (map (\<lambda>p. (''--'' @ b) # plines p) ps) @ [''--'' @ b @ ''--''])
    = Some ([] # map plines ps)" by (simp add: comp_def)
  moreover have "those (map (mime_parse k') (map plines ps)) = Some (map id ps)"
    using Multi.IH sub(1-3) unfolding map_map by (intro those_map_Some) simp
  ultimately show ?case using k boundary_of_multi_line [OF st] by simp
qed

section \<open>The tree a message is written as\<close>

definition text_part :: "bytes \<Rightarrow> bytes \<Rightarrow> mime_part" where
  "text_part ct body = Leaf
    ((''Content-Type: '' @ ct @ ''; charset=utf-8'') # ''Content-Transfer-Encoding: quoted-printable''
     # [] # SplitCRLF (writeQuotedPrintable body))"

definition header_line :: "bytes \<Rightarrow> bool" where
  "header_line l \<longleftrightarrow> l \<noteq> [] \<and> (hd l = CHR ''C'' \<or> hd l = SP) \<and> CR \<notin> set l"

text \<open>
  A part that carries an attachment: header lines, an empty line, and lines that together
  decode to the data.
\<close>

definition att_leaf :: "attachment \<Rightarrow> mime_part \<Rightarrow> bool" where
  "att_leaf a p \<longleftrightarrow> (\<exists>hs bs. p = Leaf (hs @ [] # bs) \<and> 2 \<le> length hs \<and> (\<forall>l \<in> set hs. header_line l)
     \<and> ''Content-Transfer-Encoding: base64'' \<in> set hs
     \<and> (\<forall>l \<in> set bs. CR \<notin> set l \<and> CHR ''-'' \<notin> set l)
     \<and> DecodeString (concat bs) = Some (att_Data a))"

definition is_content :: "message \<Rightarrow> mime_part \<Rightarrow> bool" where
  "is_content m p \<longleftrightarrow>
     (if msg_textBody m \<noteq> [] \<and> msg_htmlBody m \<noteq> [] then
        (\<exists>b. p = Multi ''alternative'' b
           [text_part ''text/plain'' (msg_textBody m), text_part ''text/html'' (msg_htmlBody m)])
      else if msg_htmlBody m \<noteq> [] then p = text_part ''text/html'' (msg_htmlBody m)
      else p = text_part ''text/plain'' (msg_textBody m))"

definition is_related :: "message \<Rightarrow> attachment list \<Rightarrow> mime_part \<Rightarrow> bool" where
  "is_related m inl p \<longleftrightarrow>
     (\<exists>b c as. p = Multi ''related'' b (c # as) \<and> is_content m c \<and> list_all2 att_leaf inl as)"

definition is_body :: "message \<Rightarrow> mime_part \<Rightarrow> bool" where
  "is_body m p \<longleftrightarrow>
     (let inl = filter att_Inline (msg_attachments m);
          reg = filter (\<lambda>a. \<not> att_Inline a) (msg_attachments m) in
      if msg_attachments m = [] then
        (if msg_textBody m = [] \<and> msg_htmlBody m = []
         then p = Leaf [''Content-Type: text/plain; charset=utf-8'', ''Content-Transfer-Encoding: 7bit'', []]
         else is_content m p)
      else if reg = [] then is_related m inl p
      else (\<exists>b c as. p = Multi ''mixed'' b (c # as)
              \<and> (if inl \<noteq> [] then is_related m inl c else is_content m c) \<and> list_all2 att_leaf reg as))"

text \<open>
  \<open>renders R n s p k\<close>: \<open>s\<close> is the text of the well-formed tree \<open>p\<close>, whose boundaries are the
  draws from \<open>n\<close> up to \<open>k\<close>.
\<close>

definition renders :: "(nat \<Rightarrow> draw) \<Rightarrow> nat \<Rightarrow> bytes \<Rightarrow> mime_part \<Rightarrow> nat \<Rightarrow> bool" where
  "renders R n s p k \<longleftrightarrow> n \<le> k \<and> s = unlines (plines p) \<and> tree_ok p
     \<and> boundaries p = map (\<lambda>i. generateBoundary (R i)) [n..<k]"

subsection \<open>Text parts\<close>

lemma unlines_SplitCRLF: "unlines (SplitCRLF s) = s @ CRLF"
proof -
  have "unlines ws = Join ws CRLF @ CRLF" if "ws \<noteq> []" for ws
    using that by (induction ws CRLF rule: Join.induct) auto
  then show ?thesis by (simp add: Join_SplitCRLF)
qed

lemma writeTextPart_lines: "writeTextPart ct body = unlines (plines (text_part ct body))"
  by (simp add: writeTextPart_def text_part_def unlines_SplitCRLF)

lemma eq_us_not_delim: "eq_us_free l \<Longrightarrow> \<not> HasPrefix l ''--_=_''"
  by (auto simp: HasPrefix_iff)

lemma text_part_ok: "CR \<notin> set ct \<Longrightarrow> tree_ok (text_part ct body)"
proof -
  have "\<forall>l \<in> set (SplitCRLF (writeQuotedPrintable body)). CR \<notin> set l \<and> \<not> HasPrefix l ''--_=_''"
    using writeQuotedPrintable_lines [of _ body] writeQuotedPrintable_line_eq_us [of _ body] eq_us_not_delim
    by (fastforce simp: qp_text_def list_all_iff)
  then show "CR \<notin> set ct \<Longrightarrow> tree_ok (text_part ct body)"
    by (auto simp: text_part_def leaf_ok_def HasPrefix_def)
qed

lemma text_part_simps [simp]:
  "boundaries (text_part ct body) = []" "depth (text_part ct body) = 1"
  by (simp_all add: text_part_def)

subsection \<open>Attachment parts\<close>

lemma segments_unlines: "segs \<noteq> [] \<Longrightarrow>
    p @ Join segs FWS @ CRLF = unlines ((p @ hd segs) # map ((#) SP) (tl segs))"
proof (induction segs arbitrary: p)
  case (Cons w ws)
  show ?case
  proof (cases ws)
    case (Cons v vs)
    with Cons.IH [of "[SP]"] show ?thesis by simp
  qed simp
qed simp

lemma foldHeaderLine_lines:
  assumes "foldHeaderLine name v = Inr out" "length name \<le> 900" "name \<noteq> []" "hd name = CHR ''C''"
  shows "\<exists>ls. out = unlines ls \<and> ls \<noteq> [] \<and> (\<forall>x \<in> set ls. header_line x)"
proof (rule foldHeaderLine_Inr [OF assms(1)])
  show "v \<noteq> [] \<or> length name \<le> 996" using assms(2) by simp
next
  fix segs
  assume name: "isValidHeaderName name" and
    "fold_segments (length name + 2) v (drop (length name + 2) out) segs" and
    out: "out = name @ '': '' @ Join segs FWS @ CRLF"
  then have segs: "segs \<noteq> []" "\<forall>s \<in> set segs. no_CRLF s" unfolding fold_segments_def by blast+
  let ?ls = "((name @ '': '') @ hd segs) # map ((#) SP) (tl segs)"
  have "out = unlines ?ls"
    using segments_unlines [OF segs(1), of "name @ '': ''"] unfolding out by (simp only: append_assoc)
  moreover have "\<forall>x \<in> set ?ls. header_line x"
    using segs isValidHeaderName_no_CRLF [OF name] assms(3,4)
    by (cases segs; cases name) (auto simp: header_line_def)
  ultimately show ?thesis by blast
qed

lemma EncodeToString_no_dash: "CHR ''-'' \<notin> set (EncodeToString s)"
proof -
  have no: "n < 64 \<Longrightarrow> b64_char n \<noteq> CHR ''-''" for n
    using b64_val_char [of n] by (auto simp: b64_val_def)
  show ?thesis
    by (induction s rule: EncodeToString.induct) (auto simp: no no [symmetric] b64_arith)
qed

lemma base64_lines_unlines: "\<exists>bs. base64_lines s = unlines bs \<and> concat bs = s"
proof (induction s rule: base64_lines.induct)
  case (2 c s)
  let ?n = "if maxBase64LineLength > length (c # s) then length (c # s) else maxBase64LineLength"
  from 2 obtain bs where "base64_lines (drop ?n (c # s)) = unlines bs" "concat bs = drop ?n (c # s)"
    by blast
  then show ?case
    by (intro exI [of _ "take ?n (c # s) # bs"])
       (simp only: base64_lines.simps(2) Let_def unlines_simps concat.simps append_take_drop_id simp_thms)
qed (auto intro!: exI [of _ "[]"])

lemma writeBase64_unlines:
  obtains bs where "writeBase64 data = unlines bs" "DecodeString (concat bs) = Some data"
    "\<forall>l \<in> set bs. CR \<notin> set l \<and> CHR ''-'' \<notin> set l"
proof -
  obtain bs where bs: "writeBase64 data = unlines bs" "concat bs = EncodeToString data"
    using base64_lines_unlines [of "EncodeToString data"] by (auto simp: writeBase64_def)
  have "CR \<notin> set (concat bs)" "CHR ''-'' \<notin> set (concat bs)"
    unfolding bs(2) using EncodeToString_no_dash EncodeToString_plain by fastforce+
  then have "\<forall>l \<in> set bs. CR \<notin> set l \<and> CHR ''-'' \<notin> set l" by auto
  with that bs show thesis by (simp add: DecodeString_Encode)
qed

lemma normalizeContentID_Inr:
  "normalizeContentID cid = Inr c \<Longrightarrow> c \<noteq> [] \<and> no_CRLF c \<and> length c \<le> 984"
  by (auto simp: normalizeContentID_def Let_def hasCRLF_iff split: if_splits)

lemma att_cid_line_lines:
  assumes "att_cid_line R a n = (Inr s, n')"
  shows "n \<le> n' \<and> (\<exists>ls. s = unlines ls \<and> (\<forall>l \<in> set ls. header_line l))"
proof -
  have line: "\<exists>ls. s = unlines ls \<and> (\<forall>l \<in> set ls. header_line l)"
    if "bindE (normalizeContentID cid) (\<lambda>c. Inr (''Content-ID: <'' @ c @ ''>'' @ CRLF)) = Inr s" for cid
  proof -
    from that obtain c where c: "no_CRLF c" "s = ''Content-ID: <'' @ c @ ''>'' @ CRLF"
      by (auto simp: bindE_eq_Inr dest: normalizeContentID_Inr)
    then have "s = unlines [''Content-ID: <'' @ c @ ''>'']" "header_line (''Content-ID: <'' @ c @ ''>'')"
      by (simp_all add: header_line_def)
    then show ?thesis by (intro exI [of _ "[''Content-ID: <'' @ c @ ''>'']"]) simp
  qed
  have "\<exists>ls. [] = unlines ls \<and> (\<forall>l \<in> set ls. header_line l)" by (rule exI [of _ "[]"]) simp
  with line assms show ?thesis by (auto simp: att_cid_line_def Let_def split: if_splits)
qed

lemma att_leafI:
  assumes "\<forall>l \<in> set hs. header_line l" "\<forall>l \<in> set ks. header_line l" "hs \<noteq> []"
    and "s = unlines hs @ unlines [''Content-Transfer-Encoding: base64''] @ unlines ks @ CRLF @ writeBase64 (att_Data a)"
  shows "\<exists>p. att_leaf a p \<and> s = unlines (plines p)"
proof -
  obtain bs where bs: "writeBase64 (att_Data a) = unlines bs" "DecodeString (concat bs) = Some (att_Data a)"
    "\<forall>l \<in> set bs. CR \<notin> set l \<and> CHR ''-'' \<notin> set l" using writeBase64_unlines by blast
  let ?hs = "hs @ [''Content-Transfer-Encoding: base64''] @ ks"
  have "header_line ''Content-Transfer-Encoding: base64''" by (simp add: header_line_def)
  then have "att_leaf a (Leaf (?hs @ [] # bs))"
    unfolding att_leaf_def using assms bs by (intro exI [of _ ?hs] exI [of _ bs]) (cases hs; auto)
  with assms(4) bs(1) show ?thesis by (intro exI [of _ "Leaf (?hs @ [] # bs)"]) simp
qed

lemma writeAttachmentPart_leaf:
  assumes "writeAttachmentPart L R a n = (Inr s, n')"
  shows "n \<le> n' \<and> (\<exists>p. att_leaf a p \<and> s = unlines (plines p))"
proof -
  let ?disp = "if att_Inline a then ''inline'' else ''attachment''"
  from assms obtain ct v cid disp k where
    ct: "foldHeaderLine ''Content-Type'' v = Inr ct" and
    cid: "att_cid_line R a n = (Inr cid, n')" and
    disp: "(if att_Filename a \<noteq> [] then wlift (foldHeaderLine ''Content-Disposition''
             (formatMediaTypeHeaderValue (nl_unicode L) ?disp [(''filename'', att_Filename a)]))
            else wlit (''Content-Disposition: '' @ ?disp @ CRLF)) k = (Inr disp, k)" and
    s: "s = ct @ (''Content-Transfer-Encoding: base64'' @ CRLF) @ cid @ disp @ CRLF @ writeBase64 (att_Data a)"
    by (auto simp: writeAttachmentPart_def Let_def wseq_Inr split: if_splits sum.splits)
  obtain hs where h: "ct = unlines hs" "hs \<noteq> []" "\<forall>x \<in> set hs. header_line x"
    using foldHeaderLine_lines [OF ct] by auto
  have "\<exists>ks. disp = unlines ks \<and> (\<forall>l \<in> set ks. header_line l)"
  proof (cases "att_Filename a = []")
    case True
    with disp show ?thesis
      by (intro exI [of _ "[''Content-Disposition: '' @ ?disp]"]) (auto simp: header_line_def split: if_splits)
  next
    case False
    with disp foldHeaderLine_lines [of "''Content-Disposition''" _ disp] show ?thesis by auto
  qed
  then obtain ks where ks: "disp = unlines ks" "\<forall>l \<in> set ks. header_line l" by blast
  obtain cs where cs: "n \<le> n'" "cid = unlines cs" "\<forall>l \<in> set cs. header_line l"
    using att_cid_line_lines [OF cid] by blast
  have "\<exists>p. att_leaf a p \<and> s = unlines (plines p)"
    using h ks cs by (intro att_leafI [of hs "cs @ ks"]) (auto simp: s)
  with cs(1) show ?thesis by blast
qed

lemma att_leaf_ok: "att_leaf a p \<Longrightarrow> tree_ok p \<and> boundaries p = [] \<and> depth p = 1"
proof -
  assume "att_leaf a p"
  then obtain hs bs where p: "p = Leaf (hs @ [] # bs)" "2 \<le> length hs" "\<forall>l \<in> set hs. header_line l"
    "\<forall>l \<in> set bs. CR \<notin> set l \<and> CHR ''-'' \<notin> set l" by (auto simp: att_leaf_def)
  obtain l l' hs' where hs: "hs = l # l' # hs'"
    using p(2) by (cases hs; cases "tl hs") auto
  have "\<not> HasPrefix x ''--_=_''" if "header_line x \<or> CHR ''-'' \<notin> set x \<or> x = []" for x
    using that by (auto simp: HasPrefix_iff header_line_def)
  with p hs show ?thesis by (auto simp: leaf_ok_def header_line_def)
qed

lemma att_leaves_ok:
  assumes "list_all2 att_leaf as ps"
  shows "list_all tree_ok ps" "concat (map boundaries ps) = []" "\<forall>p \<in> set ps. depth p = 1"
  using assms by (induction rule: list_all2_induct) (auto dest: att_leaf_ok)

lemma write_parts_leaves:
  assumes "write_parts L R b as n = (Inr s, n')"
  shows "n \<le> n' \<and> (\<exists>ps. list_all2 att_leaf as ps \<and> s = unlines (concat (map (\<lambda>p. (''--'' @ b) # plines p) ps)))"
  using assms unfolding write_parts_def
proof (induction as arbitrary: n s)
  case (Cons a as)
  then obtain t u k where a: "writeAttachmentPart L R a n = (Inr t, k)" and
    as: "wall (map (\<lambda>a. wseq (wlit (openBoundary b)) (writeAttachmentPart L R a)) as) k = (Inr u, n')"
    and s: "s = openBoundary b @ t @ u" by (auto simp: wseq_Inr)
  obtain p where p: "att_leaf a p" "t = unlines (plines p)" "n \<le> k"
    using writeAttachmentPart_leaf [OF a] by blast
  obtain ps where ps: "list_all2 att_leaf as ps" "k \<le> n'"
    "u = unlines (concat (map (\<lambda>p. (''--'' @ b) # plines p) ps))" using Cons.IH [OF as] by blast
  show ?case using p ps s by (auto intro!: exI [of _ "p # ps"] simp: openBoundary_def)
qed (auto intro!: exI [of _ "[]"])

subsection \<open>Composition\<close>

lemma renders_text: "CR \<notin> set ct \<Longrightarrow> renders R n (writeTextPart ct body) (text_part ct body) n"
  by (simp add: renders_def text_part_ok writeTextPart_lines)

text \<open>A multipart entity: its header, the first part and the attachment parts.\<close>

lemma renders_multi:
  assumes "renders R (Suc n) t p k" "list_all2 att_leaf as ps"
    and "st \<in> {''mixed'', ''related'', ''alternative''}"
    and "u = unlines (concat (map (\<lambda>p. (''--'' @ generateBoundary (R n)) # plines p) ps))"
  shows "renders R n (writeMultipartHeader U st (generateBoundary (R n)) @ openBoundary (generateBoundary (R n))
      @ t @ u @ closeBoundary (generateBoundary (R n))) (Multi st (generateBoundary (R n)) (p # ps)) k"
proof -
  have "[n..<k] = n # [Suc n..<k]" using assms(1) by (simp add: renders_def upt_rec)
  with assms att_leaves_ok [OF assms(2)] show ?thesis
    by (auto simp: renders_def writeMultipartHeader_lines openBoundary_def closeBoundary_def)
qed

lemma renders_alternative:
  "renders R n (writeMultipartHeader U ''alternative'' (generateBoundary (R n))
      @ openBoundary (generateBoundary (R n)) @ writeTextPart ''text/plain'' a
      @ openBoundary (generateBoundary (R n)) @ writeTextPart ''text/html'' b
      @ closeBoundary (generateBoundary (R n)))
    (Multi ''alternative'' (generateBoundary (R n)) [text_part ''text/plain'' a, text_part ''text/html'' b]) (Suc n)"
  by (auto simp: renders_def writeMultipartHeader_lines openBoundary_def closeBoundary_def text_part_ok
      writeTextPart_lines)

lemma writeContentBody_tree:
  assumes "writeContentBody L R m n = (Inr s, n')"
  shows "\<exists>p. renders R n s p n' \<and> is_content m p \<and> depth p \<le> 2"
proof (cases "msg_textBody m \<noteq> [] \<and> msg_htmlBody m \<noteq> []")
  case True
  with assms have "n' = Suc n" and s: "s = writeMultipartHeader (nl_unicode L) ''alternative'' (generateBoundary (R n))
      @ openBoundary (generateBoundary (R n)) @ writeTextPart ''text/plain'' (msg_textBody m)
      @ openBoundary (generateBoundary (R n)) @ writeTextPart ''text/html'' (msg_htmlBody m)
      @ closeBoundary (generateBoundary (R n))"
    by (auto simp: writeContentBody_def writeAlternative_def Let_def wseq_Inr)
  then have "renders R n s (Multi ''alternative'' (generateBoundary (R n))
      [text_part ''text/plain'' (msg_textBody m), text_part ''text/html'' (msg_htmlBody m)]) n'"
    using renders_alternative by simp
  with True show ?thesis by (auto simp: is_content_def)
next
  case False
  let ?p = "if msg_htmlBody m \<noteq> [] then text_part ''text/html'' (msg_htmlBody m)
    else text_part ''text/plain'' (msg_textBody m)"
  have "renders R n s ?p n'"
    using assms False by (auto simp: writeContentBody_def renders_text split: if_splits)
  with False show ?thesis by (auto simp: is_content_def)
qed

lemma writeRelated_tree:
  assumes "writeRelated L R m inl n = (Inr s, n')"
  shows "\<exists>p k. renders R n s p k \<and> k \<le> n' \<and> is_related m inl p \<and> depth p \<le> 3"
proof -
  let ?b = "generateBoundary (R n)"
  from assms obtain t u k where t: "writeContentBody L R m (Suc n) = (Inr t, k)"
    and u: "write_parts L R ?b inl k = (Inr u, n')"
    and s: "s = writeMultipartHeader (nl_unicode L) ''related'' ?b @ openBoundary ?b @ t @ u @ closeBoundary ?b"
    by (auto simp: writeRelated_def Let_def wseq_Inr)
  obtain p where p: "renders R (Suc n) t p k" "is_content m p" "depth p \<le> 2"
    using writeContentBody_tree [OF t] by blast
  obtain ps where ps: "list_all2 att_leaf inl ps" "k \<le> n'"
    "u = unlines (concat (map (\<lambda>p. (''--'' @ ?b) # plines p) ps))" using write_parts_leaves [OF u] by blast
  have "renders R n s (Multi ''related'' ?b (p # ps)) k"
    unfolding s by (rule renders_multi [OF p(1) ps(1) _ ps(3)]) simp
  moreover have "depth (Multi ''related'' ?b (p # ps)) \<le> 3"
    using p(3) att_leaves_ok(3) [OF ps(1)] by simp
  ultimately show ?thesis using p(2) ps(1,2) by (fastforce simp: is_related_def)
qed

lemma writeMixed_tree:
  assumes "writeMixed L R m inl reg n = (Inr s, n')" "reg \<noteq> []"
  shows "\<exists>b c as k. renders R n s (Multi ''mixed'' b (c # as)) k \<and> k \<le> n' \<and> depth (Multi ''mixed'' b (c # as)) \<le> 4
    \<and> (if inl \<noteq> [] then is_related m inl c else is_content m c) \<and> list_all2 att_leaf reg as"
proof -
  let ?b = "generateBoundary (R n)"
  from assms obtain t u k where
    t: "(if inl \<noteq> [] then writeRelated L R m inl else writeContentBody L R m) (Suc n) = (Inr t, k)"
    and u: "write_parts L R ?b reg k = (Inr u, n')"
    and s: "s = writeMultipartHeader (nl_unicode L) ''mixed'' ?b @ openBoundary ?b @ t @ u @ closeBoundary ?b"
    by (auto simp: writeMixed_def Let_def wseq_Inr)
  have "\<exists>p j. renders R (Suc n) t p j \<and> j \<le> k \<and> depth p \<le> 3 \<and> (if inl \<noteq> [] then is_related m inl p else is_content m p)"
    using t writeRelated_tree [of L R m inl "Suc n" t k] writeContentBody_tree [of L R m "Suc n" t k]
    by (fastforce split: if_splits)
  then obtain p j where p: "renders R (Suc n) t p j" "j \<le> k" "depth p \<le> 3"
    "if inl \<noteq> [] then is_related m inl p else is_content m p" by blast
  obtain ps where ps: "list_all2 att_leaf reg ps" "k \<le> n'"
    "u = unlines (concat (map (\<lambda>p. (''--'' @ ?b) # plines p) ps))" using write_parts_leaves [OF u] by blast
  have "renders R n s (Multi ''mixed'' ?b (p # ps)) j"
    unfolding s by (rule renders_multi [OF p(1) ps(1) _ ps(3)]) simp
  moreover have "depth (Multi ''mixed'' ?b (p # ps)) \<le> 4"
    using p(3) att_leaves_ok(3) [OF ps(1)] by simp
  moreover have "j \<le> n'" using p(2) ps(2) by simp
  ultimately show ?thesis using p(4) ps(1) by blast
qed

lemma writeBody_tree:
  assumes "writeBody L R m n = (Inr s, n')"
  shows "\<exists>p k t. s = ''MIME-Version: 1.0'' @ CRLF @ t \<and> renders R n t p k \<and> k \<le> n' \<and> is_body m p \<and> depth p \<le> 4"
proof -
  let ?inl = "filter att_Inline (msg_attachments m)" and ?reg = "filter (\<lambda>a. \<not> att_Inline a) (msg_attachments m)"
  consider (empty) "msg_attachments m = []" "msg_textBody m = []" "msg_htmlBody m = []"
    | (plain) "msg_attachments m = []" "msg_textBody m \<noteq> [] \<or> msg_htmlBody m \<noteq> []"
    | (related) "msg_attachments m \<noteq> []" "?reg = []" "?inl \<noteq> []"
    | (mixed) "msg_attachments m \<noteq> []" "?reg \<noteq> []"
    by (metis (no_types, lifting) filter_False list.set_intros(1) neq_Nil_conv filter_empty_conv)
  then show ?thesis
  proof cases
    case empty
    let ?p = "Leaf [''Content-Type: text/plain; charset=utf-8'', ''Content-Transfer-Encoding: 7bit'', []]"
    have "leaf_ok [''Content-Type: text/plain; charset=utf-8'', ''Content-Transfer-Encoding: 7bit'', []]"
      by (simp add: leaf_ok_def HasPrefix_def)
    with empty assms show ?thesis
      by (intro exI [of _ ?p] exI [of _ n] exI [of _ "unlines (plines ?p)"])
         (auto simp: writeBody_def wseq_Inr renders_def is_body_def)
  next
    case plain
    with assms obtain t where t: "writeContentBody L R m n = (Inr t, n')" "s = ''MIME-Version: 1.0'' @ CRLF @ t"
      by (auto simp: writeBody_def wseq_Inr partitionAttachments_def)
    obtain p where "renders R n t p n'" "is_content m p" "depth p \<le> 2"
      using writeContentBody_tree [OF t(1)] by blast
    with plain t(2) show ?thesis by (fastforce simp: is_body_def)
  next
    case related
    with assms obtain t where t: "writeRelated L R m ?inl n = (Inr t, n')" "s = ''MIME-Version: 1.0'' @ CRLF @ t"
      by (auto simp: writeBody_def wseq_Inr partitionAttachments_def writeMixed_def)
    obtain p k where "renders R n t p k" "k \<le> n'" "is_related m ?inl p" "depth p \<le> 3"
      using writeRelated_tree [OF t(1)] by blast
    with related t(2) show ?thesis by (fastforce simp: is_body_def)
  next
    case mixed
    with assms obtain t where t: "writeMixed L R m ?inl ?reg n = (Inr t, n')" "s = ''MIME-Version: 1.0'' @ CRLF @ t"
      by (auto simp: writeBody_def wseq_Inr partitionAttachments_def)
    obtain b c as k where p: "renders R n t (Multi ''mixed'' b (c # as)) k" "k \<le> n'"
      "depth (Multi ''mixed'' b (c # as)) \<le> 4"
      "if ?inl \<noteq> [] then is_related m ?inl c else is_content m c" "list_all2 att_leaf ?reg as"
      using writeMixed_tree [OF t(1) mixed(2)] by blast
    have "is_body m (Multi ''mixed'' b (c # as))" using p(4,5) mixed by (simp add: is_body_def)
    with p(1-3) t(2) show ?thesis by blast
  qed
qed

lemma plines_no_CR: "tree_ok p \<Longrightarrow> l \<in> set (plines p) \<Longrightarrow> CR \<notin> set l"
proof (induction p)
  case (Multi st b ps)
  from Multi.prems(1) obtain d where b: "b = generateBoundary d" and "CR \<notin> set st" by auto
  have "CR \<notin> set b" unfolding b using generateBoundary_plain [of CR d] by auto
  with Multi \<open>CR \<notin> set st\<close> show ?case by (auto simp: multi_line_def list_all_iff split: if_splits)
qed (auto simp: leaf_ok_def)

lemma writeBody_parse:
  assumes "writeBody L R m n = (Inr s, n')" "inj_on (generateID \<circ> R) {n..<n'}"
  shows "\<exists>p. SplitCRLF s = ''MIME-Version: 1.0'' # plines p @ [[]] \<and> mime_parse 4 (plines p) = Some p \<and> is_body m p"
proof -
  obtain p k t where s: "s = ''MIME-Version: 1.0'' @ CRLF @ t" and r: "renders R n t p k" "k \<le> n'"
    and body: "is_body m p" "depth p \<le> 4"
    using writeBody_tree [OF assms(1)] by blast
  have "inj_on (\<lambda>i. generateBoundary (R i)) {n..<k}"
    using assms(2) r(2) by (auto simp: inj_on_def generateBoundary_def)
  then have "distinct (boundaries p)" using r by (simp add: renders_def distinct_map)
  then have parse: "mime_parse 4 (plines p) = Some p"
    using mime_parse_plines r body(2) by (simp add: renders_def)
  have "s = unlines (''MIME-Version: 1.0'' # plines p) @ []" using r s by (simp add: renders_def)
  moreover have "\<forall>l \<in> set (''MIME-Version: 1.0'' # plines p). CR \<notin> set l"
    using plines_no_CR r by (auto simp: renders_def)
  ultimately have "SplitCRLF s = ''MIME-Version: 1.0'' # plines p @ [[]]"
    using SplitCRLF_unlines [of "''MIME-Version: 1.0'' # plines p" "[]"] by simp
  with parse body(1) show ?thesis by blast
qed

end
