(* ===== verification/Envelope.thy ===== *)
theory Envelope
  imports Message_Props
begin

text \<open>
  The SMTP envelope (\<^verbatim>\<open>envelope.go\<close>): sender and recipients, their validation, and how an
  envelope is derived from a message. A setter returns the envelope it leaves behind
  together with the error, since on failure the receiver may already have changed.
\<close>

record envelope =
  env_sender :: address
  env_recipients :: "address list"

definition zero_address :: address where
  "zero_address = \<lparr>addr_Name = [], addr_Address = []\<rparr>"

definition zero_envelope :: envelope where
  "zero_envelope = \<lparr>env_sender = zero_address, env_recipients = []\<rparr>"

definition SetSender :: "envelope \<Rightarrow> address \<Rightarrow> envelope \<times> goerr option" where
  "SetSender e sender =
    (if \<not> valid sender then
       (e, Some (Errorf ''%w: invalid sender address %q'' [OErr (Sentinel ErrInvalidArgument), OStr (Email sender)]))
     else if HasUnicodeLocalPart sender then
       (e, Some (Errorf ''%w: invalid sender %q: non-ASCII characters not supported in local-part of email''
                  [OErr (Sentinel ErrInvalidArgument), OStr (Email sender)]))
     else (e\<lparr>env_sender := sender\<rparr>, None))"

text \<open>
  The loop of \<^verbatim>\<open>SetRecipients\<close> over the freshly made slice: what it holds when the loop ends,
  the places after an invalid recipient still being zero.
\<close>

fun fill_recipients :: "address list \<Rightarrow> address list \<times> goerr option" where
  "fill_recipients [] = ([], None)"
| "fill_recipients (r # rs) =
    (if \<not> valid r then
       (replicate (Suc (length rs)) zero_address,
        Some (Errorf ''%w: invalid recipient address %q'' [OErr (Sentinel ErrInvalidArgument), OStr (Email r)]))
     else (case fill_recipients rs of (xs, err) \<Rightarrow> (r\<lparr>addr_Name := []\<rparr> # xs, err)))"

definition SetRecipients :: "envelope \<Rightarrow> address list \<Rightarrow> envelope \<times> goerr option" where
  "SetRecipients e recipients =
    (if recipients = [] then
       (e, Some (Errorf ''%w: an envelope must have at least one recipient'' [OErr (Sentinel ErrInvalidArgument)]))
     else (case fill_recipients recipients of (xs, err) \<Rightarrow> (e\<lparr>env_recipients := xs\<rparr>, err)))"

definition NewEnvelope :: "address \<Rightarrow> address list \<Rightarrow> goerr + envelope" where
  "NewEnvelope sender recipients =
    (case SetSender zero_envelope sender of
       (e, Some err) \<Rightarrow> Inl err
     | (e, None) \<Rightarrow> (case SetRecipients e recipients of
         (e', Some err) \<Rightarrow> Inl err
       | (e', None) \<Rightarrow> Inr e'))"

definition EnvelopeFromMessage :: "netlib \<Rightarrow> raw_message \<Rightarrow> goerr + envelope" where
  "EnvelopeFromMessage L msg =
    (if isNilRawMessage msg then
       Inl (Errorf ''%w: message must not be nil'' [OErr (Sentinel ErrInvalidArgument)])
     else case msg of
       MsgRaw m \<Rightarrow>
         (case senderFromMessageHeaders L m of
            None \<Rightarrow> Inl (Errorf ''%w: unable to determine the sender of the message'' [OErr (Sentinel ErrLogic)])
          | Some sender \<Rightarrow> NewEnvelope sender (Message_Recipients m))
     | _ \<Rightarrow> Inl (Errorf ''%w: cannot send a RawMessage without an explicit Envelope'' [OErr (Sentinel ErrLogic)]))"

definition Sender :: "envelope \<Rightarrow> address" where
  "Sender e = env_sender e"

definition Envelope_Recipients :: "envelope \<Rightarrow> address list" where
  "Envelope_Recipients e = env_recipients e"

definition AnyAddressHasUnicodeLocalPart :: "envelope \<Rightarrow> bool" where
  "AnyAddressHasUnicodeLocalPart e \<longleftrightarrow>
     HasUnicodeLocalPart (env_sender e) \<or> list_ex HasUnicodeLocalPart (env_recipients e)"

definition Envelope_Clone :: "envelope \<Rightarrow> envelope" where
  "Envelope_Clone e = \<lparr>env_sender = env_sender e, env_recipients = env_recipients e\<rparr>"

lemma Envelope_Clone_id [simp]: "Envelope_Clone e = e"
  by (simp add: Envelope_Clone_def)

lemmas envelope_eval [go_eval] =
  zero_address_def zero_envelope_def SetSender_def SetRecipients_def NewEnvelope_def
  EnvelopeFromMessage_def Sender_def Envelope_Recipients_def AnyAddressHasUnicodeLocalPart_def

section \<open>Well-formed envelopes\<close>

text \<open>
  What a constructed envelope guarantees: a valid sender whose local part is ASCII, at least
  one recipient, and only valid recipients without display names.
\<close>

definition envelope_wf :: "envelope \<Rightarrow> bool" where
  "envelope_wf e \<longleftrightarrow> valid (env_sender e) \<and> \<not> HasUnicodeLocalPart (env_sender e)
     \<and> env_recipients e \<noteq> [] \<and> (\<forall>r \<in> set (env_recipients e). valid r \<and> addr_Name r = [])"

lemma Email_nameless [simp]: "Email (r\<lparr>addr_Name := n\<rparr>) = Email r"
  by (simp add: Email_def)

lemma valid_nameless [simp]: "valid (r\<lparr>addr_Name := n\<rparr>) = valid r"
  by (simp add: valid_def)

lemma fill_recipients_ok:
  "\<forall>r \<in> set rs. valid r \<Longrightarrow> fill_recipients rs = (map (\<lambda>r. r\<lparr>addr_Name := []\<rparr>) rs, None)"
  by (induction rs) auto

lemma fill_recipients_bad:
  assumes "\<forall>r \<in> set as. valid r" "\<not> valid r"
  shows "fill_recipients (as @ r # bs) =
    (map (\<lambda>r. r\<lparr>addr_Name := []\<rparr>) as @ replicate (Suc (length bs)) zero_address,
     Some (Errorf ''%w: invalid recipient address %q'' [OErr (Sentinel ErrInvalidArgument), OStr (Email r)]))"
  using assms by (induction as) auto

lemma fill_recipients_None: "snd (fill_recipients rs) = None \<longleftrightarrow> (\<forall>r \<in> set rs. valid r)"
  by (induction rs) (auto split: prod.splits)

lemma NewEnvelope_Inr:
  "NewEnvelope s rs = Inr e \<longleftrightarrow>
    valid s \<and> \<not> HasUnicodeLocalPart s \<and> rs \<noteq> [] \<and> (\<forall>r \<in> set rs. valid r)
    \<and> e = \<lparr>env_sender = s, env_recipients = map (\<lambda>r. r\<lparr>addr_Name := []\<rparr>) rs\<rparr>"
proof -
  have "fill_recipients rs = (xs, None) \<longleftrightarrow>
      (\<forall>r \<in> set rs. valid r) \<and> xs = map (\<lambda>r. r\<lparr>addr_Name := []\<rparr>) rs" for xs
    using fill_recipients_None [of rs] fill_recipients_ok [of rs] by auto
  moreover have "snd (fill_recipients rs) = None \<or> (\<exists>err. snd (fill_recipients rs) = Some err)" by auto
  ultimately show ?thesis using fill_recipients_None [of rs]
    by (auto simp: NewEnvelope_def SetSender_def SetRecipients_def zero_envelope_def
        split: prod.splits option.splits if_splits)
qed

lemma NewEnvelope_wf: "NewEnvelope s rs = Inr e \<Longrightarrow> envelope_wf e"
  by (auto simp: NewEnvelope_Inr envelope_wf_def)

lemma fill_recipients_class: "snd (fill_recipients rs) = Some err \<Longrightarrow> errors_Is err ErrInvalidArgument"
  by (induction rs) (auto split: prod.splits if_splits)

lemma NewEnvelope_Inl: "NewEnvelope s rs = Inl err \<Longrightarrow> errors_Is err ErrInvalidArgument"
  using fill_recipients_class [of rs err]
  by (auto simp: NewEnvelope_def SetSender_def SetRecipients_def split: prod.splits option.splits if_splits)

lemma EnvelopeFromMessage_wf: "EnvelopeFromMessage L msg = Inr e \<Longrightarrow> envelope_wf e"
  by (auto simp: EnvelopeFromMessage_def NewEnvelope_wf split: raw_message.splits option.splits if_splits)

lemma EnvelopeFromMessage_recipients:
  "EnvelopeFromMessage L (MsgRaw m) = Inr e \<Longrightarrow> map Email (env_recipients e) = map Email (Message_Recipients m)"
  by (auto simp: EnvelopeFromMessage_def NewEnvelope_Inr comp_def split: option.splits if_splits)

end
