(* ===== verification/Base_Transport.thy ===== *)
theory Base_Transport
  imports Envelope Complex_Main
begin

text \<open>
  The result of a send (\<^verbatim>\<open>sentmessage.go\<close>), the transport interface and the shared send
  pipeline with its throttle (\<^verbatim>\<open>transport.go\<close>).

  Everything outside the program lives in a world \<open>'w\<close>: the connections and child transports,
  the clock, the context and the random source. \<open>sys\<close> reads it; time passes, and a context
  ends, where the program waits or calls out, which returns the next world.
\<close>

section \<open>The system\<close>

record 'w sys =
  sys_lib :: netlib
  ctx_Err :: "'w \<Rightarrow> goerr option"
  Now :: "'w \<Rightarrow> gotime"
  sleep_or_done :: "duration \<Rightarrow> 'w \<Rightarrow> goerr option \<times> 'w"
  rand_stream :: "'w \<Rightarrow> nat \<Rightarrow> draw"
  rand_used :: "nat \<Rightarrow> 'w \<Rightarrow> 'w"
  second_div :: "rat \<Rightarrow> duration"

text \<open>
  \<open>sleep_or_done d\<close> is the \<^verbatim>\<open>select\<close> between a timer and \<^verbatim>\<open>ctx.Done()\<close>: \<open>None\<close> when the timer
  fired, otherwise \<^verbatim>\<open>ctx.Err()\<close>. \<open>second_div r\<close> is
  \<^verbatim>\<open>time.Duration(float64(time.Second) / r)\<close>, IEEE division and truncation.

  \<^verbatim>\<open>Time.Sub\<close> saturates at the range of a \<^verbatim>\<open>Duration\<close>.
\<close>

definition time_Sub :: "int \<Rightarrow> int \<Rightarrow> duration" where
  "time_Sub a b = max (- (2 ^ 63)) (min (2 ^ 63 - 1) (a - b))"

definition now_nanos :: "'w sys \<Rightarrow> 'w \<Rightarrow> int" where
  "now_nanos S w = t_nanos (Now S w)"

section \<open>Sent messages\<close>

record sent =
  sm_raw :: bytes
  sm_envelope :: "envelope option"
  sm_messageID :: bytes
  sm_debug :: bytes

definition cloneEnvelope :: "envelope option \<Rightarrow> envelope option" where
  "cloneEnvelope e = map_option Envelope_Clone e"

lemma cloneEnvelope_id [simp]: "cloneEnvelope e = e"
  by (cases e) (simp_all add: cloneEnvelope_def)

definition SetMessageID :: "sent \<Rightarrow> bytes \<Rightarrow> sent" where
  "SetMessageID s mid = s\<lparr>sm_messageID := mid\<rparr>"

definition AppendDebug :: "sent \<Rightarrow> bytes \<Rightarrow> sent" where
  "AppendDebug s b = s\<lparr>sm_debug := sm_debug s @ b\<rparr>"

text \<open>\<^verbatim>\<open>Bytes\<close> of an interface value that is not a \<^verbatim>\<open>*Message\<close>.\<close>

fun raw_Bytes :: "raw_message \<Rightarrow> goerr + bytes" where
  "raw_Bytes (BytesRaw data) = Inr data"
| "raw_Bytes (CustomRaw r) = r"
| "raw_Bytes _ = Inr []"

definition NewSentMessage :: "'w sys \<Rightarrow> raw_message \<Rightarrow> envelope option \<Rightarrow> 'w \<Rightarrow> (goerr + sent) \<times> 'w" where
  "NewSentMessage S msg envelope w =
    (if isNilRawMessage msg then
       (Inl (Errorf ''%w: message must not be nil'' [OErr (Sentinel ErrInvalidArgument)]), w)
     else case msg of
       MsgRaw m \<Rightarrow>
         (let m = Message_Clone m in
          case EnsureValidity m of
            Some err \<Rightarrow> (Inl err, w)
          | None \<Rightarrow>
              (case MessageID (sys_lib S) (rand_stream S w) (Now S w) m 0 of
                 (messageID, m', n) \<Rightarrow>
                   (case Message_Bytes (sys_lib S) (rand_stream S w) (Now S w) m' n of
                      (Inl err, _, n') \<Rightarrow> (Inl err, rand_used S n' w)
                    | (Inr raw, _, n') \<Rightarrow>
                        (Inr \<lparr>sm_raw = raw, sm_envelope = cloneEnvelope envelope, sm_messageID = messageID,
                              sm_debug = []\<rparr>, rand_used S n' w))))
     | _ \<Rightarrow>
         (case raw_Bytes msg of
            Inl err \<Rightarrow> (Inl err, w)
          | Inr raw \<Rightarrow> (Inr \<lparr>sm_raw = raw, sm_envelope = cloneEnvelope envelope, sm_messageID = [], sm_debug = []\<rparr>, w)))"

section \<open>The transport interface\<close>

text \<open>
  What \<^verbatim>\<open>Send\<close> returns: an error, a sent message, or \<^verbatim>\<open>nil, nil\<close> (a middleware dropped the
  message). A call also returns what it left of the message and the envelope it was handed.
\<close>

type_synonym outcome = "goerr + sent option"

record 'w transport =
  tr_Send :: "raw_message \<Rightarrow> envelope option \<Rightarrow> 'w \<Rightarrow> outcome \<times> raw_message \<times> envelope option \<times> 'w"
  tr_String :: bytes
  tr_Close :: "('w \<Rightarrow> goerr option \<times> 'w) option"

section \<open>BaseTransport\<close>

text \<open>A delivery hook that panics is \<open>None\<close>, and so is the send it is called from.\<close>

record 'w base_transport =
  bt_Name :: bytes
  bt_DoSend :: "(sent \<Rightarrow> 'w \<Rightarrow> (goerr option \<times> sent \<times> 'w) option) option"
  bt_maxPerSecond :: rat
  bt_lastSent :: gotime

definition wrapTransportError :: "goerr \<Rightarrow> goerr" where
  "wrapTransportError err =
    (if errors_Is err ContextCanceled \<or> errors_Is err ContextDeadlineExceeded then err
     else if errors_As err \<noteq> None then err
     else if errors_Is err ErrTransport then err
     else te_set_Cause (NewTransportError ''send failed'') err)"

definition SetMaxPerSecond :: "'w base_transport \<Rightarrow> rat \<Rightarrow> 'w base_transport" where
  "SetMaxPerSecond b rate =
    (let rate = (if rate \<le> 0 then 0 else rate) in b\<lparr>bt_maxPerSecond := rate, bt_lastSent := zero_time\<rparr>)"

definition checkThrottling ::
  "'w sys \<Rightarrow> 'w base_transport \<Rightarrow> 'w \<Rightarrow> goerr option \<times> 'w base_transport \<times> 'w" where
  "checkThrottling S b w =
    (if bt_maxPerSecond b = 0 then (ctx_Err S w, b, w)
     else
       (let interval = second_div S (bt_maxPerSecond b);
            sleep = interval - time_Sub (now_nanos S w) (t_nanos (bt_lastSent b));
            stamp = (\<lambda>w. (ctx_Err S w, b\<lparr>bt_lastSent := Now S w\<rparr>, w)) in
        if \<not> IsZero (bt_lastSent b) \<and> 0 < sleep then
          (case sleep_or_done S sleep w of
             (Some err, w') \<Rightarrow> (Some err, b, w')
           | (None, w') \<Rightarrow> stamp w')
        else stamp w))"

definition base_Send ::
  "'w sys \<Rightarrow> 'w base_transport \<Rightarrow> raw_message \<Rightarrow> envelope option \<Rightarrow> 'w
     \<Rightarrow> (outcome \<times> 'w base_transport \<times> 'w) option" where
  "base_Send S b msg envelope w =
    (case ctx_Err S w of
       Some err \<Rightarrow> Some (Inl err, b, w)
     | None \<Rightarrow>
     if isNilRawMessage msg then
       Some (Inl (Errorf ''%w: message must not be nil'' [OErr (Sentinel ErrInvalidArgument)]), b, w)
     else
       (let msg = (case msg of MsgRaw m \<Rightarrow> MsgRaw (Message_Clone m) | _ \<Rightarrow> msg) in
        case (case envelope of None \<Rightarrow> EnvelopeFromMessage (sys_lib S) msg | Some e \<Rightarrow> Inr (Envelope_Clone e)) of
          Inl err \<Rightarrow> Some (Inl err, b, w)
        | Inr envelope \<Rightarrow>
            (case NewSentMessage S msg (Some envelope) w of
               (Inl err, w) \<Rightarrow> Some (Inl err, b, w)
             | (Inr sm, w) \<Rightarrow>
                 (case bt_DoSend b of
                    None \<Rightarrow> Some (Inl (Errorf ''%w: BaseTransport.DoSend is nil'' [OErr (Sentinel ErrLogic)]), b, w)
                  | Some DoSend \<Rightarrow>
                      (case checkThrottling S b w of
                         (Some err, b, w) \<Rightarrow> Some (Inl err, b, w)
                       | (None, b, w) \<Rightarrow>
                           (case DoSend sm w of
                              None \<Rightarrow> None
                            | Some (Some err, sm, w) \<Rightarrow> Some (Inl (wrapTransportError err), b, w)
                            | Some (None, sm, w) \<Rightarrow> Some (Inr (Some sm), b, w)))))))"

lemmas base_eval [go_eval] =
  time_Sub_def now_nanos_def SetMessageID_def AppendDebug_def NewSentMessage_def
  wrapTransportError_def SetMaxPerSecond_def checkThrottling_def base_Send_def

section \<open>Facts\<close>

lemma wrapTransportError_class:
  "errors_Is (wrapTransportError e) ErrTransport \<or> errors_Is (wrapTransportError e) ContextCanceled
     \<or> errors_Is (wrapTransportError e) ContextDeadlineExceeded"
  using errors_As_imp_Is [of e]
  by (auto simp: wrapTransportError_def NewTransportError_def)

lemma wrapTransportError_keeps: "errors_Is e t \<Longrightarrow> errors_Is (wrapTransportError e) t"
  by (auto simp: wrapTransportError_def NewTransportError_def)

lemma wrapTransportError_idem: "wrapTransportError (wrapTransportError e) = wrapTransportError e"
  by (auto simp: wrapTransportError_def NewTransportError_def)

lemma NewSentMessage_Inr:
  assumes "NewSentMessage S msg env w = (Inr sm, w')"
  shows "sm_envelope sm = env \<and> msg \<noteq> NilRaw \<and> (\<forall>m. msg = MsgRaw m \<longrightarrow> EnsureValidity m = None)"
  using assms
  by (auto simp: NewSentMessage_def isNilRawMessage_def Let_def
      split: if_splits raw_message.splits option.splits prod.splits sum.splits)

text \<open>
  When \<^verbatim>\<open>Send\<close> reports success the delivery hook ran on a sent message with the right
  envelope, and it reported no error.
\<close>

lemma base_Send_Inr:
  assumes "base_Send S b msg env w = Some (Inr r, b', w')"
  obtains sm sm' e w1 w2 DoSend where
    "r = Some sm'" "bt_DoSend b = Some DoSend" "DoSend sm w2 = Some (None, sm', w')"
    "NewSentMessage S msg (Some e) w = (Inr sm, w1)" "checkThrottling S b w1 = (None, b', w2)"
    "sm_envelope sm = Some e" "case env of Some x \<Rightarrow> e = x | None \<Rightarrow> EnvelopeFromMessage (sys_lib S) msg = Inr e"
proof -
  have clone: "(case msg of MsgRaw m \<Rightarrow> MsgRaw (Message_Clone m) | _ \<Rightarrow> msg) = msg"
    by (cases msg) auto
  from assms obtain e sm w1 where
    e: "(case env of None \<Rightarrow> EnvelopeFromMessage (sys_lib S) msg | Some e \<Rightarrow> Inr e) = Inr e" and
    sm: "NewSentMessage S msg (Some e) w = (Inr sm, w1)" and
    rest: "\<exists>DoSend w2 sm'. bt_DoSend b = Some DoSend \<and> checkThrottling S b w1 = (None, b', w2)
       \<and> DoSend sm w2 = Some (None, sm', w') \<and> r = Some sm'"
    unfolding base_Send_def clone Let_def
    by (fastforce split: option.splits sum.splits prod.splits if_splits)
  from e have "case env of Some x \<Rightarrow> e = x | None \<Rightarrow> EnvelopeFromMessage (sys_lib S) msg = Inr e"
    by (auto split: option.splits)
  with that sm rest NewSentMessage_Inr [OF sm] show thesis by blast
qed

text \<open>A timer does not fire early, and the clock did not run backwards since the last send.\<close>

definition timer_ok :: "'w sys \<Rightarrow> bool" where
  "timer_ok S \<longleftrightarrow> (\<forall>d w w'. sleep_or_done S d w = (None, w') \<longrightarrow> now_nanos S w + d \<le> now_nanos S w')"

lemma time_Sub_le: "b \<le> a \<Longrightarrow> time_Sub a b \<le> a - b"
  by (simp add: time_Sub_def)

lemma checkThrottling_spacing:
  assumes "timer_ok S" "checkThrottling S b w = (None, b', w')"
    and "bt_maxPerSecond b \<noteq> 0" "\<not> IsZero (bt_lastSent b)" "t_nanos (bt_lastSent b) \<le> now_nanos S w"
  shows "bt_lastSent b' = Now S w' \<and>
    second_div S (bt_maxPerSecond b) \<le> t_nanos (bt_lastSent b') - t_nanos (bt_lastSent b)"
proof -
  let ?i = "second_div S (bt_maxPerSecond b)" and ?l = "t_nanos (bt_lastSent b)"
  let ?s = "?i - time_Sub (now_nanos S w) ?l"
  have le: "time_Sub (now_nanos S w) ?l \<le> now_nanos S w - ?l" by (rule time_Sub_le [OF assms(5)])
  show ?thesis
  proof (cases "0 < ?s")
    case True
    with assms(2-4) have "sleep_or_done S ?s w = (None, w')" and b': "b' = b\<lparr>bt_lastSent := Now S w'\<rparr>"
      by (auto simp: checkThrottling_def Let_def split: prod.splits option.splits)
    then have "now_nanos S w + ?s \<le> now_nanos S w'" using assms(1) unfolding timer_ok_def by blast
    with le b' show ?thesis by (simp add: now_nanos_def)
  next
    case False
    with assms(2-4) have "w' = w" "b' = b\<lparr>bt_lastSent := Now S w'\<rparr>"
      by (auto simp: checkThrottling_def Let_def)
    with le False show ?thesis by (simp add: now_nanos_def)
  qed
qed

lemma checkThrottling_interrupted:
  "checkThrottling S b w = (Some e, b', w') \<Longrightarrow> bt_maxPerSecond b' = bt_maxPerSecond b
     \<and> (b' = b \<or> bt_lastSent b' = Now S w')"
  by (auto simp: checkThrottling_def Let_def split: prod.splits option.splits if_splits)

end
