(* ===== verification/Pool.thy ===== *)
theory Pool
  imports Base_Transport
begin

text \<open>
  The composite transports over a pool of children: round robin (\<^verbatim>\<open>roundrobin.go\<close>) and
  failover (\<^verbatim>\<open>failover.go\<close>). The two \<^verbatim>\<open>Send\<close> loops are the same text over different
  \<^verbatim>\<open>nextTransport\<close> functions, so they are one function \<open>dispatch\<close> here, taking that choice as
  an argument. A loop that need not end is a \<open>partial_function\<close>: the value \<open>None\<close> means that
  the call does not return normally (it loops forever or an index is out of range).
\<close>

section \<open>State\<close>

definition DefaultRetryPeriod :: duration where
  "DefaultRetryPeriod = 60000000000"

record rr =
  rr_size :: int
  rr_dead :: "int \<rightharpoonup> int"
  rr_cursor :: int
  rr_initialized :: bool
  rr_retryPeriod :: duration
  rr_initialCursor :: "int \<Rightarrow> int"
  rr_logger :: "(bytes \<times> duration) list option"
  rr_nameSymbol :: bytes

text \<open>
  The constructor; \<open>rr_size\<close> is \<^verbatim>\<open>len(t.transports)\<close>, the children themselves are an argument
  of the operations that call them. \<open>pick n\<close> is \<^verbatim>\<open>rand.Int\<close>, \<open>None\<close> when it fails. A logger is the
  list of the records it has received (transport and retry period), \<open>None\<close> a nil logger.
\<close>

definition randomInitialCursor :: "(int \<Rightarrow> int option) \<Rightarrow> int \<Rightarrow> int" where
  "randomInitialCursor pick n = (if n \<le> 1 then 0 else case pick n of None \<Rightarrow> 0 | Some v \<Rightarrow> v)"

definition NewRoundRobinTransport :: "(int \<Rightarrow> int option) \<Rightarrow> 'w transport list \<Rightarrow> duration \<Rightarrow> goerr + rr" where
  "NewRoundRobinTransport pick transports retryPeriod =
    (if transports = [] then
       Inl (NewTransportError ''RoundRobinTransport must have at least one transport configured'')
     else Inr \<lparr>rr_size = int (length transports), rr_dead = Map.empty, rr_cursor = -1,
                rr_initialized = False,
                rr_retryPeriod = (if retryPeriod \<le> 0 then DefaultRetryPeriod else retryPeriod),
                rr_initialCursor = randomInitialCursor pick, rr_logger = None, rr_nameSymbol = ''roundrobin''\<rparr>)"

text \<open>\<^verbatim>\<open>SetInitialCursor\<close>; a nil function is ignored.\<close>

definition SetInitialCursor :: "rr \<Rightarrow> (int \<Rightarrow> int) option \<Rightarrow> rr" where
  "SetInitialCursor t fn = (case fn of None \<Rightarrow> t | Some f \<Rightarrow> t\<lparr>rr_initialCursor := f\<rparr>)"

definition SetLogger :: "rr \<Rightarrow> (bytes \<times> duration) list option \<Rightarrow> rr" where
  "SetLogger t l = t\<lparr>rr_logger := l\<rparr>"

section \<open>Selection\<close>

definition moveCursor :: "rr \<Rightarrow> int \<Rightarrow> int" where
  "moveCursor t cursor = (if rr_size t \<le> cursor + 1 then 0 else cursor + 1)"

definition isDeadLocked :: "rr \<Rightarrow> int \<Rightarrow> bool" where
  "isDeadLocked t index \<longleftrightarrow> rr_dead t index \<noteq> None"

text \<open>\<^verbatim>\<open>markDead\<close>; a logger receives a record of it.\<close>

definition markDead :: "'w transport list \<Rightarrow> int \<Rightarrow> int \<Rightarrow> rr \<Rightarrow> rr" where
  "markDead ts now index t =
    (let t = t\<lparr>rr_dead := (rr_dead t)(index \<mapsto> now)\<rparr> in
     case rr_logger t of
       None \<Rightarrow> t
     | Some records \<Rightarrow> t\<lparr>rr_logger := Some (records @ [(tr_String (ts ! nat index), rr_retryPeriod t)])\<rparr>)"

lemma markDead_fields [simp]:
  "rr_dead (markDead ts now i t) = (rr_dead t)(i \<mapsto> now)"
  "rr_size (markDead ts now i t) = rr_size t" "rr_cursor (markDead ts now i t) = rr_cursor t"
  "rr_initialized (markDead ts now i t) = rr_initialized t" "rr_retryPeriod (markDead ts now i t) = rr_retryPeriod t"
  "rr_logger (markDead ts now i t) = map_option (\<lambda>l. l @ [(tr_String (ts ! nat i), rr_retryPeriod t)]) (rr_logger t)"
  by (simp_all add: markDead_def Let_def split: option.split)

definition seed_cursor :: "rr \<Rightarrow> rr" where
  "seed_cursor t =
    (if rr_initialized t then t
     else let c = rr_initialCursor t (rr_size t) in
       t\<lparr>rr_cursor := (if c < 0 \<or> rr_size t \<le> c then 0 else c), rr_initialized := True\<rparr>)"

partial_function (option) scan :: "int \<Rightarrow> rr \<Rightarrow> int \<Rightarrow> int \<Rightarrow> (int \<times> rr) option" where
  "scan now t start cursor =
    (if cursor < 0 \<or> rr_size t \<le> cursor then None
     else case rr_dead t cursor of
       None \<Rightarrow> Some (cursor, t\<lparr>rr_cursor := moveCursor t cursor\<rparr>)
     | Some since \<Rightarrow>
         if rr_retryPeriod t < time_Sub now since then
           Some (cursor, t\<lparr>rr_dead := (rr_dead t)(cursor := None), rr_cursor := moveCursor t cursor\<rparr>)
         else if moveCursor t cursor = start then Some (-1, t)
         else scan now t start (moveCursor t cursor))"

declare scan.simps [code]

definition nextTransportLocked :: "int \<Rightarrow> rr \<Rightarrow> (int \<times> rr) option" where
  "nextTransportLocked now t = (let t = seed_cursor t in scan now t (rr_cursor t) (rr_cursor t))"

text \<open>\<^verbatim>\<open>FailoverTransport\<close>: \<open>fo_current\<close> tells whether \<^verbatim>\<open>current\<close> is set.\<close>

record failover =
  fo_rr :: rr
  fo_current :: bool
  fo_currentIndex :: int

definition NewFailoverTransport :: "(int \<Rightarrow> int option) \<Rightarrow> 'w transport list \<Rightarrow> duration \<Rightarrow> goerr + failover" where
  "NewFailoverTransport pick transports retryPeriod =
    (case NewRoundRobinTransport pick transports retryPeriod of
       Inl err \<Rightarrow> Inl err
     | Inr t \<Rightarrow> Inr \<lparr>fo_rr = SetInitialCursor (t\<lparr>rr_nameSymbol := ''failover''\<rparr>) (Some (\<lambda>_. 0)),
                      fo_current = False, fo_currentIndex = 0\<rparr>)"

definition isCurrentDead :: "failover \<Rightarrow> bool" where
  "isCurrentDead f \<longleftrightarrow>
     (if \<not> fo_current f \<or> fo_currentIndex f < 0 then False
      else isDeadLocked (fo_rr f) (fo_currentIndex f))"

definition failover_nextTransport :: "int \<Rightarrow> failover \<Rightarrow> (int \<times> failover) option" where
  "failover_nextTransport now f =
    (if \<not> fo_current f \<or> isCurrentDead f then
       (case nextTransportLocked now (fo_rr f) of
          None \<Rightarrow> None
        | Some (i, t) \<Rightarrow>
            Some (i, f\<lparr>fo_rr := t, fo_currentIndex := i, fo_current := (i \<noteq> -1)\<rparr>))
     else Some (fo_currentIndex f, f))"

definition failover_markDead :: "'w transport list \<Rightarrow> int \<Rightarrow> int \<Rightarrow> failover \<Rightarrow> failover" where
  "failover_markDead ts now i f = f\<lparr>fo_rr := markDead ts now i (fo_rr f)\<rparr>"

section \<open>Sending\<close>

definition cloneMessage :: "raw_message \<Rightarrow> raw_message" where
  "cloneMessage msg = (case msg of MsgRaw m \<Rightarrow> MsgRaw (Message_Clone m) | _ \<Rightarrow> msg)"

lemma cloneMessage_id [simp]: "cloneMessage msg = msg"
  by (cases msg) (simp_all add: cloneMessage_def)

definition isTransportError :: "goerr \<Rightarrow> bool" where
  "isTransportError err \<longleftrightarrow> errors_Is err ErrTransport"

definition debugOf :: "unicode \<Rightarrow> goerr \<Rightarrow> bytes" where
  "debugOf U err = (case errors_As err of Some te \<Rightarrow> te_Debug te | None \<Rightarrow> Error_text U err)"

definition smtpCode :: "goerr \<Rightarrow> int" where
  "smtpCode err = (case errors_As err of Some te \<Rightarrow> te_Code te | None \<Rightarrow> 0)"

text \<open>What the loop does with a child's transport error: extend the aggregate.\<close>

definition aggregate :: "unicode \<Rightarrow> bytes \<Rightarrow> goerr \<Rightarrow> goerr option \<Rightarrow> goerr" where
  "aggregate U name err aggErr =
    (let a = (case aggErr of None \<Rightarrow> NewTransportError ''All transports failed.'' | Some a \<Rightarrow> a);
         a = te_AppendDebug a (''Transport '' @ [CHR 0x22] @ name @ [CHR 0x22] @ '': '' @ debugOf U err @ [LF]);
         a = te_set_Cause a err
     in if smtpCode err \<noteq> 0 then te_set_Code a (smtpCode err) else a)"

partial_function (option) dispatch ::
  "'w sys \<Rightarrow> (int \<Rightarrow> 's \<Rightarrow> (int \<times> 's) option) \<Rightarrow> (int \<Rightarrow> int \<Rightarrow> 's \<Rightarrow> 's) \<Rightarrow> 'w transport list
    \<Rightarrow> raw_message \<Rightarrow> envelope option \<Rightarrow> goerr option \<Rightarrow> 's \<Rightarrow> 'w \<Rightarrow> (outcome \<times> 's \<times> 'w) option" where
  "dispatch S nextTransport mark ts msg envelope aggErr s w =
    (case nextTransport (now_nanos S w) s of
       None \<Rightarrow> None
     | Some (idx, s) \<Rightarrow>
         if idx < 0 then
           Some (case aggErr of Some a \<Rightarrow> Inl a | None \<Rightarrow> Inl (NewTransportError ''No transports found.''), s, w)
         else
           (case tr_Send (ts ! nat idx) (cloneMessage msg) (cloneEnvelope envelope) w of
              (Inr r, _, _, w) \<Rightarrow> Some (Inr r, s, w)
            | (Inl err, _, _, w) \<Rightarrow>
                if \<not> isTransportError err then Some (Inl err, s, w)
                else dispatch S nextTransport mark ts msg envelope
                  (Some (aggregate (nl_unicode (sys_lib S)) (tr_String (ts ! nat idx)) err aggErr))
                  (mark (now_nanos S w) idx s) w))"

declare dispatch.simps [code]

definition roundrobin_Send ::
  "'w sys \<Rightarrow> 'w transport list \<Rightarrow> raw_message \<Rightarrow> envelope option \<Rightarrow> rr \<Rightarrow> 'w \<Rightarrow> (outcome \<times> rr \<times> 'w) option" where
  "roundrobin_Send S ts msg envelope t w = dispatch S nextTransportLocked (markDead ts) ts msg envelope None t w"

definition failover_Send ::
  "'w sys \<Rightarrow> 'w transport list \<Rightarrow> raw_message \<Rightarrow> envelope option \<Rightarrow> failover \<Rightarrow> 'w \<Rightarrow> (outcome \<times> failover \<times> 'w) option" where
  "failover_Send S ts msg envelope f w =
    dispatch S failover_nextTransport (failover_markDead ts) ts msg envelope None f w"

definition roundrobin_String :: "rr \<Rightarrow> 'w transport list \<Rightarrow> bytes" where
  "roundrobin_String t ts = rr_nameSymbol t @ ''('' @ Join (map tr_String ts) '' '' @ '')''"

text \<open>\<^verbatim>\<open>closeAll\<close> of \<^verbatim>\<open>close.go\<close>: every closer is closed; \<^verbatim>\<open>errors.Join\<close> of no error is nil.\<close>

fun close_each :: "'w transport list \<Rightarrow> 'w \<Rightarrow> goerr list \<times> 'w" where
  "close_each [] w = ([], w)"
| "close_each (t # ts) w =
    (case tr_Close t of
       None \<Rightarrow> close_each ts w
     | Some c \<Rightarrow>
         (case c w of (err, w1) \<Rightarrow>
           (case close_each ts w1 of (errs, w2) \<Rightarrow>
             ((case err of None \<Rightarrow> errs | Some e \<Rightarrow> e # errs), w2))))"

definition closeAll :: "'w transport list \<Rightarrow> 'w \<Rightarrow> goerr option \<times> 'w" where
  "closeAll ts w =
    (case close_each ts w of (errs, w) \<Rightarrow> (if errs = [] then None else Some (Joined errs), w))"

definition roundrobin_Close :: "rr \<Rightarrow> 'w transport list \<Rightarrow> 'w \<Rightarrow> goerr option \<times> 'w" where
  "roundrobin_Close t ts w = closeAll ts w"

text \<open>The methods that a failover pool forwards to its round-robin pool.\<close>

definition failover_String :: "failover \<Rightarrow> 'w transport list \<Rightarrow> bytes" where
  "failover_String f ts = roundrobin_String (fo_rr f) ts"

definition failover_Close :: "failover \<Rightarrow> 'w transport list \<Rightarrow> 'w \<Rightarrow> goerr option \<times> 'w" where
  "failover_Close f ts w = roundrobin_Close (fo_rr f) ts w"

definition failover_SetLogger :: "failover \<Rightarrow> (bytes \<times> duration) list option \<Rightarrow> failover" where
  "failover_SetLogger f l = f\<lparr>fo_rr := SetLogger (fo_rr f) l\<rparr>"

definition failover_SetInitialCursor :: "failover \<Rightarrow> (int \<Rightarrow> int) option \<Rightarrow> failover" where
  "failover_SetInitialCursor f fn = f\<lparr>fo_rr := SetInitialCursor (fo_rr f) fn\<rparr>"

lemmas pool_eval [go_eval] =
  SetLogger_def roundrobin_Close_def failover_String_def failover_Close_def failover_SetLogger_def
  failover_SetInitialCursor_def DefaultRetryPeriod_def randomInitialCursor_def NewRoundRobinTransport_def SetInitialCursor_def moveCursor_def
  isDeadLocked_def markDead_def seed_cursor_def nextTransportLocked_def NewFailoverTransport_def
  isCurrentDead_def failover_nextTransport_def failover_markDead_def isTransportError_def debugOf_def
  smtpCode_def aggregate_def roundrobin_Send_def failover_Send_def roundrobin_String_def closeAll_def

end
