(* ===== verification/Pool_Props.thy ===== *)
theory Pool_Props
  imports Pool
begin

text \<open>
  Facts about the pools. \<open>pool_selector\<close> is the contract both selection functions keep; the
  dispatch loop is analysed once over that contract (\<open>dispatch_run\<close>) and then for round robin and
  failover by interpretation: when no attempt outlasts its share of the retry period, a send
  returns, tries no child twice, and succeeds as soon as one live child accepts. \<open>pool_report\<close> and
  \<open>pool_log\<close> say what the caller and the logger learn.
\<close>

section \<open>The loop as a relation\<close>

text \<open>
  One run of the loop with the list of the children it tried, in order.
\<close>

inductive dispatch_run ::
  "'w sys \<Rightarrow> (int \<Rightarrow> 's \<Rightarrow> (int \<times> 's) option) \<Rightarrow> (int \<Rightarrow> int \<Rightarrow> 's \<Rightarrow> 's) \<Rightarrow> 'w transport list
    \<Rightarrow> raw_message \<Rightarrow> envelope option \<Rightarrow> goerr option \<Rightarrow> 's \<Rightarrow> 'w \<Rightarrow> int list \<Rightarrow> outcome \<Rightarrow> 's \<Rightarrow> 'w \<Rightarrow> bool"
  for S nxt mark ts msg env where
  exhausted: "nxt (now_nanos S w) s = Some (i, s') \<Longrightarrow> i < 0 \<Longrightarrow>
    dispatch_run S nxt mark ts msg env agg s w []
      (case agg of Some a \<Rightarrow> Inl a | None \<Rightarrow> Inl (NewTransportError ''No transports found.'')) s' w"
| delivered: "nxt (now_nanos S w) s = Some (i, s') \<Longrightarrow> 0 \<le> i \<Longrightarrow>
    tr_Send (ts ! nat i) msg env w = (Inr r, m, e, w') \<Longrightarrow>
    dispatch_run S nxt mark ts msg env agg s w [i] (Inr r) s' w'"
| refused: "nxt (now_nanos S w) s = Some (i, s') \<Longrightarrow> 0 \<le> i \<Longrightarrow>
    tr_Send (ts ! nat i) msg env w = (Inl err, m, e, w') \<Longrightarrow> \<not> isTransportError err \<Longrightarrow>
    dispatch_run S nxt mark ts msg env agg s w [i] (Inl err) s' w'"
| failed: "nxt (now_nanos S w) s = Some (i, s1) \<Longrightarrow> 0 \<le> i \<Longrightarrow>
    tr_Send (ts ! nat i) msg env w = (Inl err, m, e, w1) \<Longrightarrow> isTransportError err \<Longrightarrow>
    dispatch_run S nxt mark ts msg env
      (Some (aggregate (nl_unicode (sys_lib S)) (tr_String (ts ! nat i)) err agg))
      (mark (now_nanos S w1) i s1) w1 is out s' w' \<Longrightarrow>
    dispatch_run S nxt mark ts msg env agg s w (i # is) out s' w'"

lemma dispatch_sound:
  assumes "dispatch S nxt mark ts msg env agg s w = Some r"
  shows "\<exists>is. dispatch_run S nxt mark ts msg env agg s w is (fst r) (fst (snd r)) (snd (snd r))"
proof (rule dispatch.raw_induct [where P = "\<lambda>S nxt mark ts msg env agg s w r.
    \<exists>is. dispatch_run S nxt mark ts msg env agg s w is (fst r) (fst (snd r)) (snd (snd r))", OF _ assms])
  fix D S nxt mark ts msg env agg s w r
  assume IH: "\<And>S nxt mark ts msg env agg s w r. D S nxt mark ts msg env agg s w = Some r \<Longrightarrow>
      \<exists>is. dispatch_run S nxt mark ts msg env agg s w is (fst r) (fst (snd r)) (snd (snd r))"
    and eq: "(case nxt (now_nanos S w) s of
       None \<Rightarrow> None
     | Some (idx, s) \<Rightarrow>
         if idx < 0 then
           Some (case agg of Some a \<Rightarrow> Inl a | None \<Rightarrow> Inl (NewTransportError ''No transports found.''), s, w)
         else
           (case tr_Send (ts ! nat idx) (cloneMessage msg) (cloneEnvelope env) w of
              (Inr r, _, _, w) \<Rightarrow> Some (Inr r, s, w)
            | (Inl err, _, _, w) \<Rightarrow>
                if \<not> isTransportError err then Some (Inl err, s, w)
                else D S nxt mark ts msg env
                  (Some (aggregate (nl_unicode (sys_lib S)) (tr_String (ts ! nat idx)) err agg))
                  (mark (now_nanos S w) idx s) w)) = Some r"
  show "\<exists>is. dispatch_run S nxt mark ts msg env agg s w is (fst r) (fst (snd r)) (snd (snd r))"
  proof (cases "nxt (now_nanos S w) s")
    case None
    with eq show ?thesis by simp
  next
    case (Some p)
    obtain i s1 where p: "p = (i, s1)" by (cases p)
    show ?thesis
    proof (cases "i < 0")
      case True
      with eq Some p show ?thesis by (auto intro!: exI dispatch_run.exhausted)
    next
      case False
      obtain out m e w1 where send: "tr_Send (ts ! nat i) msg env w = (out, m, e, w1)"
        by (cases "tr_Send (ts ! nat i) msg env w") auto
      show ?thesis
      proof (cases out)
        case (Inr r')
        with eq Some p False send have "r = (Inr r', s1, w1)" by simp
        with Some p False send Inr show ?thesis by (auto intro!: exI dispatch_run.delivered)
      next
        case (Inl err)
        show ?thesis
        proof (cases "isTransportError err")
          case True
          with eq Some p False send Inl have "D S nxt mark ts msg env
              (Some (aggregate (nl_unicode (sys_lib S)) (tr_String (ts ! nat i)) err agg))
              (mark (now_nanos S w1) i s1) w1 = Some r" by simp
          from IH [OF this] obtain "is" where "dispatch_run S nxt mark ts msg env
              (Some (aggregate (nl_unicode (sys_lib S)) (tr_String (ts ! nat i)) err agg))
              (mark (now_nanos S w1) i s1) w1 is (fst r) (fst (snd r)) (snd (snd r))" by blast
          with Some p False send Inl True show ?thesis by (fastforce intro: dispatch_run.failed)
        next
          case err: False
          with eq Some p False send Inl have "r = (Inl err, s1, w1)" by simp
          with Some p False send Inl err show ?thesis by (auto intro!: exI dispatch_run.refused)
        qed
      qed
    qed
  qed
qed

lemma dispatch_complete:
  "dispatch_run S nxt mark ts msg env agg s w is out s' w' \<Longrightarrow>
    dispatch S nxt mark ts msg env agg s w = Some (out, s', w')"
  by (induction rule: dispatch_run.induct) (subst dispatch.simps, simp)+

lemma dispatch_iff:
  "dispatch S nxt mark ts msg env agg s w = Some (out, s', w') \<longleftrightarrow>
    (\<exists>is. dispatch_run S nxt mark ts msg env agg s w is out s' w')"
  using dispatch_sound [of S nxt mark ts msg env agg s w "(out, s', w')"] dispatch_complete by fastforce

text \<open>
  A pool whose children answer within \<open>d\<close>, where the pool's size times \<open>d\<close> fits in the retry
  period: a child marked dead stays dead until the send is over. The children need to do so only
  in the worlds \<open>W\<close>, which they keep to.
\<close>

definition pool_fits ::
  "('w \<Rightarrow> bool) \<Rightarrow> int \<Rightarrow> duration \<Rightarrow> 'w sys \<Rightarrow> 'w transport list \<Rightarrow> raw_message \<Rightarrow> envelope option \<Rightarrow> duration \<Rightarrow> bool" where
  "pool_fits W sz period S ts msg env d \<longleftrightarrow>
     sz = int (length ts) \<and> 0 \<le> d \<and> sz * d \<le> period
     \<and> (\<forall>t \<in> set ts. \<forall>w out m e w'. W w \<longrightarrow> tr_Send t msg env w = (out, m, e, w') \<longrightarrow>
          W w' \<and> now_nanos S w \<le> now_nanos S w' \<and> now_nanos S w' \<le> now_nanos S w + d)"

text \<open>A child that accepts the message whenever it is asked, and one that fails only with transport errors.\<close>

definition always_accepts :: "('w \<Rightarrow> bool) \<Rightarrow> raw_message \<Rightarrow> envelope option \<Rightarrow> 'w transport \<Rightarrow> bool" where
  "always_accepts W msg env t \<longleftrightarrow> (\<forall>w. W w \<longrightarrow> (\<exists>r m e w'. tr_Send t msg env w = (Inr r, m, e, w')))"

definition fails_softly :: "('w \<Rightarrow> bool) \<Rightarrow> raw_message \<Rightarrow> envelope option \<Rightarrow> 'w transport \<Rightarrow> bool" where
  "fails_softly W msg env t \<longleftrightarrow> (\<forall>w err m e w'. W w \<longrightarrow> tr_Send t msg env w = (Inl err, m, e, w') \<longrightarrow> isTransportError err)"

text \<open>A pool with a child that is not marked dead and accepts the message, while no child fails otherwise than with a transport error.\<close>

definition pool_delivers ::
  "('w \<Rightarrow> bool) \<Rightarrow> 'w transport list \<Rightarrow> raw_message \<Rightarrow> envelope option \<Rightarrow> (int \<rightharpoonup> int) \<Rightarrow> bool" where
  "pool_delivers W ts msg env dead \<longleftrightarrow> list_all (fails_softly W msg env) ts
     \<and> (\<exists>j\<in>{0..<int (length ts)}. dead j = None \<and> always_accepts W msg env (ts ! nat j))"

section \<open>The contract of a selection function\<close>

locale pool_selector =
  fixes sz :: int and period :: duration and inv :: "'s \<Rightarrow> bool" and dead :: "'s \<Rightarrow> int \<rightharpoonup> int"
    and nxt :: "int \<Rightarrow> 's \<Rightarrow> (int \<times> 's) option" and mark :: "int \<Rightarrow> int \<Rightarrow> 's \<Rightarrow> 's"
  assumes next_total: "inv s \<Longrightarrow> \<exists>i s'. nxt now s = Some (i, s')"
    and next_inv: "inv s \<Longrightarrow> nxt now s = Some (i, s') \<Longrightarrow> inv s' \<and> (i = -1 \<or> (0 \<le> i \<and> i < sz))"
    and next_pick: "inv s \<Longrightarrow> nxt now s = Some (i, s') \<Longrightarrow> 0 \<le> i \<Longrightarrow>
      dead s' = (dead s)(i := None) \<and> (\<forall>since. dead s i = Some since \<longrightarrow> period < time_Sub now since)"
    and next_none: "inv s \<Longrightarrow> nxt now s = Some (-1, s') \<Longrightarrow> 0 \<le> i \<Longrightarrow> i < sz \<Longrightarrow>
      \<exists>since. dead s i = Some since \<and> time_Sub now since \<le> period"
    and mark_inv: "inv s \<Longrightarrow> 0 \<le> i \<Longrightarrow> i < sz \<Longrightarrow> inv (mark now i s)"
    and mark_dead: "dead (mark now i s) = (dead s)(i \<mapsto> now)"
begin

text \<open>
  \<open>tried W S d A t0 s w\<close>: the children in \<open>A\<close> failed since \<open>t0\<close> and are marked, and no more time
  than their share has passed.
\<close>

definition tried :: "('w \<Rightarrow> bool) \<Rightarrow> 'w sys \<Rightarrow> duration \<Rightarrow> int set \<Rightarrow> int \<Rightarrow> 's \<Rightarrow> 'w \<Rightarrow> bool" where
  "tried W S d A t0 s w \<longleftrightarrow> inv s \<and> W w \<and> A \<subseteq> {0..<sz}
     \<and> (\<forall>i \<in> A. \<exists>since. dead s i = Some since \<and> t0 \<le> since)
     \<and> t0 \<le> now_nanos S w \<and> now_nanos S w \<le> t0 + int (card A) * d"

lemma card_bound: "A \<subseteq> {0..<sz} \<Longrightarrow> 0 \<le> sz \<Longrightarrow> int (card A) \<le> sz"
proof -
  assume A: "A \<subseteq> {0..<sz}" and "0 \<le> sz"
  have "card A \<le> card {0..<sz}" by (rule card_mono [OF _ A]) simp
  then show ?thesis using \<open>0 \<le> sz\<close> by simp
qed

lemma fits_period: "pool_fits W sz period S ts msg env d \<Longrightarrow> 0 \<le> sz \<and> 0 \<le> period"
  by (auto simp: pool_fits_def intro: order_trans [rotated])

lemma fresh:
  assumes fits: "pool_fits W sz period S ts msg env d" and "tried W S d A t0 s w" "nxt (now_nanos S w) s = Some (i, s')" "0 \<le> i"
  shows "i \<notin> A"
proof
  assume "i \<in> A"
  with assms(2) obtain since where since: "dead s i = Some since" "t0 \<le> since"
    unfolding tried_def by blast
  have "int (card A) \<le> sz" using card_bound assms(2) fits_period [OF fits] unfolding tried_def by blast
  then have bound: "int (card A) * d \<le> period"
    using mult_right_mono [of "int (card A)" sz d] fits unfolding pool_fits_def by linarith
  have "period < time_Sub (now_nanos S w) since"
    using next_pick assms(2-4) since(1) unfolding tried_def by blast
  moreover have "time_Sub (now_nanos S w) since \<le> period"
    using assms(2) since(2) bound fits_period [OF fits] by (auto simp: tried_def time_Sub_def)
  ultimately show False by simp
qed

lemma child: "pool_fits W sz period S ts msg env d \<Longrightarrow> 0 \<le> i \<Longrightarrow> i < sz \<Longrightarrow> ts ! nat i \<in> set ts"
  by (simp add: pool_fits_def)

lemma picked: "tried W S d A t0 s w \<Longrightarrow> nxt (now_nanos S w) s = Some (i, s') \<Longrightarrow> 0 \<le> i \<Longrightarrow> i < sz"
  unfolding tried_def using next_inv by force

lemma tried_step:
  assumes fits: "pool_fits W sz period S ts msg env d" and "tried W S d A t0 s w" "nxt (now_nanos S w) s = Some (i, s1)" "0 \<le> i"
    and "tr_Send (ts ! nat i) msg env w = (out, m, e, w1)"
  shows "tried W S d (insert i A) t0 (mark (now_nanos S w1) i s1) w1"
proof -
  have i: "i < sz" "i \<notin> A" using picked [OF assms(2-4)] fresh [OF fits assms(2-4)] by simp_all
  have fin: "finite A" using assms(2) finite_subset unfolding tried_def by blast
  have "W w" using assms(2) by (simp add: tried_def)
  then have time: "W w1 \<and> now_nanos S w \<le> now_nanos S w1 \<and> now_nanos S w1 \<le> now_nanos S w + d"
    using fits child [OF fits assms(4) i(1)] assms(5) unfolding pool_fits_def by blast
  have "inv s1" using next_inv assms(2,3) unfolding tried_def by blast
  then have inv: "inv (mark (now_nanos S w1) i s1)" using mark_inv assms(4) i(1) by blast
  have "dead s1 = (dead s)(i := None)" using next_pick assms(2-4) unfolding tried_def by blast
  then have dead: "dead (mark (now_nanos S w1) i s1) = (dead s)(i \<mapsto> now_nanos S w1)"
    by (simp add: mark_dead)
  show ?thesis
    using assms(2,4) i inv time fin unfolding tried_def dead
    by (auto simp: algebra_simps)
qed

lemma tried_time:
  assumes fits: "pool_fits W sz period S ts msg env d" and "tried W S d A t0 s w"
  shows "W w \<and> t0 \<le> now_nanos S w \<and> now_nanos S w \<le> t0 + sz * d"
proof -
  have "int (card A) \<le> sz" using card_bound assms(2) fits_period [OF fits] unfolding tried_def by blast
  then have "int (card A) * d \<le> sz * d" using fits by (intro mult_right_mono) (simp_all add: pool_fits_def)
  with assms(2) show ?thesis by (simp add: tried_def)
qed

lemma run_tries:
  assumes fits: "pool_fits W sz period S ts msg env d" and "dispatch_run S nxt mark ts msg env agg s w is out s' w'" "tried W S d A t0 s w"
  shows "distinct is \<and> set is \<subseteq> {0..<sz} - A \<and> inv s' \<and> W w' \<and> t0 \<le> now_nanos S w' \<and> now_nanos S w' \<le> t0 + sz * d"
  using assms(2,3)
proof (induction arbitrary: A rule: dispatch_run.induct)
  case (failed w s i s1 err m e w1 agg "is" out s' w')
  have "tried W S d (insert i A) t0 (mark (now_nanos S w1) i s1) w1"
    using tried_step [OF fits] failed by blast
  from failed.IH [OF this] show ?case
    using fresh [OF fits failed.prems failed.hyps(1,2)] picked [OF failed.prems failed.hyps(1,2)] failed.hyps(2)
    by auto
next
  case (exhausted w s i s' agg)
  with tried_time [OF fits exhausted.prems] show ?case using next_inv [of s] unfolding tried_def by auto
next
  case (delivered w s i s' r m e w' agg)
  note time = tried_time [OF fits tried_step [OF fits delivered.prems delivered.hyps]]
  note pick = fresh [OF fits delivered.prems delivered.hyps(1,2)] picked [OF delivered.prems delivered.hyps(1,2)]
  from delivered.prems have "inv s" unfolding tried_def by blast
  from pick time next_inv [OF this delivered.hyps(1)] delivered.hyps(2) show ?case by auto
next
  case (refused w s i s' err m e w' agg)
  note time = tried_time [OF fits tried_step [OF fits refused.prems refused.hyps(1-3)]]
  note pick = fresh [OF fits refused.prems refused.hyps(1,2)] picked [OF refused.prems refused.hyps(1,2)]
  from refused.prems have "inv s" unfolding tried_def by blast
  from pick time next_inv [OF this refused.hyps(1)] refused.hyps(2) show ?case by auto
qed

lemma run_exists:
  assumes fits: "pool_fits W sz period S ts msg env d" and "tried W S d A t0 s w"
  shows "\<exists>is out s' w'. dispatch_run S nxt mark ts msg env agg s w is out s' w'"
  using assms(2)
proof (induction "nat (sz - int (card A))" arbitrary: A s w agg rule: less_induct)
  case less
  obtain i s1 where nxt: "nxt (now_nanos S w) s = Some (i, s1)"
    using next_total less.prems unfolding tried_def by blast
  show ?case
  proof (cases "i < 0")
    case True
    then show ?thesis using nxt dispatch_run.exhausted by fast
  next
    case False
    then have i: "0 \<le> i" by simp
    obtain out m e w1 where send: "tr_Send (ts ! nat i) msg env w = (out, m, e, w1)"
      by (cases "tr_Send (ts ! nat i) msg env w") auto
    have step: "tried W S d (insert i A) t0 (mark (now_nanos S w1) i s1) w1"
      using tried_step [OF fits less.prems nxt i send] .
    have "i \<notin> A" "finite A"
      using fresh [OF fits less.prems nxt i] less.prems finite_subset unfolding tried_def by blast+
    then have "card (insert i A) = Suc (card A)" by simp
    moreover have "int (card (insert i A)) \<le> sz" using card_bound step fits_period [OF fits] unfolding tried_def by blast
    ultimately have "nat (sz - int (card (insert i A))) < nat (sz - int (card A))" by simp
    note IH = less.hyps [OF this step]
    show ?thesis
    proof (cases out)
      case (Inr r)
      then show ?thesis using dispatch_run.delivered nxt i send by fast
    next
      case (Inl err)
      show ?thesis
      proof (cases "isTransportError err")
        case True
        obtain "is" out' s' w' where "dispatch_run S nxt mark ts msg env
            (Some (aggregate (nl_unicode (sys_lib S)) (tr_String (ts ! nat i)) err agg))
            (mark (now_nanos S w1) i s1) w1 is out' s' w'" using IH by blast
        with nxt i send Inl True show ?thesis using dispatch_run.failed by fast
      next
        case False
        with nxt i send Inl show ?thesis using dispatch_run.refused by fast
      qed
    qed
  qed
qed

text \<open>A live child that accepts is enough, when the others fail with transport errors only.\<close>

lemma run_succeeds:
  assumes "dispatch_run S nxt mark ts msg env agg s w is out s' w'" "inv s"
    and "0 \<le> j" "j < sz" "dead s j = None"
    and "\<And>w. W w \<Longrightarrow> \<exists>r m e w'. tr_Send (ts ! nat j) msg env w = (Inr r, m, e, w')"
    and "\<And>t w err m e w'. W w \<Longrightarrow> t \<in> set ts \<Longrightarrow> tr_Send t msg env w = (Inl err, m, e, w') \<Longrightarrow> isTransportError err"
    and fits: "pool_fits W sz period S ts msg env d" and "W w"
  shows "(\<exists>r. out = Inr r) \<and> dead s' j = None"
  using assms(1,2,5,9)
proof (induction rule: dispatch_run.induct)
  case (exhausted w s i s' agg)
  then have "i = -1" using next_inv by fastforce
  with exhausted next_none assms(3,4) show ?case by fastforce
next
  case (refused w s i s' err m e w' agg)
  then have "i < sz" using next_inv by fastforce
  with refused assms(7) child [OF fits] show ?case by blast
next
  case (failed w s i s1 err m e w1 agg "is" out s' w')
  then have "i < sz" "inv s1" using next_inv by fastforce+
  have "i \<noteq> j" using failed.hyps(3) assms(6) [OF failed.prems(3)] by auto
  moreover have "dead s1 = (dead s)(i := None)" using next_pick failed by blast
  ultimately have "dead (mark (now_nanos S w1) i s1) j = None" using failed.prems by (simp add: mark_dead)
  moreover have "W w1" using fits child [OF fits failed.hyps(2) \<open>i < sz\<close>] failed.prems(3) failed.hyps(3) unfolding pool_fits_def by blast
  ultimately show ?case using failed.IH mark_inv failed.hyps(2) \<open>i < sz\<close> \<open>inv s1\<close> by blast
next
  case (delivered w s i s' r m e w' agg)
  then have "dead s' = (dead s)(i := None)" using next_pick by blast
  with delivered.prems show ?case by simp
qed

text \<open>When every child fails with transport errors only, so does the pool.\<close>

lemma run_soft:
  assumes "dispatch_run S nxt mark ts msg env agg s w is out s' w'" "inv s"
    and "\<And>t w err m e w'. W w \<Longrightarrow> t \<in> set ts \<Longrightarrow> tr_Send t msg env w = (Inl err, m, e, w') \<Longrightarrow> isTransportError err"
    and fits: "pool_fits W sz period S ts msg env d" and "W w" "agg = None \<or> (\<exists>m c x d. agg = Some (TransportError m c x d))"
  shows "out = Inl err \<Longrightarrow> isTransportError err"
  using assms(1,2,5,6)
proof (induction rule: dispatch_run.induct)
  case (refused w s i s' err m e w' agg)
  then have "i < sz" using next_inv by fastforce
  with refused assms(3) child [OF fits] show ?case by blast
next
  case (failed w s i s1 err m e w1 agg "is" out s' w')
  then have i: "i < sz" "inv s1" using next_inv by fastforce+
  have "W w1" using fits child [OF fits failed.hyps(2) i(1)] failed.prems(3) failed.hyps(3) unfolding pool_fits_def by blast
  moreover have "\<exists>m c x d. aggregate (nl_unicode (sys_lib S)) (tr_String (ts ! nat i)) err agg = TransportError m c x d"
    using failed.prems(4) by (auto simp: aggregate_def NewTransportError_def Let_def split: prod.splits option.splits)
  ultimately show ?case using failed.IH failed.prems(1) mark_inv [OF i(2) failed.hyps(2) i(1)] by blast
qed (auto simp: isTransportError_def NewTransportError_def)

lemma run_delivers:
  assumes "dispatch_run S nxt mark ts msg env agg s w is out s' w'" "inv s" "pool_fits W sz period S ts msg env d" "W w"
  shows "pool_delivers W ts msg env (dead s) \<longrightarrow> (\<exists>r. out = Inr r)"
proof
  assume "pool_delivers W ts msg env (dead s)"
  then obtain j where j: "0 \<le> j" "j < sz" "dead s j = None" "always_accepts W msg env (ts ! nat j)" and soft: "list_all (fails_softly W msg env) ts"
    using assms(3) unfolding pool_delivers_def pool_fits_def by auto
  have "(\<exists>r. out = Inr r) \<and> dead s' j = None"
    by (rule run_succeeds [OF assms(1,2) j(1-3) _ _ assms(3,4)])
      (use j(4) soft in \<open>auto simp: always_accepts_def fails_softly_def list_all_iff\<close>)
  then show "\<exists>r. out = Inr r" ..
qed

lemma send_returns:
  assumes "inv s" and fits: "pool_fits W sz period S ts msg env d" and "W w"
  shows "\<exists>is out s' w'. dispatch S nxt mark ts msg env agg s w = Some (out, s', w')
    \<and> dispatch_run S nxt mark ts msg env agg s w is out s' w'
    \<and> distinct is \<and> set is \<subseteq> {0..<sz} \<and> inv s' \<and> W w' \<and> now_nanos S w \<le> now_nanos S w' \<and> now_nanos S w' \<le> now_nanos S w + sz * d
    \<and> (pool_delivers W ts msg env (dead s) \<longrightarrow> (\<exists>r. out = Inr r))"
proof -
  have t: "tried W S d {} (now_nanos S w) s w" using assms(1,3) by (simp add: tried_def)
  then obtain "is" out s' w' where run: "dispatch_run S nxt mark ts msg env agg s w is out s' w'"
    using run_exists [OF fits] by blast
  with run_tries [OF fits run t] dispatch_complete [OF run] run_delivers [OF run assms] show ?thesis by blast
qed

end

section \<open>Round robin\<close>

definition rr_inv :: "int \<Rightarrow> duration \<Rightarrow> rr \<Rightarrow> bool" where
  "rr_inv n p t \<longleftrightarrow> rr_size t = n \<and> rr_retryPeriod t = p \<and> 0 < n
     \<and> (rr_initialized t \<longrightarrow> 0 \<le> rr_cursor t \<and> rr_cursor t < n)"

lemma moveCursor_range: "0 \<le> c \<Longrightarrow> c < rr_size t \<Longrightarrow> 0 \<le> moveCursor t c \<and> moveCursor t c < rr_size t"
  by (auto simp: moveCursor_def)

lemma moveCursor_mod: "0 \<le> c \<Longrightarrow> c < rr_size t \<Longrightarrow> moveCursor t c = (c + 1) mod rr_size t"
  by (cases "c + 1 = rr_size t") (auto simp: moveCursor_def)

text \<open>
  The scan looks at the children from the cursor onwards, cyclically; \<open>k\<close> of them, the dead
  ones, have been passed.
\<close>

definition waiting :: "int \<Rightarrow> rr \<Rightarrow> int \<Rightarrow> bool" where
  "waiting now t i \<longleftrightarrow> (\<exists>since. rr_dead t i = Some since \<and> time_Sub now since \<le> rr_retryPeriod t)"

lemma scan_skips:
  assumes "0 \<le> start" "start < rr_size t" "\<forall>j < k. waiting now t ((start + int j) mod rr_size t)"
    and "int k < rr_size t"
  shows "scan now t start start = scan now t start ((start + int k) mod rr_size t)"
  using assms(3,4)
proof (induction k)
  case 0
  then show ?case using assms(1,2) by simp
next
  case (Suc k)
  let ?c = "(start + int k) mod rr_size t"
  have c: "0 \<le> ?c" "?c < rr_size t" using assms(1,2) by simp_all
  have mv: "moveCursor t ?c = (start + int (Suc k)) mod rr_size t"
    using moveCursor_mod [OF c] by (simp add: mod_simps algebra_simps)
  have "(start + int (Suc k)) mod rr_size t \<noteq> start"
  proof
    assume "(start + int (Suc k)) mod rr_size t = start"
    then have "(start + int (Suc k)) mod rr_size t = start mod rr_size t" using assms(1,2) by simp
    then have "rr_size t dvd int (Suc k)" by (simp add: mod_eq_dvd_iff)
    with Suc.prems(2) show False by (auto dest: zdvd_imp_le)
  qed
  moreover obtain since where "rr_dead t ?c = Some since" "\<not> rr_retryPeriod t < time_Sub now since"
    using Suc.prems(1) by (force simp: waiting_def)
  ultimately have "scan now t start ?c = scan now t start ((start + int (Suc k)) mod rr_size t)"
    using c mv by (subst scan.simps) auto
  with Suc show ?case by simp
qed

lemma scan_result:
  assumes "0 \<le> start" "start < rr_size t"
  shows "(\<exists>k. int k < rr_size t \<and> (\<forall>j < k. waiting now t ((start + int j) mod rr_size t))
            \<and> (let c = (start + int k) mod rr_size t in \<not> waiting now t c
                \<and> scan now t start start =
                    Some (c, t\<lparr>rr_dead := (rr_dead t)(c := None), rr_cursor := moveCursor t c\<rparr>)))
    \<or> ((\<forall>i. 0 \<le> i \<and> i < rr_size t \<longrightarrow> waiting now t i) \<and> scan now t start start = Some (-1, t))"
proof (cases "\<exists>k. int k < rr_size t \<and> \<not> waiting now t ((start + int k) mod rr_size t)")
  case True
  define k where "k = (LEAST k. int k < rr_size t \<and> \<not> waiting now t ((start + int k) mod rr_size t))"
  have k: "int k < rr_size t" "\<not> waiting now t ((start + int k) mod rr_size t)"
    using LeastI_ex [OF True] unfolding k_def by blast+
  have before: "\<forall>j < k. waiting now t ((start + int j) mod rr_size t)"
    using not_less_Least [of _ "\<lambda>k. int k < rr_size t \<and> \<not> waiting now t ((start + int k) mod rr_size t)"] k(1)
    unfolding k_def [symmetric] by force
  let ?c = "(start + int k) mod rr_size t"
  have c: "0 \<le> ?c" "?c < rr_size t" using assms by simp_all
  have "(rr_dead t)(?c := None) = rr_dead t" if "rr_dead t ?c = None" using that by auto
  then have "scan now t start ?c = Some (?c, t\<lparr>rr_dead := (rr_dead t)(?c := None), rr_cursor := moveCursor t ?c\<rparr>)"
    using c k(2) by (subst scan.simps) (auto simp: waiting_def split: option.splits)
  with scan_skips [OF assms before k(1)] k before show ?thesis by (auto simp: Let_def)
next
  case False
  let ?n = "rr_size t" and ?k = "nat (rr_size t - 1)"
  have all: "waiting now t i" if "0 \<le> i" "i < ?n" for i
  proof -
    have "(start + int (nat ((i - start) mod ?n))) mod ?n = i" using that assms by (simp add: mod_simps)
    moreover have "int (nat ((i - start) mod ?n)) < ?n" using that by simp
    ultimately show ?thesis using False by metis
  qed
  define c where "c = (start + int ?k) mod ?n"
  have c: "0 \<le> c" "c < ?n" using assms by (simp_all add: c_def)
  have "scan now t start start = scan now t start c"
    unfolding c_def using assms all by (intro scan_skips) auto
  moreover have "moveCursor t c = start"
    using moveCursor_mod [OF c] assms by (simp add: c_def mod_simps)
  moreover obtain since where "rr_dead t c = Some since" "\<not> rr_retryPeriod t < time_Sub now since"
    using all [OF c] by (force simp: waiting_def)
  then have "scan now t start c = Some (-1, t)" using c \<open>moveCursor t c = start\<close>
    by (subst scan.simps) simp
  ultimately show ?thesis using all by simp
qed

lemma seed_cursor_inv: "rr_inv n p t \<Longrightarrow> rr_inv n p (seed_cursor t) \<and> rr_initialized (seed_cursor t)"
  by (auto simp: rr_inv_def seed_cursor_def Let_def)

lemma seed_cursor_same [simp]:
  "rr_dead (seed_cursor t) = rr_dead t" "rr_size (seed_cursor t) = rr_size t"
  "rr_retryPeriod (seed_cursor t) = rr_retryPeriod t"
  by (auto simp: seed_cursor_def Let_def)

lemma next_cases:
  assumes "rr_inv n p t"
  obtains c where "0 \<le> c" "c < n" "\<not> waiting now t c"
      "nextTransportLocked now t = Some (c, (seed_cursor t)\<lparr>rr_dead := (rr_dead t)(c := None),
         rr_cursor := moveCursor t c\<rparr>)"
  | "\<forall>i. 0 \<le> i \<and> i < n \<longrightarrow> waiting now t i" "nextTransportLocked now t = Some (-1, seed_cursor t)"
proof -
  let ?t = "seed_cursor t"
  have inv: "0 \<le> rr_cursor ?t" "rr_cursor ?t < rr_size ?t" "rr_size t = n"
    using seed_cursor_inv [OF assms] assms by (auto simp: rr_inv_def)
  have w: "waiting now ?t i = waiting now t i" for i by (simp add: waiting_def)
  have mv: "moveCursor ?t c = moveCursor t c" for c by (simp add: moveCursor_def)
  from scan_result [OF inv(1,2), of now] consider
    (pick) k where "\<not> waiting now t ((rr_cursor ?t + int k) mod n)"
      "nextTransportLocked now t = Some ((rr_cursor ?t + int k) mod n,
         ?t\<lparr>rr_dead := (rr_dead t)((rr_cursor ?t + int k) mod n := None),
            rr_cursor := moveCursor t ((rr_cursor ?t + int k) mod n)\<rparr>)"
    | (none) "\<forall>i. 0 \<le> i \<and> i < n \<longrightarrow> waiting now t i" "nextTransportLocked now t = Some (-1, ?t)"
    unfolding nextTransportLocked_def Let_def w mv by (auto simp: inv(3))
  then show thesis
  proof cases
    case pick
    have "0 < n" using assms by (simp add: rr_inv_def)
    then show thesis using pick that(1) by simp
  next
    case none
    then show thesis using that(2) by blast
  qed
qed

lemma rr_inv_move:
  "rr_inv n p t \<Longrightarrow> 0 \<le> c \<Longrightarrow> c < n \<Longrightarrow> rr_inv n p ((seed_cursor t)\<lparr>rr_dead := f, rr_cursor := moveCursor t c\<rparr>)"
  using moveCursor_range [of c t] by (auto simp: rr_inv_def)

interpretation rr_select: pool_selector n p "rr_inv n p" rr_dead nextTransportLocked "markDead ts"
  for n p ts
proof
  fix s now i s'
  assume inv: "rr_inv n p s"
  show "\<exists>i s'. nextTransportLocked now s = Some (i, s')" using inv by (rule next_cases) blast+
  have per: "rr_retryPeriod s = p" using inv by (simp add: rr_inv_def)
  { assume eq: "nextTransportLocked now s = Some (i, s')"
    show "rr_inv n p s' \<and> (i = -1 \<or> (0 \<le> i \<and> i < n))"
      using inv
    proof (cases rule: next_cases [where now = now])
      case (1 c)
      with eq inv show ?thesis by (auto intro: rr_inv_move)
    next
      case 2
      with eq seed_cursor_inv [OF inv] show ?thesis by auto
    qed
    assume "0 \<le> i"
    show "rr_dead s' = (rr_dead s)(i := None) \<and> (\<forall>since. rr_dead s i = Some since \<longrightarrow> p < time_Sub now since)"
      using inv
    proof (cases rule: next_cases [where now = now])
      case (1 c)
      with eq per show ?thesis by (auto simp: waiting_def)
    next
      case 2
      with eq \<open>0 \<le> i\<close> show ?thesis by auto
    qed }
  { assume eq: "nextTransportLocked now s = Some (-1, s')" and i: "0 \<le> i" "i < n"
    show "\<exists>since. rr_dead s i = Some since \<and> time_Sub now since \<le> p"
      using inv
    proof (cases rule: next_cases [where now = now])
      case (1 c)
      with eq show ?thesis by auto
    next
      case 2
      with i per show ?thesis by (auto simp: waiting_def)
    qed }
qed (auto simp: rr_inv_def)

section \<open>Failover\<close>

definition fo_inv :: "int \<Rightarrow> duration \<Rightarrow> failover \<Rightarrow> bool" where
  "fo_inv n p f \<longleftrightarrow> rr_inv n p (fo_rr f) \<and> (fo_current f \<longrightarrow> 0 \<le> fo_currentIndex f \<and> fo_currentIndex f < n)"

lemma failover_next_cases:
  assumes "fo_inv n p f"
  obtains "failover_nextTransport now f = Some (fo_currentIndex f, f)"
      "fo_current f" "rr_dead (fo_rr f) (fo_currentIndex f) = None"
  | i t where "nextTransportLocked now (fo_rr f) = Some (i, t)"
      "failover_nextTransport now f = Some (i, f\<lparr>fo_rr := t, fo_currentIndex := i, fo_current := (i \<noteq> -1)\<rparr>)"
proof (cases "\<not> fo_current f \<or> isCurrentDead f")
  case True
  obtain i t where "nextTransportLocked now (fo_rr f) = Some (i, t)"
    using rr_select.next_total assms unfolding fo_inv_def by blast
  with True that(2) show thesis by (simp add: failover_nextTransport_def)
next
  case False
  with assms that(1) show thesis
    by (auto simp: failover_nextTransport_def isCurrentDead_def isDeadLocked_def fo_inv_def)
qed

interpretation fo_select: pool_selector n p "fo_inv n p" "rr_dead \<circ> fo_rr" failover_nextTransport "failover_markDead ts"
  for n p ts
proof
  fix s now i s'
  assume inv: "fo_inv n p s"
  then have rinv: "rr_inv n p (fo_rr s)" by (simp add: fo_inv_def)
  show "\<exists>i s'. failover_nextTransport now s = Some (i, s')" using inv by (rule failover_next_cases) blast+
  { assume eq: "failover_nextTransport now s = Some (i, s')"
    show "fo_inv n p s' \<and> (i = -1 \<or> (0 \<le> i \<and> i < n))"
      using inv
    proof (cases rule: failover_next_cases [where now = now])
      case 1
      with eq inv show ?thesis by (auto simp: fo_inv_def)
    next
      case (2 j t)
      with eq rr_select.next_inv [OF rinv 2(1)] show ?thesis by (auto simp: fo_inv_def)
    qed
    assume "0 \<le> i"
    show "(rr_dead \<circ> fo_rr) s' = ((rr_dead \<circ> fo_rr) s)(i := None)
        \<and> (\<forall>since. (rr_dead \<circ> fo_rr) s i = Some since \<longrightarrow> p < time_Sub now since)"
      using inv
    proof (cases rule: failover_next_cases [where now = now])
      case 1
      with eq show ?thesis by auto
    next
      case (2 j t)
      with eq rr_select.next_pick [OF rinv 2(1)] \<open>0 \<le> i\<close> show ?thesis by auto
    qed }
  { assume eq: "failover_nextTransport now s = Some (-1, s')" and i: "0 \<le> i" "i < n"
    show "\<exists>since. (rr_dead \<circ> fo_rr) s i = Some since \<and> time_Sub now since \<le> p"
      using inv
    proof (cases rule: failover_next_cases [where now = now])
      case 1
      with eq inv show ?thesis by (auto simp: fo_inv_def)
    next
      case (2 j t)
      with eq rr_select.next_none [OF rinv _ i] show ?thesis by auto
    qed }
qed (auto simp: fo_inv_def failover_markDead_def rr_select.mark_inv rr_select.mark_dead)

section \<open>Rotation and stickiness\<close>

text \<open>The children \<open>k\<close> successive sends select when none of them fails.\<close>

fun picks :: "int \<Rightarrow> nat \<Rightarrow> rr \<Rightarrow> int list" where
  "picks now 0 t = []"
| "picks now (Suc k) t =
    (case nextTransportLocked now t of None \<Rightarrow> [] | Some (i, t') \<Rightarrow> i # picks now k t')"

lemma next_live:
  assumes "rr_inv n p t" "rr_initialized t" "rr_dead t (rr_cursor t) = None"
  shows "nextTransportLocked now t = Some (rr_cursor t, t\<lparr>rr_cursor := (rr_cursor t + 1) mod n\<rparr>)"
proof -
  have c: "0 \<le> rr_cursor t" "rr_cursor t < rr_size t" "rr_size t = n" using assms by (auto simp: rr_inv_def)
  then show ?thesis
    using assms moveCursor_mod [OF c(1,2)]
    unfolding nextTransportLocked_def Let_def by (subst scan.simps) (simp add: seed_cursor_def)
qed

lemma picks_rotate:
  assumes "rr_inv n p t" "rr_initialized t" "rr_dead t = Map.empty"
  shows "picks now k t = map (\<lambda>i. (rr_cursor t + int i) mod n) [0..<k]"
  using assms
proof (induction k arbitrary: t)
  case (Suc k)
  let ?t = "t\<lparr>rr_cursor := (rr_cursor t + 1) mod n\<rparr>"
  have c: "0 \<le> rr_cursor t" "rr_cursor t < n" "0 < n" using Suc.prems by (auto simp: rr_inv_def)
  have "picks now k ?t = map (\<lambda>i. (rr_cursor ?t + int i) mod n) [0..<k]"
    using Suc.prems c by (intro Suc.IH) (auto simp: rr_inv_def)
  moreover have "map (\<lambda>i. (rr_cursor ?t + int i) mod n) [0..<k]
      = map (\<lambda>i. (rr_cursor t + int i) mod n) (map Suc [0..<k])"
    by (simp add: mod_simps algebra_simps)
  moreover have "nextTransportLocked now t = Some (rr_cursor t, ?t)"
    using next_live [OF Suc.prems(1,2)] Suc.prems(3) by simp
  moreover have "map (\<lambda>i. (rr_cursor t + int i) mod n) [0..<Suc k]
      = rr_cursor t # map (\<lambda>i. (rr_cursor t + int i) mod n) (map Suc [0..<k])"
    using c by (simp only: map_Suc_upt upt_conv_Cons zero_less_Suc list.map) simp
  ultimately show ?case by (simp only: picks.simps option.case prod.case)
qed simp

lemma failover_sticks:
  assumes "fo_current f" "0 \<le> fo_currentIndex f" "rr_dead (fo_rr f) (fo_currentIndex f) = None"
  shows "failover_nextTransport now f = Some (fo_currentIndex f, f)"
  using assms by (simp add: failover_nextTransport_def isCurrentDead_def isDeadLocked_def)

lemma NewFailover_inv:
  "NewFailoverTransport pick ts p = Inr f \<Longrightarrow>
    fo_inv (int (length ts)) (if p \<le> 0 then DefaultRetryPeriod else p) f \<and> rr_dead (fo_rr f) = Map.empty"
  by (auto simp: NewFailoverTransport_def NewRoundRobinTransport_def SetInitialCursor_def fo_inv_def rr_inv_def
      split: if_splits)

lemma NewRoundRobin_inv:
  "NewRoundRobinTransport pick ts p = Inr t \<Longrightarrow>
    rr_inv (int (length ts)) (if p \<le> 0 then DefaultRetryPeriod else p) t \<and> rr_dead t = Map.empty"
  by (auto simp: NewRoundRobinTransport_def rr_inv_def split: if_splits)

lemma failover_starts_first:
  "NewFailoverTransport pick ts p = Inr f \<Longrightarrow> \<exists>f'. failover_nextTransport now f = Some (0, f')"
proof -
  assume f: "NewFailoverTransport pick ts p = Inr f"
  then have "fo_rr f = (fo_rr f)\<lparr>rr_dead := Map.empty\<rparr>" "\<not> rr_initialized (fo_rr f)" "0 < rr_size (fo_rr f)"
      "rr_initialCursor (fo_rr f) = (\<lambda>_. 0)" "\<not> fo_current f" "rr_dead (fo_rr f) = Map.empty"
    by (auto simp: NewFailoverTransport_def NewRoundRobinTransport_def SetInitialCursor_def split: if_splits)
  moreover from this have "\<exists>t. nextTransportLocked now (fo_rr f) = Some (0, t)"
    unfolding nextTransportLocked_def Let_def by (subst scan.simps) (simp add: seed_cursor_def)
  ultimately show ?thesis by (auto simp: failover_nextTransport_def)
qed

section \<open>The aggregate error\<close>

text \<open>
  What a caller is told after the children \<open>is\<close> were tried in turn, the first of them in the world
  \<open>w\<close>: the errors they gave, and the error and the log records made of these.
\<close>

fun child_errors :: "'w transport list \<Rightarrow> raw_message \<Rightarrow> envelope option \<Rightarrow> 'w \<Rightarrow> int list \<Rightarrow> (int \<times> goerr) list" where
  "child_errors ts msg env w [] = []"
| "child_errors ts msg env w (i # is) =
    (case tr_Send (ts ! nat i) msg env w of
       (Inl err, _, _, w1) \<Rightarrow> (i, err) # child_errors ts msg env w1 is
     | (Inr r, _, _, w1) \<Rightarrow> [])"

abbreviation soft :: "int \<times> goerr \<Rightarrow> bool" where
  "soft f \<equiv> isTransportError (snd f)"

definition failure_text :: "unicode \<Rightarrow> 'w transport list \<Rightarrow> int \<times> goerr \<Rightarrow> bytes" where
  "failure_text U ts f =
    ''Transport '' @ [CHR 0x22] @ tr_String (ts ! nat (fst f)) @ [CHR 0x22] @ '': '' @ debugOf U (snd f) @ [LF]"

definition last_code :: "(int \<times> goerr) list \<Rightarrow> int" where
  "last_code fs = fold (\<lambda>f c. if smtpCode (snd f) \<noteq> 0 then smtpCode (snd f) else c) fs 0"

definition all_failed :: "unicode \<Rightarrow> 'w transport list \<Rightarrow> (int \<times> goerr) list \<Rightarrow> goerr" where
  "all_failed U ts fs =
    TransportError ''All transports failed.'' (last_code fs) (Some (snd (last fs))) (concat (map (failure_text U ts) fs))"

definition pool_error :: "unicode \<Rightarrow> 'w transport list \<Rightarrow> (int \<times> goerr) list \<Rightarrow> goerr" where
  "pool_error U ts fs =
    (if fs = [] then NewTransportError ''No transports found.''
     else if soft (last fs) then all_failed U ts fs
     else snd (last fs))"

definition agg_of :: "unicode \<Rightarrow> 'w transport list \<Rightarrow> (int \<times> goerr) list \<Rightarrow> goerr option" where
  "agg_of U ts fs = (if fs = [] then None else Some (all_failed U ts fs))"

lemma aggregate_step:
  "Some (aggregate U (tr_String (ts ! nat i)) err (agg_of U ts fs)) = agg_of U ts (fs @ [(i, err)])"
  by (simp add: aggregate_def agg_of_def all_failed_def NewTransportError_def failure_text_def last_code_def)

definition pool_report ::
  "unicode \<Rightarrow> 'w transport list \<Rightarrow> raw_message \<Rightarrow> envelope option \<Rightarrow> 'w \<Rightarrow> 'w \<Rightarrow> int list \<Rightarrow> outcome \<Rightarrow> bool" where
  "pool_report U ts msg env w w' is out \<longleftrightarrow>
    (let fs = child_errors ts msg env w is in
     list_all soft (butlast fs) \<and>
     (case out of
        Inl err \<Rightarrow> length fs = length is \<and> err = pool_error U ts fs
      | Inr r \<Rightarrow> length is = Suc (length fs) \<and> list_all soft fs
          \<and> (\<exists>w0 m e. tr_Send (ts ! nat (last is)) msg env w0 = (Inr r, m, e, w'))))"

text \<open>The same from the middle of a run, after the failures \<open>fs\<close>.\<close>

lemma dispatch_run_report:
  assumes "dispatch_run S nxt mark ts msg env agg s w is out s' w'"
    and "agg = agg_of (nl_unicode (sys_lib S)) ts fs" "list_all soft fs"
  shows "let gs = child_errors ts msg env w is in
     list_all soft (butlast gs) \<and>
     (case out of
        Inl err \<Rightarrow> length gs = length is \<and> err = pool_error (nl_unicode (sys_lib S)) ts (fs @ gs)
      | Inr r \<Rightarrow> length is = Suc (length gs) \<and> list_all soft gs
          \<and> (\<exists>w0 m e. tr_Send (ts ! nat (last is)) msg env w0 = (Inr r, m, e, w')))"
  using assms
proof (induction arbitrary: fs rule: dispatch_run.induct)
  case (exhausted w s i s' agg)
  then have "soft (last fs)" if "fs \<noteq> []" using that by (simp add: list_all_iff)
  with exhausted show ?case by (simp add: agg_of_def pool_error_def)
next
  case (delivered w s i s' r m e w' agg)
  then show ?case by auto
next
  case (refused w s i s' err m e w' agg)
  then show ?case by (simp add: pool_error_def)
next
  case (failed w s i s1 err m e w1 agg "is" out s' w')
  let ?gs = "child_errors ts msg env w1 is"
  have gs: "child_errors ts msg env w (i # is) = (i, err) # ?gs" using failed.hyps(3) by simp
  have "list_all soft (fs @ [(i, err)])" using failed.prems(2) failed.hyps(4) by simp
  note IH = failed.IH [OF aggregate_step [of "nl_unicode (sys_lib S)" ts i err fs, folded failed.prems(1)] this]
  from IH failed.hyps(4) show ?case unfolding gs by (auto simp: Let_def split: sum.splits)
qed

lemma dispatch_report:
  assumes "dispatch_run S nxt mark ts msg env None s w is out s' w'"
  shows "pool_report (nl_unicode (sys_lib S)) ts msg env w w' is out"
  using dispatch_run_report [OF assms, of "[]"] by (simp add: agg_of_def pool_report_def Let_def cong: sum.case_cong)

text \<open>What a selection and a mark do to the log.\<close>

locale pool_log =
  fixes nxt :: "int \<Rightarrow> 's \<Rightarrow> (int \<times> 's) option" and mark :: "int \<Rightarrow> int \<Rightarrow> 's \<Rightarrow> 's"
    and logs :: "'s \<Rightarrow> 'r list option" and entry :: "'s \<Rightarrow> int \<Rightarrow> 'r"
  assumes next_log: "nxt now s = Some (i, s') \<Longrightarrow> logs s' = logs s \<and> entry s' = entry s"
    and mark_log: "logs (mark now i s) = map_option (\<lambda>l. l @ [entry s i]) (logs s)" "entry (mark now i s) = entry s"
begin

lemma run_log:
  "dispatch_run S nxt mark ts msg env agg s w is out s' w' \<Longrightarrow>
    logs s' = map_option (\<lambda>l. l @ map (entry s \<circ> fst) (filter soft (child_errors ts msg env w is))) (logs s)"
proof (induction rule: dispatch_run.induct)
  case (failed w s i s1 err m e w1 agg "is" out s' w')
  then show ?case using next_log [OF failed.hyps(1)] by (simp add: mark_log option.map_comp comp_def)
qed (use next_log in \<open>auto simp: option.map_ident\<close>)

end

lemma scan_keeps:
  assumes "scan now t start cursor = Some r"
  shows "rr_logger (snd r) = rr_logger t \<and> rr_retryPeriod (snd r) = rr_retryPeriod t"
  by (rule scan.raw_induct [OF _ assms]) (auto split: if_splits option.splits)

lemma next_keeps:
  "nextTransportLocked now t = Some (i, t') \<Longrightarrow> rr_logger t' = rr_logger t \<and> rr_retryPeriod t' = rr_retryPeriod t"
  unfolding nextTransportLocked_def Let_def by (drule scan_keeps) (simp add: seed_cursor_def Let_def split: if_splits)

interpretation rr_log: pool_log nextTransportLocked "markDead ts" rr_logger "\<lambda>t i. (tr_String (ts ! nat i), rr_retryPeriod t)"
  for ts
  by unfold_locales (auto dest: next_keeps)

interpretation fo_log: pool_log failover_nextTransport "failover_markDead ts" "rr_logger \<circ> fo_rr"
    "\<lambda>f i. (tr_String (ts ! nat i), rr_retryPeriod (fo_rr f))"
  for ts
  by unfold_locales
     (auto simp: failover_nextTransport_def failover_markDead_def dest: next_keeps split: if_splits option.splits)

section \<open>A pool that never returns\<close>

text \<open>
  Two children that fail, each only after the retry period has passed: by the time the second
  one fails, the first one's death has expired, so the loop goes on forever.
\<close>

definition slow_sys :: "netlib \<Rightarrow> int sys" where
  "slow_sys L = \<lparr>sys_lib = L, ctx_Err = \<lambda>w. None, Now = \<lambda>w. \<lparr>t_nanos = w, t_offset = 0\<rparr>,
     sleep_or_done = \<lambda>d w. (None, w + d), rand_stream = \<lambda>w n. Inl 0, rand_used = \<lambda>n w. w, second_div = \<lambda>r. 0\<rparr>"

definition slow_child :: "int transport" where
  "slow_child = \<lparr>tr_Send = \<lambda>m e w. (Inl (NewTransportError ''timeout''), m, e, w + 61000000000),
     tr_String = ''smtp://slow'', tr_Close = None\<rparr>"

definition slow_state :: "rr \<Rightarrow> int \<Rightarrow> bool" where
  "slow_state t w \<longleftrightarrow> rr_inv 2 DefaultRetryPeriod t \<and> rr_initialized t
     \<and> (\<forall>since. rr_dead t (rr_cursor t) = Some since \<longrightarrow> since \<le> w - 61000000000)
     \<and> (\<forall>i since. rr_dead t i = Some since \<longrightarrow> since \<le> w)"

lemma slow_next:
  assumes "slow_state t w"
  shows "nextTransportLocked w t = Some (rr_cursor t,
    t\<lparr>rr_dead := (rr_dead t)(rr_cursor t := None), rr_cursor := 1 - rr_cursor t\<rparr>) \<and> rr_cursor t \<in> {0, 1}"
proof -
  have c: "rr_cursor t = 0 \<or> rr_cursor t = 1" "rr_size t = 2" "rr_initialized t" "rr_retryPeriod t = DefaultRetryPeriod"
    using assms by (auto simp: slow_state_def rr_inv_def)
  have late: "DefaultRetryPeriod < time_Sub w since" if "rr_dead t (rr_cursor t) = Some since" for since
    using that assms by (auto simp: slow_state_def DefaultRetryPeriod_def time_Sub_def)
  have "(rr_dead t)(i := None) = rr_dead t" if "rr_dead t i = None" for i using that by auto
  then show ?thesis
    using c late unfolding nextTransportLocked_def Let_def
    by (subst scan.simps) (auto simp: seed_cursor_def moveCursor_def split: option.splits)
qed

lemma slow_never:
  "dispatch_run (slow_sys L) nextTransportLocked (markDead [slow_child, slow_child]) [slow_child, slow_child] msg env agg t w is out t' w'
    \<Longrightarrow> slow_state t w \<Longrightarrow> False"
proof (induction rule: dispatch_run.induct)
  case (failed w s i s1 err m e w1 agg "is" out s' w')
  have nx: "s1 = s\<lparr>rr_dead := (rr_dead s)(rr_cursor s := None), rr_cursor := 1 - rr_cursor s\<rparr>"
      "i = rr_cursor s" "rr_cursor s \<in> {0, 1}"
    using failed.hyps(1) slow_next [OF failed.prems] by (auto simp: now_nanos_def slow_sys_def)
  have "tr_Send ([slow_child, slow_child] ! nat i) msg env w
      = (Inl (NewTransportError ''timeout''), msg, env, w + 61000000000)"
    using nx by (auto simp: slow_child_def)
  with failed.hyps(3) have w1: "w1 = w + 61000000000" by simp
  have old: "since \<le> w" if "rr_dead s j = Some since" for j since
    using failed.prems that unfolding slow_state_def by blast
  consider "rr_cursor s = 0" | "rr_cursor s = 1" using nx(3) by blast
  then have "slow_state (markDead [slow_child, slow_child] (now_nanos (slow_sys L) w1) i s1) w1"
    using failed.prems nx(1,2) w1
    by cases (auto simp: slow_state_def rr_inv_def now_nanos_def slow_sys_def dest: old)
  then show ?case by (rule failed.IH)
next
  case (exhausted w s i s' agg)
  then show ?case using slow_next [of s w] by (auto simp: now_nanos_def slow_sys_def)
next
  case (delivered w s i s' r m e w' agg)
  then have "nat i < 2" using slow_next [of s w] by (auto simp: now_nanos_def slow_sys_def)
  with delivered show ?case by (auto simp: slow_child_def less_Suc_eq numeral_2_eq_2)
next
  case (refused w s i s' err m e w' agg)
  then have "nat i < 2" using slow_next [of s w] by (auto simp: now_nanos_def slow_sys_def)
  with refused show ?case
    by (auto simp: slow_child_def less_Suc_eq numeral_2_eq_2 isTransportError_def NewTransportError_def)
qed

end
