(* ===== verification/Router.thy ===== *)
theory Router
  imports Pool_Props
begin

text \<open>
  The router over named transports (\<^verbatim>\<open>transports.go\<close>) and the null transport
  (\<^verbatim>\<open>null.go\<close>). A Go map from names to transports is an association list with distinct keys.
\<close>

section \<open>Routing\<close>

definition transportHeader :: bytes where
  "transportHeader = ''X-Transport''"

record 'w router =
  ro_transports :: "(bytes \<times> 'w transport) list"
  ro_order :: "bytes list"
  ro_defaultName :: bytes

text \<open>The loop that keeps the names of \<open>order\<close> that exist, each once.\<close>

fun clean_order :: "bytes list \<Rightarrow> bytes list \<Rightarrow> bytes list \<Rightarrow> bytes list" where
  "clean_order keys seen [] = []"
| "clean_order keys seen (name # order) =
    (if name \<in> set keys \<and> name \<notin> set seen then name # clean_order keys (name # seen) order
     else clean_order keys seen order)"

definition NewTransports :: "(bytes \<times> 'w transport) list \<Rightarrow> bytes list option \<Rightarrow> goerr + 'w router" where
  "NewTransports transports order =
    (if transports = [] then
       Inl (Errorf ''%w: Transports must have at least one transport configured'' [OErr (Sentinel ErrLogic)])
     else
       (let keys = map fst transports;
            order = (case order of None \<Rightarrow> sort keys | Some o' \<Rightarrow> o');
            cleaned = clean_order keys [] order;
            extra = sort (filter (\<lambda>name. name \<notin> set cleaned) keys);
            cleaned = (if length cleaned < length transports then cleaned @ extra else cleaned)
        in Inr \<lparr>ro_transports = transports, ro_order = cleaned, ro_defaultName = hd cleaned\<rparr>))"

text \<open>
  \<^verbatim>\<open>Send\<close>. A message is cloned, so the caller's message is returned unchanged; a raw message
  and the envelope are passed on as they are.
\<close>

definition router_Send ::
  "'w router \<Rightarrow> raw_message \<Rightarrow> envelope option \<Rightarrow> 'w \<Rightarrow> outcome \<times> raw_message \<times> envelope option \<times> 'w" where
  "router_Send t msg envelope w =
    (case msg of
       MsgRaw m \<Rightarrow>
         (case Header m transportHeader of
            None \<Rightarrow>
              (case tr_Send (the (map_of (ro_transports t) (ro_defaultName t))) (MsgRaw (Message_Clone m)) envelope w of
                 (out, _, e, w) \<Rightarrow> (out, msg, e, w))
          | Some name \<Rightarrow>
              (case map_of (ro_transports t) name of
                 None \<Rightarrow>
                   (Inl (Errorf ''%w: the %q transport does not exist (available transports: %q)''
                      [OErr (Sentinel ErrInvalidArgument), OStr name,
                       OStr (Join (ro_order t) [CHR 0x22, CHR '','', SP, CHR 0x22])]), msg, envelope, w)
               | Some target \<Rightarrow>
                   (case tr_Send target (MsgRaw (RemoveHeader (Message_Clone m) transportHeader)) envelope w of
                      (out, _, e, w) \<Rightarrow> (out, msg, e, w))))
     | _ \<Rightarrow> tr_Send (the (map_of (ro_transports t) (ro_defaultName t))) msg envelope w)"

definition router_String :: "'w router \<Rightarrow> bytes" where
  "router_String t = ''['' @ Join (ro_order t) '','' @ '']''"

definition router_Close :: "'w router \<Rightarrow> 'w \<Rightarrow> goerr option \<times> 'w" where
  "router_Close t w = closeAll (map (\<lambda>name. the (map_of (ro_transports t) name)) (ro_order t)) w"

section \<open>The null transport\<close>

definition NewNullTransport :: "'w base_transport" where
  "NewNullTransport = \<lparr>bt_Name = ''null://'', bt_DoSend = Some (\<lambda>sm w. Some (None, sm, w)),
     bt_maxPerSecond = 0, bt_lastSent = zero_time\<rparr>"

lemmas router_eval [go_eval] =
  transportHeader_def NewTransports_def router_Send_def router_String_def router_Close_def NewNullTransport_def

section \<open>Facts\<close>

lemma clean_order_set:
  "set (clean_order keys seen order) = set order \<inter> set keys - set seen \<and> distinct (clean_order keys seen order)"
  by (induction keys seen order rule: clean_order.induct) auto

text \<open>
  The router's invariant: the order lists every name exactly once and the default is its
  first entry.
\<close>

definition router_wf :: "'w router \<Rightarrow> bool" where
  "router_wf t \<longleftrightarrow> distinct (ro_order t) \<and> set (ro_order t) = fst ` set (ro_transports t)
     \<and> ro_order t \<noteq> [] \<and> ro_defaultName t = hd (ro_order t)"

lemma NewTransports_wf:
  assumes "NewTransports ts order = Inr t" "distinct (map fst ts)"
  shows "router_wf t \<and> ro_transports t = ts"
proof -
  let ?o = "case order of None \<Rightarrow> sort (map fst ts) | Some o' \<Rightarrow> o'"
  let ?c = "clean_order (map fst ts) [] ?o"
  let ?x = "sort (filter (\<lambda>name. name \<notin> set ?c) (map fst ts))"
  have c: "set ?c \<subseteq> set (map fst ts)" "distinct ?c" using clean_order_set [of "map fst ts" "[]" ?o] by auto
  have full: "set ?c = set (map fst ts)" if "\<not> length ?c < length ts"
    using that c assms(2) distinct_card [OF c(2)] distinct_card [OF assms(2)]
    by (intro card_seteq) auto
  have "ts \<noteq> []" using assms(1) by (auto simp: NewTransports_def)
  have o: "t = \<lparr>ro_transports = ts, ro_order = (if length ?c < length ts then ?c @ ?x else ?c),
      ro_defaultName = hd (if length ?c < length ts then ?c @ ?x else ?c)\<rparr>"
    using assms(1) \<open>ts \<noteq> []\<close> by (auto simp: NewTransports_def Let_def)
  have "distinct (?c @ ?x)" "set (?c @ ?x) = set (map fst ts)" using c assms(2) by auto
  with full c(2) have "distinct (ro_order t) \<and> set (ro_order t) = set (map fst ts)" unfolding o by auto
  moreover from this have "ro_order t \<noteq> []" using \<open>ts \<noteq> []\<close> by auto
  ultimately show ?thesis unfolding router_wf_def o by auto
qed

lemma router_default_exists: "router_wf t \<Longrightarrow> \<exists>d. map_of (ro_transports t) (ro_defaultName t) = Some d"
proof -
  assume "router_wf t"
  then have "ro_defaultName t \<in> fst ` set (ro_transports t)" by (metis router_wf_def hd_in_set)
  then show ?thesis by (metis map_of_eq_None_iff not_None_eq)
qed

text \<open>The header store's laws give what a routed child sees.\<close>

lemma routed_headers:
  "Header (RemoveHeader m transportHeader) k =
    (if canonicalHeaderName k = canonicalHeaderName transportHeader then None else Header m k)"
  by (rule hstore.get_del)

lemma router_Send_known:
  assumes "Header m transportHeader = Some name" "map_of (ro_transports t) name = Some target"
  shows "router_Send t (MsgRaw m) env w =
    (case tr_Send target (MsgRaw (RemoveHeader m transportHeader)) env w of (out, _, e, w') \<Rightarrow> (out, MsgRaw m, e, w'))"
  using assms by (simp add: router_Send_def split: prod.splits)

lemma router_Send_unknown:
  assumes "Header m transportHeader = Some name" "map_of (ro_transports t) name = None"
  shows "\<exists>err. router_Send t (MsgRaw m) env w = (Inl err, MsgRaw m, env, w) \<and> errors_Is err ErrInvalidArgument"
  using assms by (simp add: router_Send_def)

text \<open>The null transport accepts exactly what the pipeline lets through, and changes nothing.\<close>

lemma null_Send:
  assumes "ctx_Err S w = None" "\<And>w n. ctx_Err S (rand_used S n w) = ctx_Err S w"
    and "NewSentMessage S (MsgRaw m) (Some e) w = (Inr sm, w')"
  shows "base_Send S NewNullTransport (MsgRaw m) (Some e) w = Some (Inr (Some sm), NewNullTransport, w')"
proof -
  have "w' = w \<or> (\<exists>n. w' = rand_used S n w)"
    using assms(3) by (auto simp: NewSentMessage_def isNilRawMessage_def Let_def
        split: option.splits prod.splits sum.splits)
  then have "ctx_Err S w' = None" using assms(1,2) by auto
  with assms(1,3) show ?thesis
    by (simp add: base_Send_def NewNullTransport_def checkThrottling_def isNilRawMessage_def)
qed

end
