(* ===== verification/Registry.thy ===== *)
theory Registry
  imports Router
begin

text \<open>
  Mailer DSNs (\<^verbatim>\<open>dsn.go\<close>), the factory interface (\<^verbatim>\<open>factory.go\<close>, \<^verbatim>\<open>null.go\<close>) and the
  registry with its recursive-descent parser of composite DSNs and its list of default
  factories (\<^verbatim>\<open>registry.go\<close>).
  \<^verbatim>\<open>url.Parse\<close> is a parameter. The parser of the source keeps an offset into the DSN and reads
  only what lies behind it, so the model passes that rest of the string: a returned offset is
  the rest after the consumed part. Its mutual recursion carries fuel; \<open>None\<close> means that
  the fuel ran out.
\<close>

section \<open>Single DSNs\<close>

record url =
  u_Scheme :: bytes
  u_Hostname :: bytes
  u_Port :: bytes
  u_User :: "(bytes \<times> bytes option) option"
  u_Query :: "(bytes \<times> bytes list) list"

record dsn =
  dsn_scheme :: bytes
  dsn_host :: bytes
  dsn_user :: bytes
  dsn_password :: bytes
  dsn_hasUser :: bool
  dsn_hasPass :: bool
  dsn_port :: int
  dsn_hasPort :: bool
  dsn_options :: "(bytes \<times> bytes) list"

definition dsn_invalid :: goerr where
  "dsn_invalid = Errorf ''%w: the mailer DSN is invalid'' [OErr (Sentinel ErrInvalidArgument)]"

definition dsn_port_of :: "bytes \<Rightarrow> goerr + int option" where
  "dsn_port_of p =
    (if p = [] then Inr None
     else case Atoi p of
       None \<Rightarrow> Inl (Errorf ''%w: the mailer DSN has an invalid port %q'' [OErr (Sentinel ErrInvalidArgument), OStr p])
     | Some port \<Rightarrow>
         if port < 0 \<or> 65535 < port then
           Inl (Errorf ''%w: the mailer DSN has an invalid port %q'' [OErr (Sentinel ErrInvalidArgument), OStr p])
         else Inr (Some port))"

definition ParseDSN :: "(bytes \<Rightarrow> url option) \<Rightarrow> bytes \<Rightarrow> goerr + dsn" where
  "ParseDSN url_Parse s =
    (case url_Parse s of
       None \<Rightarrow> Inl dsn_invalid
     | Some u \<Rightarrow>
         if u_Scheme u = [] then
           Inl (Errorf ''%w: the mailer DSN must contain a scheme'' [OErr (Sentinel ErrInvalidArgument)])
         else
           (let host = (if u_Hostname u = [] \<and> u_Scheme u = ''null'' then ''null'' else u_Hostname u);
                user = (case u_User u of Some (name, _) \<Rightarrow> name | None \<Rightarrow> []);
                pass = (case u_User u of Some (_, Some p) \<Rightarrow> p | _ \<Rightarrow> []) in
            if host = [] then
              (if Contains s ''://'' then Inl dsn_invalid
               else Inl (Errorf (''%w: the mailer DSN must contain a host (use '' @ [CHR 0x22] @ ''default'' @ [CHR 0x22] @ '' by default)'')
                      [OErr (Sentinel ErrInvalidArgument)]))
            else bindE (dsn_port_of (u_Port u)) (\<lambda>port.
              Inr \<lparr>dsn_scheme = u_Scheme u, dsn_host = host, dsn_user = user, dsn_password = pass,
                    dsn_hasUser = (user \<noteq> []), dsn_hasPass = (pass \<noteq> []),
                    dsn_port = (case port of Some p \<Rightarrow> p | None \<Rightarrow> 0), dsn_hasPort = (port \<noteq> None),
                    dsn_options = map (\<lambda>(k, vals). (k, if vals \<noteq> [] then last vals else [])) (u_Query u)\<rparr>)))"

definition dsn_Port :: "dsn \<Rightarrow> int \<Rightarrow> int" where
  "dsn_Port d def = (if dsn_hasPort d then dsn_port d else def)"

definition dsn_Option :: "dsn \<Rightarrow> bytes \<Rightarrow> bytes \<Rightarrow> bytes" where
  "dsn_Option d key def = (case map_of (dsn_options d) key of Some v \<Rightarrow> v | None \<Rightarrow> def)"

definition parseBool :: "unicode \<Rightarrow> bytes \<Rightarrow> bool" where
  "parseBool U v \<longleftrightarrow> ToLower U (TrimSpace v) \<in> {''1'', ''true'', ''on'', ''yes''}"

definition dsn_BoolOption :: "unicode \<Rightarrow> dsn \<Rightarrow> bytes \<Rightarrow> bool \<Rightarrow> bool" where
  "dsn_BoolOption U d key def = (case map_of (dsn_options d) key of None \<Rightarrow> def | Some v \<Rightarrow> parseBool U v)"

section \<open>Factories\<close>

text \<open>
  A factory builds a value of type \<open>'a\<close>, the transport; \<open>fa_Schemes\<close> is \<open>None\<close> when it does not
  list its schemes.
\<close>

record 'a factory =
  fa_Create :: "dsn \<Rightarrow> goerr + 'a"
  fa_Supports :: "dsn \<Rightarrow> bool"
  fa_Schemes :: "bytes list option"

definition unsupportedSchemeError :: "dsn \<Rightarrow> bytes list \<Rightarrow> goerr" where
  "unsupportedSchemeError d supported =
    (if supported \<noteq> [] then
       Errorf ''%w: the %q scheme is not supported; supported schemes are: %q''
         [OErr (Sentinel ErrUnsupportedScheme), OStr (dsn_scheme d), OStrs supported]
     else Errorf ''%w: the %q scheme is not supported'' [OErr (Sentinel ErrUnsupportedScheme), OStr (dsn_scheme d)])"

definition null_Supports :: "dsn \<Rightarrow> bool" where
  "null_Supports d \<longleftrightarrow> dsn_scheme d = ''null''"

definition null_Create :: "'a \<Rightarrow> dsn \<Rightarrow> goerr + 'a" where
  "null_Create null d =
    (if \<not> null_Supports d then
       Inl (Errorf ''%w: the %q scheme is not supported; supported schemes are: %q''
              [OErr (Sentinel ErrUnsupportedScheme), OStr (dsn_scheme d), OStrs [''null'']])
     else Inr null)"

definition NullFactory :: "'a \<Rightarrow> 'a factory" where
  "NullFactory null = \<lparr>fa_Create = null_Create null, fa_Supports = null_Supports, fa_Schemes = Some [''null'']\<rparr>"

definition supportedSchemes :: "'a factory list \<Rightarrow> bytes list" where
  "supportedSchemes factories = concat (map (\<lambda>f. case fa_Schemes f of Some ss \<Rightarrow> ss | None \<Rightarrow> []) factories)"

fun fromDSNObject_loop :: "'a factory list \<Rightarrow> 'a factory list \<Rightarrow> dsn \<Rightarrow> goerr + 'a" where
  "fromDSNObject_loop factories [] d = Inl (unsupportedSchemeError d (supportedSchemes factories))"
| "fromDSNObject_loop factories (f # fs) d =
    (if fa_Supports f d then fa_Create f d else fromDSNObject_loop factories fs d)"

definition fromDSNObject :: "'a factory list \<Rightarrow> dsn \<Rightarrow> goerr + 'a" where
  "fromDSNObject factories d = fromDSNObject_loop factories factories d"

section \<open>Composite DSNs\<close>

text \<open>What a DSN resolves to: a transport, or a composite with its retry period.\<close>

datatype 'a dtree = Single 'a | Failover "'a dtree list" duration | RoundRobin "'a dtree list" duration

text \<open>\<^verbatim>\<open>matchBalancedParen\<close>, on the text from the opening parenthesis on, without its index.\<close>

fun balanced :: "nat \<Rightarrow> bytes \<Rightarrow> bool" where
  "balanced dep [] \<longleftrightarrow> False"
| "balanced dep (c # s) \<longleftrightarrow>
    (if c = CHR ''('' then balanced (dep + 1) s
     else if c = CHR '')'' then (if dep = 1 then True else balanced (dep - 1) s)
     else balanced dep s)"

definition matchBalancedParen :: "bytes \<Rightarrow> bool" where
  "matchBalancedParen s \<longleftrightarrow> s \<noteq> [] \<and> hd s = CHR ''('' \<and> balanced 0 s"

definition retry_key :: bytes where
  "retry_key = ''retry_period=''"

text \<open>The 64-bit accumulation of the digits.\<close>

definition period_value :: "bytes \<Rightarrow> int" where
  "period_value val = foldl (\<lambda>p c. wrap64 (p * 10 + (int (byte c) - 48))) 0 val"

text \<open>\<^verbatim>\<open>parseRetryPeriod\<close>: the period and what is left of the text.\<close>

definition parseRetryPeriod :: "bytes \<Rightarrow> goerr + int \<times> bytes" where
  "parseRetryPeriod s =
    (if s = [] \<or> hd s \<noteq> CHR ''?'' then Inr (0, s)
     else
       (let query = tl s in
        if \<not> HasPrefix query retry_key then Inr (0, s)
        else
          (let val = drop (length retry_key) query;
               val = (case IndexByte val (CHR ''&'') of Some amp \<Rightarrow> take amp val | None \<Rightarrow> val) in
           if val = [] \<or> \<not> list_all is_digit val then
             Inl (Errorf ''%w: retry_period must be an integer'' [OErr (Sentinel ErrInvalidArgument)])
           else Inr (period_value val, drop (length (retry_key @ val) + 1) s))))"

definition ident_byte :: "char \<Rightarrow> bool" where
  "ident_byte c \<longleftrightarrow> c = CHR ''_'' \<or> is_alnum c"

definition leadingKeyword :: "bytes \<Rightarrow> bytes option" where
  "leadingKeyword s =
    (let i = takeWhile ident_byte s; rest = dropWhile ident_byte s in
     if i \<noteq> [] \<and> rest \<noteq> [] \<and> hd rest = CHR ''('' then Some i else None)"

definition keyword_error :: "bytes \<Rightarrow> goerr" where
  "keyword_error name =
    Errorf (''%w: the %q keyword is not valid (valid ones are '' @ [CHR 0x22] @ ''failover'' @ [CHR 0x22] @ '', ''
              @ [CHR 0x22] @ ''roundrobin'' @ [CHR 0x22] @ '')'')
      [OErr (Sentinel ErrInvalidArgument), OStr name]"

definition unbalanced_error :: "bytes \<Rightarrow> bytes \<Rightarrow> goerr" where
  "unbalanced_error s name =
    Errorf ''%w: the mailer DSN %q has unbalanced parentheses in the %q group''
      [OErr (Sentinel ErrInvalidArgument), OStr s, OStr name]"

text \<open>\<^verbatim>\<open>time.Duration(period) * time.Second\<close> and the constructors' default.\<close>

definition retry_of :: "int \<Rightarrow> duration" where
  "retry_of period = (let rp = wrap64 (period * 1000000000) in if rp \<le> 0 then DefaultRetryPeriod else rp)"

text \<open>The part after the keywords: a single DSN up to the next space or closing parenthesis.\<close>

definition parse_single :: "(bytes \<Rightarrow> goerr + 'a) \<Rightarrow> bytes \<Rightarrow> goerr + 'a dtree \<times> bytes" where
  "parse_single resolve s =
    (case leadingKeyword s of
       Some name \<Rightarrow> Inl (keyword_error name)
     | None \<Rightarrow>
         (case IndexAny s '' )'' of
            None \<Rightarrow> bindE (resolve s) (\<lambda>t. Inr (Single t, []))
          | Some pos \<Rightarrow> bindE (resolve (take pos s)) (\<lambda>t. Inr (Single t, drop pos s))))"

definition finish_group :: "('a dtree list \<Rightarrow> duration \<Rightarrow> 'a dtree) \<Rightarrow> 'a dtree list \<Rightarrow> bytes \<Rightarrow> goerr + 'a dtree \<times> bytes" where
  "finish_group constructor args s =
    bindE (parseRetryPeriod s) (\<lambda>(period, rest). Inr (constructor args (retry_of period), rest))"

fun parseDSN :: "(bytes \<Rightarrow> goerr + 'a) \<Rightarrow> nat \<Rightarrow> bytes \<Rightarrow> (goerr + 'a dtree \<times> bytes) option"
  and parse_args :: "(bytes \<Rightarrow> goerr + 'a) \<Rightarrow> nat \<Rightarrow> bytes \<Rightarrow> (goerr + 'a dtree list \<times> bytes) option" where
  "parseDSN resolve 0 s = None"
| "parseDSN resolve (Suc k) s =
    (if HasPrefix s ''failover('' then
       (if \<not> matchBalancedParen (drop 8 s) then Some (Inl (unbalanced_error s ''failover''))
        else case parse_args resolve k (drop 9 s) of
          None \<Rightarrow> None
        | Some (Inl e) \<Rightarrow> Some (Inl e)
        | Some (Inr (args, rest)) \<Rightarrow> Some (finish_group Failover args rest))
     else if HasPrefix s ''roundrobin('' then
       (if \<not> matchBalancedParen (drop 10 s) then Some (Inl (unbalanced_error s ''roundrobin''))
        else case parse_args resolve k (drop 11 s) of
          None \<Rightarrow> None
        | Some (Inl e) \<Rightarrow> Some (Inl e)
        | Some (Inr (args, rest)) \<Rightarrow> Some (finish_group RoundRobin args rest))
     else Some (parse_single resolve s))"
| "parse_args resolve 0 s = None"
| "parse_args resolve (Suc k) s =
    (case parseDSN resolve k s of
       None \<Rightarrow> None
     | Some (Inl e) \<Rightarrow> Some (Inl e)
     | Some (Inr (arg, [])) \<Rightarrow> Some (Inr ([arg], []))
     | Some (Inr (arg, c # rest)) \<Rightarrow>
         if c = CHR '')'' then Some (Inr ([arg], rest))
         else (case parse_args resolve k rest of
           None \<Rightarrow> None
         | Some (Inl e) \<Rightarrow> Some (Inl e)
         | Some (Inr (args, rest')) \<Rightarrow> Some (Inr (arg # args, rest'))))"

definition resolve_single :: "(bytes \<Rightarrow> url option) \<Rightarrow> 'a factory list \<Rightarrow> bytes \<Rightarrow> goerr + 'a" where
  "resolve_single url_Parse factories s = bindE (ParseDSN url_Parse s) (fromDSNObject factories)"

text \<open>The fuel that is always enough, see \<open>parseDSN_fuel\<close>.\<close>

definition parse_fuel :: "bytes \<Rightarrow> nat" where
  "parse_fuel s = 2 * length s + 1"

definition FromString :: "(bytes \<Rightarrow> url option) \<Rightarrow> 'a factory list \<Rightarrow> bytes \<Rightarrow> (goerr + 'a dtree) option" where
  "FromString url_Parse factories s =
    (case parseDSN (resolve_single url_Parse factories) (parse_fuel s) s of
       None \<Rightarrow> None
     | Some (Inl e) \<Rightarrow> Some (Inl e)
     | Some (Inr (t, rest)) \<Rightarrow>
         if rest \<noteq> [] then
           Some (Inl (Errorf ''%w: the mailer DSN has some garbage at the end'' [OErr (Sentinel ErrInvalidArgument)]))
         else Some (Inr t))"

text \<open>
  \<^verbatim>\<open>FromStrings\<close>: the named transports, resolved in sorted order; \<open>build name\<close> gives the reference to
  the objects of a tree.
\<close>

fun resolve_all ::
  "(bytes \<Rightarrow> url option) \<Rightarrow> 'a factory list \<Rightarrow> (bytes \<times> bytes) list \<Rightarrow> bytes list \<Rightarrow> (goerr + (bytes \<times> 'a dtree) list) option" where
  "resolve_all url_Parse factories named [] = Some (Inr [])"
| "resolve_all url_Parse factories named (name # names) =
    (case FromString url_Parse factories (the (map_of named name)) of
       None \<Rightarrow> None
     | Some (Inl e) \<Rightarrow> Some (Inl e)
     | Some (Inr t) \<Rightarrow> map_option (map_sum id ((#) (name, t))) (resolve_all url_Parse factories named names))"

definition FromStrings ::
  "(bytes \<Rightarrow> url option) \<Rightarrow> 'a factory list \<Rightarrow> (bytes \<Rightarrow> 'a dtree \<Rightarrow> 'w transport) \<Rightarrow> (bytes \<times> bytes) list \<Rightarrow> (goerr + 'w router) option" where
  "FromStrings url_Parse factories build named =
    (let order = sort (map fst named) in
     case resolve_all url_Parse factories named order of
       None \<Rightarrow> None
     | Some (Inl e) \<Rightarrow> Some (Inl e)
     | Some (Inr ts) \<Rightarrow> Some (NewTransports (map (\<lambda>(name, t). (name, build name t)) ts) (Some order)))"

section \<open>Default factories\<close>

text \<open>The process-wide list of factory constructors, and the registry made of it.\<close>

type_synonym 'a default_factories = "(unit \<Rightarrow> 'a factory) list"

definition RegisterDefaultFactory :: "(unit \<Rightarrow> 'a factory) \<Rightarrow> 'a default_factories \<Rightarrow> 'a default_factories" where
  "RegisterDefaultFactory newFactory defaults = defaults @ [newFactory]"

definition NewRegistry :: "'a factory list \<Rightarrow> 'a factory list" where
  "NewRegistry factories = factories"

definition DefaultRegistry :: "'a default_factories \<Rightarrow> 'a factory list" where
  "DefaultRegistry defaults = NewRegistry (map (\<lambda>newFactory. newFactory ()) defaults)"

definition FromDSN :: "(bytes \<Rightarrow> url option) \<Rightarrow> 'a default_factories \<Rightarrow> bytes \<Rightarrow> (goerr + 'a dtree) option" where
  "FromDSN url_Parse defaults s = FromString url_Parse (DefaultRegistry defaults) s"

definition FromDSNs ::
  "(bytes \<Rightarrow> url option) \<Rightarrow> 'a default_factories \<Rightarrow> (bytes \<Rightarrow> 'a dtree \<Rightarrow> 'w transport) \<Rightarrow> (bytes \<times> bytes) list \<Rightarrow> (goerr + 'w router) option" where
  "FromDSNs url_Parse defaults build named = FromStrings url_Parse (DefaultRegistry defaults) build named"

lemmas registry_eval [go_eval] =
  dsn_invalid_def dsn_port_of_def ParseDSN_def dsn_Port_def dsn_Option_def parseBool_def dsn_BoolOption_def
  unsupportedSchemeError_def null_Supports_def null_Create_def NullFactory_def supportedSchemes_def
  fromDSNObject_def matchBalancedParen_def retry_key_def period_value_def parseRetryPeriod_def ident_byte_def
  leadingKeyword_def keyword_error_def unbalanced_error_def retry_of_def parse_single_def finish_group_def
  resolve_single_def parse_fuel_def FromString_def FromStrings_def RegisterDefaultFactory_def NewRegistry_def DefaultRegistry_def
  FromDSN_def FromDSNs_def

end
