(* ===== verification/Registry_Props.thy ===== *)
theory Registry_Props
  imports Registry
begin

text \<open>
  Facts about the DSN parser: it always returns, what it leaves is a shorter rest of its
  input, a rendered composite parses back to its tree, its errors are classified, and the
  arithmetic of the retry period.
\<close>

section \<open>Fuel\<close>

lemma drop_less: "HasPrefix s p \<Longrightarrow> p \<noteq> [] \<Longrightarrow> length (drop (length p) s) < length s"
  by (auto simp: HasPrefix_iff)

lemma parseRetryPeriod_rest: "parseRetryPeriod s = Inr (n, rest) \<Longrightarrow> length rest \<le> length s"
  by (auto simp: parseRetryPeriod_def Let_def split: if_splits option.splits)

lemma finish_group_rest: "finish_group con args s = Inr (t, rest) \<Longrightarrow> length rest \<le> length s"
  by (auto simp: finish_group_def bindE_eq_Inr dest: parseRetryPeriod_rest)

lemma parse_single_rest: "parse_single resolve s = Inr (t, rest) \<Longrightarrow> length rest \<le> length s"
  by (auto simp: parse_single_def bindE_eq_Inr split: option.splits)

lemma parse_rest:
  shows "parseDSN resolve k s = Some (Inr (t, rest)) \<Longrightarrow> length rest \<le> length s"
    and "parse_args resolve k s = Some (Inr (ts, rest)) \<Longrightarrow> length rest \<le> length s"
proof (induction resolve k s and resolve k s arbitrary: t rest and ts rest rule: parseDSN_parse_args.induct)
  case (2 resolve k s)
  then show ?case
    by (auto split: if_splits option.splits sum.splits dest!: finish_group_rest parse_single_rest)
next
  case (4 resolve k s)
  then show ?case
    by (fastforce split: option.splits sum.splits list.splits if_splits)
qed auto

lemma parseDSN_fuel:
  shows "2 * length s + 1 \<le> k \<Longrightarrow> parseDSN resolve k s \<noteq> None"
    and "2 * length s + 2 \<le> k \<Longrightarrow> parse_args resolve k s \<noteq> None"
proof (induction resolve k s and resolve k s rule: parseDSN_parse_args.induct)
  case (2 resolve k s)
  have "HasPrefix s ''failover('' \<and> matchBalancedParen (drop 8 s) \<longrightarrow> parse_args resolve k (drop 9 s) \<noteq> None"
    using drop_less [of s "''failover(''"] 2 by auto
  moreover have "\<not> HasPrefix s ''failover('' \<and> HasPrefix s ''roundrobin('' \<and> matchBalancedParen (drop 10 s)
      \<longrightarrow> parse_args resolve k (drop 11 s) \<noteq> None"
    using drop_less [of s "''roundrobin(''"] 2 by auto
  ultimately show ?case by (auto split: option.splits sum.splits)
next
  case (4 resolve k s)
  then obtain r where r: "parseDSN resolve k s = Some r" by auto
  show ?case
  proof (cases r)
    case (Inr p)
    obtain t rest where p: "p = (t, rest)" by (cases p)
    show ?thesis
    proof (cases rest)
      case (Cons c rest')
      have "length rest \<le> length s" using parse_rest(1) r Inr p by blast
      with Cons 4(3) have "2 * length rest' + 2 \<le> k" by simp
      with 4(2) r Inr p Cons have "c \<noteq> CHR '')'' \<longrightarrow> parse_args resolve k rest' \<noteq> None" by blast
      with r Inr p Cons show ?thesis by (auto split: option.splits sum.splits)
    qed (use r Inr p in simp)
  qed (use r in simp)
qed auto

section \<open>Parsing a rendered composite\<close>

text \<open>
  A composite DSN as text, without retry periods on inner groups (the parser accepts none
  there), and the trees this is meant for: non-empty groups over single DSNs free of spaces
  and parentheses that resolve.
\<close>

fun show_dsn :: "bytes dtree \<Rightarrow> bytes" where
  "show_dsn (Single s) = s"
| "show_dsn (Failover ts p) = ''failover('' @ Join (map show_dsn ts) '' '' @ '')''"
| "show_dsn (RoundRobin ts p) = ''roundrobin('' @ Join (map show_dsn ts) '' '' @ '')''"

fun dtree_ok :: "(bytes \<Rightarrow> goerr + 'a) \<Rightarrow> (bytes \<Rightarrow> 'a) \<Rightarrow> bytes dtree \<Rightarrow> bool" where
  "dtree_ok resolve f (Single s) \<longleftrightarrow>
     resolve s = Inr (f s) \<and> (\<forall>c \<in> set s. c \<noteq> SP \<and> c \<noteq> CHR ''('' \<and> c \<noteq> CHR '')'')"
| "dtree_ok resolve f (Failover ts p) \<longleftrightarrow> ts \<noteq> [] \<and> p = DefaultRetryPeriod \<and> list_all (dtree_ok resolve f) ts"
| "dtree_ok resolve f (RoundRobin ts p) \<longleftrightarrow> ts \<noteq> [] \<and> p = DefaultRetryPeriod \<and> list_all (dtree_ok resolve f) ts"

definition stop :: "bytes \<Rightarrow> bool" where
  "stop rest \<longleftrightarrow> rest = [] \<or> hd rest = SP \<or> hd rest = CHR '')''"

lemma parse_mono:
  shows "parseDSN resolve k s = Some r \<Longrightarrow> k \<le> k' \<Longrightarrow> parseDSN resolve k' s = Some r"
    and "parse_args resolve k s = Some r' \<Longrightarrow> k \<le> k' \<Longrightarrow> parse_args resolve k' s = Some r'"
proof (induction resolve k s and resolve k s arbitrary: r k' and r' k' rule: parseDSN_parse_args.induct)
  case (2 resolve k s)
  obtain j where j: "k' = Suc j" "k \<le> j" using 2(4) by (cases k') auto
  show ?case
    using 2(1) [of _ j] 2(2) [of _ j] 2(3) j(2)
    unfolding j(1) by (auto split: if_splits option.splits)
next
  case (4 resolve k s)
  obtain j where j: "k' = Suc j" "k \<le> j" using 4(4) by (cases k') auto
  from 4(3) obtain q where q: "parseDSN resolve k s = Some q" by (auto split: option.splits)
  then have q': "parseDSN resolve j s = Some q" using 4(1) j(2) by blast
  show ?case
  proof (cases q)
    case (Inl e)
    with q q' 4(3) show ?thesis unfolding j(1) by simp
  next
    case (Inr p)
    obtain t rest where p: "p = (t, rest)" by (cases p)
    show ?thesis
    proof (cases rest)
      case Nil
      with q q' Inr p 4(3) show ?thesis unfolding j(1) by simp
    next
      case (Cons c rest')
      show ?thesis
      proof (cases "c = CHR '')''")
        case True
        with q q' Inr p Cons 4(3) show ?thesis unfolding j(1) by simp
      next
        case False
        with q Inr p Cons 4(3) obtain x where x: "parse_args resolve k rest' = Some x"
          by (auto split: option.splits)
        then have "parse_args resolve j rest' = Some x" using 4(2) [OF q] Inr p Cons False j(2) by blast
        with q q' Inr p Cons False x 4(3) show ?thesis unfolding j(1) by simp
      qed
    qed
  qed
qed auto

lemma balanced_plain: "\<forall>c \<in> set s. c \<noteq> CHR ''('' \<and> c \<noteq> CHR '')'' \<Longrightarrow> balanced n (s @ r) = balanced n r"
  by (induction s) auto

lemma balanced_show: "dtree_ok resolve f t \<Longrightarrow> 0 < n \<Longrightarrow> balanced n (show_dsn t @ r) = balanced n r"
proof (induction t arbitrary: n r)
  case (Single s)
  then show ?case by (simp add: balanced_plain)
next
  case (Failover ts p)
  have "balanced (Suc n) (Join (map show_dsn ts) '' '' @ r) = balanced (Suc n) r" for r
    using Failover by (induction ts rule: induct_list012) (auto simp: list_all_iff)
  then show ?case using \<open>0 < n\<close> by simp
next
  case (RoundRobin ts p)
  have "balanced (Suc n) (Join (map show_dsn ts) '' '' @ r) = balanced (Suc n) r" for r
    using RoundRobin by (induction ts rule: induct_list012) (auto simp: list_all_iff)
  then show ?case using \<open>0 < n\<close> by simp
qed

lemma balanced_group:
  assumes "list_all (dtree_ok resolve f) ts"
  shows "matchBalancedParen (''('' @ Join (map show_dsn ts) '' '' @ '')'' @ rest)"
proof -
  have "balanced (Suc 0) (Join (map show_dsn ts) '' '' @ r) = balanced (Suc 0) r" for r
    using assms by (induction ts rule: induct_list012) (auto simp: list_all_iff balanced_show)
  then show ?thesis by (simp add: matchBalancedParen_def)
qed

lemma ident_stop: "c = SP \<or> c = CHR '')'' \<Longrightarrow> \<not> ident_byte c"
  by (auto simp: ident_byte_def is_alnum_def is_letter_def is_digit_def)

lemma takeWhile_append_stop:
  "rest = [] \<or> \<not> P (hd rest) \<Longrightarrow> dropWhile P (s @ rest) = dropWhile P s @ rest"
  by (induction s) (auto simp: dropWhile_eq_self_iff)

text \<open>A single DSN is neither a keyword call nor the start of a group.\<close>

lemma single_no_keyword:
  assumes "\<forall>c \<in> set s. c \<noteq> CHR ''(''" "stop rest"
  shows "leadingKeyword (s @ rest) = None"
proof -
  have "rest = [] \<or> \<not> ident_byte (hd rest)" using assms(2) ident_stop by (auto simp: stop_def)
  then have drop: "dropWhile ident_byte (s @ rest) = dropWhile ident_byte s @ rest"
    by (rule takeWhile_append_stop)
  have "hd (dropWhile ident_byte s @ rest) \<noteq> CHR ''(''" if "dropWhile ident_byte s @ rest \<noteq> []"
  proof (cases "dropWhile ident_byte s = []")
    case True
    show ?thesis using that assms(2) unfolding True append_Nil by (auto simp: stop_def)
  next
    case False
    then have "hd (dropWhile ident_byte s) \<in> set s" by (metis hd_in_set set_dropWhileD)
    with False assms(1) show ?thesis by auto
  qed
  then show ?thesis by (auto simp: leadingKeyword_def Let_def drop)
qed

lemma keyword_prefix:
  assumes "HasPrefix (s @ rest) (kw @ ''('')" "\<forall>c \<in> set kw. ident_byte c" "kw \<noteq> []"
  shows "leadingKeyword (s @ rest) \<noteq> None"
proof -
  obtain t where t: "s @ rest = kw @ CHR ''('' # t" using assms(1) by (auto simp: HasPrefix_iff)
  have "\<not> ident_byte (CHR ''('')" by (simp add: ident_byte_def is_alnum_def is_letter_def is_digit_def)
  then have "takeWhile ident_byte (kw @ CHR ''('' # t) = kw" "dropWhile ident_byte (kw @ CHR ''('' # t) = CHR ''('' # t"
    using assms(2) by (simp_all add: takeWhile_append2 dropWhile_append2)
  with assms(3) show ?thesis by (simp add: t leadingKeyword_def)
qed

lemma keyword_idents: "\<forall>c \<in> set ''failover''. ident_byte c" "\<forall>c \<in> set ''roundrobin''. ident_byte c"
  by (auto simp: ident_byte_def is_alnum_def is_letter_def is_digit_def)

lemma IndexAny_stop:
  assumes "\<forall>c \<in> set s. c \<noteq> SP \<and> c \<noteq> CHR '')''" "stop rest"
  shows "IndexAny (s @ rest) '' )'' = (if rest = [] then None else Some (length s))"
  using assms(1)
proof (induction s)
  case Nil
  with assms(2) show ?case by (cases rest) (auto simp: stop_def)
qed auto

lemma parse_show_single:
  assumes "dtree_ok resolve f (Single s)" "stop rest"
  shows "parseDSN resolve (Suc k) (s @ rest) = Some (Inr (Single (f s), rest))"
proof -
  have kw: "leadingKeyword (s @ rest) = None" using assms by (intro single_no_keyword) auto
  then have "\<not> HasPrefix (s @ rest) ''failover(''" "\<not> HasPrefix (s @ rest) ''roundrobin(''"
    using keyword_prefix [of s rest "''failover''"] keyword_prefix [of s rest "''roundrobin''"] keyword_idents
    by auto
  moreover have "parse_single resolve (s @ rest) = Inr (Single (f s), rest)"
  proof -
    have ix: "IndexAny (s @ rest) '' )'' = (if rest = [] then None else Some (length s))"
      using assms by (intro IndexAny_stop) auto
    show ?thesis unfolding parse_single_def kw ix using assms by (cases "rest = []") simp_all
  qed
  ultimately show ?thesis by simp
qed

lemma finish_group_stop: "stop rest \<Longrightarrow> finish_group con args rest = Inr (con args DefaultRetryPeriod, rest)"
  by (auto simp: finish_group_def parseRetryPeriod_def stop_def retry_of_def wrap64_def)

text \<open>The arguments of a group, each parsing with enough fuel.\<close>

lemma parse_args_show:
  assumes "ts \<noteq> []" "\<forall>t \<in> set ts. \<forall>r. stop r \<longrightarrow>
      (\<exists>k. parseDSN resolve k (show_dsn t @ r) = Some (Inr (map_dtree f t, r)))"
  shows "\<exists>k. parse_args resolve k (Join (map show_dsn ts) '' '' @ '')'' @ rest) = Some (Inr (map (map_dtree f) ts, rest))"
  using assms
proof (induction ts rule: induct_list012)
  case (2 t)
  have "stop ('')'' @ rest)" by (simp add: stop_def)
  then obtain k where "parseDSN resolve k (show_dsn t @ '')'' @ rest) = Some (Inr (map_dtree f t, '')'' @ rest))"
    using 2 by auto
  then have "parse_args resolve (Suc k) (show_dsn t @ '')'' @ rest) = Some (Inr ([map_dtree f t], rest))" by simp
  then show ?case unfolding list.map Join.simps by blast
next
  case (3 t u ts)
  let ?rest = "Join (map show_dsn (u # ts)) '' '' @ '')'' @ rest"
  have "stop ('' '' @ ?rest)" by (simp add: stop_def)
  then obtain k1 where k1: "parseDSN resolve k1 (show_dsn t @ '' '' @ ?rest) = Some (Inr (map_dtree f t, '' '' @ ?rest))"
    using 3(4) by auto
  obtain k2 where k2: "parse_args resolve k2 ?rest = Some (Inr (map (map_dtree f) (u # ts), rest))"
    using 3(2,4) by auto
  have "parseDSN resolve (max k1 k2) (show_dsn t @ '' '' @ ?rest) = Some (Inr (map_dtree f t, '' '' @ ?rest))"
      "parse_args resolve (max k1 k2) ?rest = Some (Inr (map (map_dtree f) (u # ts), rest))"
    using parse_mono k1 k2 by (meson max.cobounded1 max.cobounded2)+
  then have "parse_args resolve (Suc (max k1 k2)) (show_dsn t @ '' '' @ ?rest)
      = Some (Inr (map (map_dtree f) (t # u # ts), rest))" by simp
  then show ?case by (intro exI [of _ "Suc (max k1 k2)"]) simp
qed simp

lemma parse_group:
  assumes "ts \<noteq> []" "list_all (dtree_ok resolve f) ts"
    and "\<forall>t \<in> set ts. \<forall>r. stop r \<longrightarrow> (\<exists>k. parseDSN resolve k (show_dsn t @ r) = Some (Inr (map_dtree f t, r)))"
  shows "\<exists>k. parseDSN resolve k (show_dsn (Failover ts p) @ rest) = Some (finish_group Failover (map (map_dtree f) ts) rest)"
    and "\<exists>k. parseDSN resolve k (show_dsn (RoundRobin ts p) @ rest) = Some (finish_group RoundRobin (map (map_dtree f) ts) rest)"
proof -
  obtain k where k: "parse_args resolve k (Join (map show_dsn ts) '' '' @ '')'' @ rest)
      = Some (Inr (map (map_dtree f) ts, rest))" using parse_args_show [OF assms(1,3)] by blast
  have b: "matchBalancedParen (''('' @ Join (map show_dsn ts) '' '' @ '')'' @ rest)"
    by (rule balanced_group [OF assms(2)])
  have "HasPrefix (''failover('' @ x) ''failover(''" "HasPrefix (''roundrobin('' @ x) ''roundrobin(''"
      "\<not> HasPrefix (''roundrobin('' @ x) ''failover(''" for x
    by (simp_all add: HasPrefix_def)
  note pre = this
  show "\<exists>k. parseDSN resolve k (show_dsn (Failover ts p) @ rest) = Some (finish_group Failover (map (map_dtree f) ts) rest)"
    using k b pre(1) [of "Join (map show_dsn ts) '' '' @ '')'' @ rest"] by (intro exI [of _ "Suc k"]) simp
  show "\<exists>k. parseDSN resolve k (show_dsn (RoundRobin ts p) @ rest) = Some (finish_group RoundRobin (map (map_dtree f) ts) rest)"
    using k b pre(2,3) [of "Join (map show_dsn ts) '' '' @ '')'' @ rest"] by (intro exI [of _ "Suc k"]) simp
qed

lemma parse_show:
  assumes "dtree_ok resolve f t" "stop rest"
  shows "\<exists>k. parseDSN resolve k (show_dsn t @ rest) = Some (Inr (map_dtree f t, rest))"
  using assms
proof (induction t arbitrary: rest)
  case (Single s)
  then show ?case using parse_show_single [of resolve f s rest 0] by (intro exI [of _ "Suc 0"]) simp
next
  case (Failover ts p)
  have "\<exists>k. parseDSN resolve k (show_dsn (Failover ts p) @ rest) = Some (finish_group Failover (map (map_dtree f) ts) rest)"
    using Failover by (intro parse_group(1)) (auto simp: list_all_iff)
  then show ?case using Failover.prems unfolding finish_group_stop [OF Failover.prems(2)] by simp
next
  case (RoundRobin ts p)
  have "\<exists>k. parseDSN resolve k (show_dsn (RoundRobin ts p) @ rest) = Some (finish_group RoundRobin (map (map_dtree f) ts) rest)"
    using RoundRobin by (intro parse_group(2)) (auto simp: list_all_iff)
  then show ?case using RoundRobin.prems unfolding finish_group_stop [OF RoundRobin.prems(2)] by simp
qed

lemma parse_at_fuel:
  assumes "parseDSN resolve k s = Some r"
  shows "parseDSN resolve (parse_fuel s) s = Some r"
proof -
  have "parseDSN resolve (parse_fuel s) s \<noteq> None" by (rule parseDSN_fuel(1)) (simp add: parse_fuel_def)
  then obtain q where q: "parseDSN resolve (parse_fuel s) s = Some q" by blast
  have "parseDSN resolve (max k (parse_fuel s)) s = Some r" "parseDSN resolve (max k (parse_fuel s)) s = Some q"
    by (rule parse_mono(1) [OF assms], simp, rule parse_mono(1) [OF q], simp)
  with q show ?thesis by simp
qed

lemma FromString_show:
  assumes "dtree_ok (resolve_single url_Parse factories) f t"
  shows "FromString url_Parse factories (show_dsn t) = Some (Inr (map_dtree f t))"
proof -
  obtain k where "parseDSN (resolve_single url_Parse factories) k (show_dsn t @ []) = Some (Inr (map_dtree f t, []))"
    using parse_show [OF assms, of "[]"] by (auto simp: stop_def)
  from parse_at_fuel [OF this] show ?thesis by (simp add: FromString_def)
qed

section \<open>Retry periods\<close>

lemma digits_value_append: "digits_value (s @ [c]) = digits_value s * 10 + (int (byte c) - 48)"
  by (simp add: digits_value_def)

lemma digits_value_nonneg: "list_all is_digit s \<Longrightarrow> 0 \<le> digits_value s"
  by (induction s rule: rev_induct) (auto simp: digits_value_append is_digit_def, simp add: digits_value_def)

lemma period_value_small:
  "list_all is_digit val \<Longrightarrow> digits_value val < 2 ^ 63 \<Longrightarrow> period_value val = digits_value val"
proof (induction val rule: rev_induct)
  case (snoc c val)
  have "0 \<le> digits_value val" using snoc.prems(1) by (simp add: digits_value_nonneg)
  moreover have "0 \<le> int (byte c) - 48" "int (byte c) - 48 \<le> 9"
    using snoc.prems(1) by (auto simp: is_digit_def)
  moreover from calculation have "digits_value val < 2 ^ 63" using snoc.prems(2) by (simp add: digits_value_append)
  ultimately show ?case
    using snoc by (simp add: period_value_def digits_value_append wrap64_id del: power_numeral)
qed (simp add: period_value_def digits_value_def)

lemma digits_value_Itoa: "digits_value (nat_Itoa n) = int n \<and> list_all is_digit (nat_Itoa n) \<and> nat_Itoa n \<noteq> []"
proof (induction n rule: nat_Itoa.induct)
  case (1 n)
  show ?case
  proof (cases "n < 10")
    case True
    then show ?thesis by (subst (1 2 3) nat_Itoa.simps) (simp add: digits_value_def is_digit_def)
  next
    case False
    then have eq: "nat_Itoa n = nat_Itoa (n div 10) @ [char_of (48 + n mod 10)]"
      by (subst nat_Itoa.simps) simp
    have "int (n div 10) * 10 + int (n mod 10) = int n" by presburger
    with 1 [OF False] show ?thesis unfolding eq by (simp add: digits_value_append is_digit_def)
  qed
qed

text \<open>Up to 9223372036 seconds (292 years) the period is what was asked for, except for 0.\<close>

lemma retry_of_exact: "0 < n \<Longrightarrow> n \<le> 9223372036 \<Longrightarrow> retry_of n = n * 1000000000"
  by (simp add: retry_of_def wrap64_id)

lemma parseRetryPeriod_Itoa:
  assumes "n < 2 ^ 63"
  shows "parseRetryPeriod (''?retry_period='' @ nat_Itoa n) = Inr (int n, [])"
proof -
  note d = digits_value_Itoa [of n]
  have "IndexByte (nat_Itoa n) (CHR ''&'') = None"
    using nat_Itoa_digits [of "CHR ''&''" n] by (auto simp: IndexFunc_None is_digit_def)
  moreover have "period_value (nat_Itoa n) = int n"
    using d period_value_small [of "nat_Itoa n"] assms by simp
  ultimately show ?thesis
    using d by (simp add: parseRetryPeriod_def Let_def retry_key_def HasPrefix_def)
qed

lemma FromString_show_retry:
  assumes "dtree_ok (resolve_single url_Parse factories) f (Failover ts DefaultRetryPeriod)" "0 < n" "n \<le> 9223372036"
  shows "FromString url_Parse factories (show_dsn (Failover ts DefaultRetryPeriod) @ ''?retry_period='' @ nat_Itoa n)
      = Some (Inr (Failover (map (map_dtree f) ts) (int n * 1000000000)))"
    and "FromString url_Parse factories (show_dsn (RoundRobin ts DefaultRetryPeriod) @ ''?retry_period='' @ nat_Itoa n)
      = Some (Inr (RoundRobin (map (map_dtree f) ts) (int n * 1000000000)))"
proof -
  let ?r = "resolve_single url_Parse factories" and ?suffix = "''?retry_period='' @ nat_Itoa n"
  have "n < 2 ^ 63" using assms(3) by simp
  then have fin: "finish_group con args ?suffix = Inr (con args (int n * 1000000000), [])"
    for con :: "'a dtree list \<Rightarrow> duration \<Rightarrow> 'a dtree" and args
    unfolding finish_group_def parseRetryPeriod_Itoa [OF \<open>n < 2 ^ 63\<close>] using assms(2,3) retry_of_exact by simp
  have sub: "\<forall>t \<in> set ts. \<forall>r. stop r \<longrightarrow> (\<exists>k. parseDSN ?r k (show_dsn t @ r) = Some (Inr (map_dtree f t, r)))"
    using assms(1) parse_show [of ?r f] by (auto simp: list_all_iff)
  have ts: "ts \<noteq> []" "list_all (dtree_ok ?r f) ts" using assms(1) by auto
  have complete: "FromString url_Parse factories s = Some (Inr t)"
    if "\<exists>k. parseDSN ?r k s = Some (Inr (t, []))" for s and t :: "'a dtree"
    using that parse_at_fuel [of ?r _ s] by (auto simp: FromString_def)
  show "FromString url_Parse factories (show_dsn (Failover ts DefaultRetryPeriod) @ ?suffix)
      = Some (Inr (Failover (map (map_dtree f) ts) (int n * 1000000000)))"
    using parse_group(1) [OF ts sub, of DefaultRetryPeriod ?suffix] unfolding fin by (rule complete)
  show "FromString url_Parse factories (show_dsn (RoundRobin ts DefaultRetryPeriod) @ ?suffix)
      = Some (Inr (RoundRobin (map (map_dtree f) ts) (int n * 1000000000)))"
    using parse_group(2) [OF ts sub, of DefaultRetryPeriod ?suffix] unfolding fin by (rule complete)
qed

section \<open>Errors\<close>

text \<open>
  What a factory promises the registry: a DSN it does not support is refused with
  \<open>ErrUnsupportedScheme\<close>, a supported one is never refused for its scheme.
\<close>

locale factory_contract =
  fixes supports :: "dsn \<Rightarrow> bool" and create :: "dsn \<Rightarrow> goerr + 'a" and schemes :: "bytes list"
  assumes supports_iff: "supports d \<longleftrightarrow> dsn_scheme d \<in> set schemes"
    and refuses: "\<not> supports d \<Longrightarrow> \<exists>e. create d = Inl e \<and> errors_Is e ErrUnsupportedScheme"
    and accepts: "supports d \<Longrightarrow> create d = Inl e \<Longrightarrow> \<not> errors_Is e ErrUnsupportedScheme"
begin

lemma created_scheme: "create d = Inr t \<Longrightarrow> dsn_scheme d \<in> set schemes"
  using refuses [of d] supports_iff by auto

lemma unsupported_iff: "(\<exists>e. create d = Inl e \<and> errors_Is e ErrUnsupportedScheme) \<longleftrightarrow> dsn_scheme d \<notin> set schemes"
  using refuses [of d] accepts [of d] supports_iff by auto

end

interpretation null_factory: factory_contract null_Supports "null_Create t" "[''null'']"
  by unfold_locales (auto simp: null_Supports_def null_Create_def)

lemma fromDSNObject_error:
  "fromDSNObject factories d = Inl e \<Longrightarrow> errors_Is e ErrUnsupportedScheme
     \<or> (\<exists>f \<in> set factories. fa_Supports f d \<and> fa_Create f d = Inl e)"
proof -
  have "fromDSNObject_loop factories fs d = Inl e \<Longrightarrow> errors_Is e ErrUnsupportedScheme
     \<or> (\<exists>f \<in> set fs. fa_Supports f d \<and> fa_Create f d = Inl e)" for fs
    by (induction factories fs d rule: fromDSNObject_loop.induct)
       (auto simp: unsupportedSchemeError_def split: if_splits)
  then show "fromDSNObject factories d = Inl e \<Longrightarrow> ?thesis" by (simp add: fromDSNObject_def)
qed

lemma ParseDSN_error: "ParseDSN url_Parse s = Inl e \<Longrightarrow> errors_Is e ErrInvalidArgument"
  by (auto simp: ParseDSN_def dsn_invalid_def dsn_port_of_def Let_def bindE_eq_Inl
      split: option.splits if_splits)

lemma ParseDSN_Inr:
  assumes "ParseDSN url_Parse s = Inr d"
  obtains u port where "url_Parse s = Some u" "dsn_port_of (u_Port u) = Inr port"
    "dsn_scheme d = u_Scheme u" "u_Scheme u \<noteq> []" "dsn_host d \<noteq> []"
    "dsn_hasPort d \<longleftrightarrow> port \<noteq> None" "dsn_port d = (case port of Some p \<Rightarrow> p | None \<Rightarrow> 0)"
proof (cases "url_Parse s")
  case (Some u)
  then have "u_Scheme u \<noteq> []" using assms by (auto simp: ParseDSN_def)
  with Some assms that [of u] show thesis
    by (auto simp: ParseDSN_def Let_def bindE_eq_Inr split: if_splits)
qed (use assms in \<open>simp add: ParseDSN_def\<close>)

lemma dsn_port_of_range: "dsn_port_of p = Inr (Some n) \<Longrightarrow> 0 \<le> n \<and> n \<le> 65535"
  by (auto simp: dsn_port_of_def split: if_splits option.splits)

lemma ParseDSN_port:
  assumes "ParseDSN url_Parse s = Inr d" "dsn_hasPort d"
  shows "0 \<le> dsn_port d \<and> dsn_port d \<le> 65535"
  by (rule ParseDSN_Inr [OF assms(1)]) (use assms(2) dsn_port_of_range in auto)

definition parse_class :: "(bytes \<Rightarrow> goerr + 'a) \<Rightarrow> goerr \<Rightarrow> bool" where
  "parse_class resolve e \<longleftrightarrow> errors_Is e ErrInvalidArgument \<or> (\<exists>s. resolve s = Inl e)"

lemma parse_single_class: "parse_single resolve s = Inl e \<Longrightarrow> parse_class resolve e"
  by (auto simp: parse_single_def keyword_error_def parse_class_def bindE_eq_Inl split: option.splits)

lemma finish_group_class: "finish_group con args s = Inl e \<Longrightarrow> parse_class resolve e"
  by (auto simp: finish_group_def parseRetryPeriod_def parse_class_def bindE_eq_Inl Let_def
      split: if_splits option.splits)

lemma unbalanced_class: "parse_class resolve (unbalanced_error s name)"
  by (simp add: parse_class_def unbalanced_error_def)

lemma parse_error_class:
  shows "parseDSN resolve k s = Some (Inl e) \<Longrightarrow> parse_class resolve e"
    and "parse_args resolve k s = Some (Inl e) \<Longrightarrow> parse_class resolve e"
proof (induction resolve k s and resolve k s rule: parseDSN_parse_args.induct)
  case (2 resolve k s)
  then show ?case
    by (auto split: if_splits option.splits sum.splits
        dest: finish_group_class parse_single_class intro: unbalanced_class)
next
  case (4 resolve k s)
  then show ?case by (auto split: option.splits sum.splits list.splits if_splits)
qed auto

section \<open>Leaves\<close>

lemma fromDSNObject_Inr:
  "fromDSNObject factories d = Inr x \<Longrightarrow> \<exists>f \<in> set factories. fa_Supports f d \<and> fa_Create f d = Inr x"
proof -
  have "fromDSNObject_loop factories fs d = Inr x \<Longrightarrow> \<exists>f \<in> set fs. fa_Supports f d \<and> fa_Create f d = Inr x" for fs
    by (induction factories fs d rule: fromDSNObject_loop.induct) (auto split: if_splits)
  then show "fromDSNObject factories d = Inr x \<Longrightarrow> ?thesis" by (simp add: fromDSNObject_def)
qed

lemma map_sum_Inr: "map_sum id g r = Inr y \<longleftrightarrow> (\<exists>x. r = Inr x \<and> y = g x)"
  by (cases r) auto

end
