(* ===== verification/Samples.thy ===== *)
theory Samples
  imports Registry_Props "HOL-Library.Code_Target_Nat"
begin

text \<open>
  Concrete values for the parameters of the model (a library, a source of random
  identifiers, a clock) and a few messages, on which the properties of the other theories
  are instantiated.
\<close>

definition sample_unicode :: unicode where
  "sample_unicode = \<lparr>uc_IsPrint = \<lambda>r. True, uc_Upper = \<lambda>s. s, uc_Lower = \<lambda>s. s\<rparr>"

definition sample_lib :: netlib where
  "sample_lib =
    \<lparr>nl_unicode = sample_unicode,
     mail_ParseAddress = \<lambda>s. Inr \<lparr>addr_Name = [], addr_Address = s\<rparr>,
     mail_ParseAddressList = \<lambda>s. Inr [\<lparr>addr_Name = [], addr_Address = s\<rparr>],
     idna_ToASCII = \<lambda>s. Inr s,
     mime_ParseMediaType = \<lambda>s. Inr (s, []),
     mime_TypeByExtension = \<lambda>s. [],
     http_DetectContentType = \<lambda>s. ''application/pdf''\<rparr>"

definition sample_draws :: "nat \<Rightarrow> draw" where
  "sample_draws n = Inl (int n)"

lemma nat_Itoa_inj: "nat_Itoa m = nat_Itoa n \<Longrightarrow> m = n"
  by (metis digits_value_Itoa of_nat_eq_iff)

lemma sample_draws_inj: "inj_on (generateID \<circ> sample_draws) A"
  by (auto simp: inj_on_def generateID_def sample_draws_def Itoa_def dest: nat_Itoa_inj)

definition alice :: address where
  "alice = \<lparr>addr_Name = ''Alice'', addr_Address = ''a@x.io''\<rparr>"

definition bob :: address where
  "bob = \<lparr>addr_Name = [], addr_Address = ''b@y.io''\<rparr>"

definition carol :: address where
  "carol = \<lparr>addr_Name = ''Carol'', addr_Address = ''c@y.io''\<rparr>"

definition sample_message :: message where
  "sample_message =
    Attach (sample_draws 9) (SetHTML (SetText (SetSubject (SetTo (SetFrom NewMessage [alice]) [bob]) ''Hi'') ''hello'') ''<b>hello</b>'')
      \<lparr>att_Filename = ''r.pdf'', att_ContentType = [], att_Data = ''PDF'', att_Inline = False, att_ContentID = []\<rparr>"

definition sample_time :: gotime where
  "sample_time = \<lparr>t_nanos = 1700000000000000000, t_offset = 0\<rparr>"

definition sample_sealed :: message where
  "sample_sealed = sample_message\<lparr>msg_sealedMsgID := ''1@x.io'', msg_sealedDate := sample_time, msg_sealed := True\<rparr>"

lemma sample_headers: "\<exists>s. writeHeaders sample_lib sample_sealed 0 = (Inr s, 0)"
proof -
  obtain r n where w: "writeHeaders sample_lib sample_sealed 0 = (r, n)" by fastforce
  have "\<not> isl (fst (writeHeaders sample_lib sample_sealed 0)) \<and> snd (writeHeaders sample_lib sample_sealed 0) = 0"
    by code_simp
  with w show ?thesis by (cases r) auto
qed

lemma sample_body: "\<exists>s n. writeBody sample_lib sample_draws sample_sealed 0 = (Inr s, n)"
proof -
  obtain r n where w: "writeBody sample_lib sample_draws sample_sealed 0 = (r, n)" by fastforce
  have "\<not> isl (fst (writeBody sample_lib sample_draws sample_sealed 0))" by code_simp
  with w show ?thesis by (cases r) auto
qed

lemma sample_bytes: "\<exists>raw n. Message_Bytes sample_lib sample_draws sample_time sample_sealed 0 = (Inr raw, sample_sealed, n)"
proof -
  have "seal sample_lib sample_draws sample_time sample_sealed 0 = (sample_sealed, 0)"
    by (rule seal_idem) (simp add: sample_sealed_def)
  with sample_headers sample_body show ?thesis by (auto simp: Message_Bytes_def wseq_def)
qed

end
