(* ===== verification/Quoted_Printable.thy ===== *)
theory Quoted_Printable
  imports Mime_Props
begin

text \<open>
  Quoted-printable bodies (\<^verbatim>\<open>writeQuotedPrintable\<close> in \<^verbatim>\<open>mime.go\<close>): a decoder, the text a body stands
  for, and that the two agree. The proof follows the writer with the list of tokens
  in its line buffer.
\<close>

section \<open>Decoding\<close>

text \<open>
  An equals sign begins a soft line break or an escaped byte; every other byte stands for
  itself. White space at the end of a line would be dropped in transport; the
  writer leaves none, see \<open>qp_no_trailing\<close>.
\<close>

fun qp_decode :: "bytes \<Rightarrow> bytes option" where
  "qp_decode [] = Some []"
| "qp_decode (c # s) =
    (if c = CHR ''='' then
       (case s of
          a # b # rest \<Rightarrow>
            if a = CR \<and> b = LF then qp_decode rest
            else (case (hex_val a, hex_val b) of
              (Some h, Some l) \<Rightarrow> map_option ((#) (char_of (16 * h + l))) (qp_decode rest)
            | _ \<Rightarrow> None)
        | _ \<Rightarrow> None)
     else map_option ((#) c) (qp_decode s))"

text \<open>
  The text a body stands for: each of CR LF, LF and CR is a line break. The writer remembers a
  CR across the bytes it escapes, so a LF behind them belongs to it.
\<close>

definition qp_plain :: "char \<Rightarrow> bool" where
  "qp_plain b \<longleftrightarrow> (33 \<le> byte b \<and> byte b \<le> 126 \<and> b \<noteq> CHR ''='') \<or> b = SP \<or> b = TAB"

fun qp_canon :: "bool \<Rightarrow> bytes \<Rightarrow> bytes" where
  "qp_canon cr [] = []"
| "qp_canon cr (b # s) =
    (if b = LF \<and> cr then qp_canon False s
     else if b = LF then CRLF @ qp_canon cr s
     else if b = CR then CRLF @ qp_canon True s
     else if qp_plain b then b # qp_canon False s
     else b # qp_canon cr s)"

section \<open>The writer\<close>

text \<open>\<open>x\<close> is a sequence of whole tokens that stand for \<open>y\<close>.\<close>

definition stands_for :: "bytes \<Rightarrow> bytes \<Rightarrow> bool" where
  "stands_for x y \<longleftrightarrow> (\<forall>z. qp_decode (x @ z) = (case qp_decode z of None \<Rightarrow> None | Some r \<Rightarrow> Some (y @ r)))"

lemma stands_for_Nil: "stands_for [] []"
  by (simp add: stands_for_def split: option.split)

lemma stands_for_append: "stands_for x y \<Longrightarrow> stands_for x' y' \<Longrightarrow> stands_for (x @ x') (y @ y')"
  by (simp add: stands_for_def split: option.split)

lemma stands_for_byte: "c \<noteq> CHR ''='' \<Longrightarrow> stands_for [c] [c]"
  by (simp add: stands_for_def split: option.split)

lemma stands_for_crlf: "stands_for CRLF CRLF"
  using stands_for_append [OF stands_for_byte [of CR] stands_for_byte [of LF]] by simp

lemma stands_for_soft: "stands_for (CHR ''='' # CRLF) []"
  by (simp add: stands_for_def split: option.split)

lemma stands_for_escape: "stands_for (hex_escape (CHR ''='') c) [c]"
proof -
  have n: "byte c div 16 < 16" "byte c mod 16 < 16" using nibbles [of c] by simp_all
  have "upperhex (byte c div 16) \<noteq> CR" using upperhex_plain [OF n(1)] by auto
  moreover have "char_of (16 * (byte c div 16) + byte c mod 16) = c" by simp
  ultimately show ?thesis using hex_val_upperhex [OF n(1)] hex_val_upperhex [OF n(2)]
    by (simp add: stands_for_def hex_escape_def split: option.split)
qed

text \<open>The tokens of the line buffer.\<close>

definition qp_token :: "bytes \<times> char \<Rightarrow> bool" where
  "qp_token t \<longleftrightarrow> (fst t = [snd t] \<and> snd t \<noteq> CHR ''='') \<or> fst t = hex_escape (CHR ''='') (snd t)"

definition qp_inv :: "qp \<Rightarrow> bytes \<Rightarrow> bool" where
  "qp_inv w y \<longleftrightarrow> (\<exists>y0 toks. stands_for (qp_out w) y0 \<and> qp_line w = concat (map fst toks)
     \<and> list_all qp_token toks \<and> y = y0 @ map snd toks)"

lemma tokens_stand: "list_all qp_token toks \<Longrightarrow> stands_for (concat (map fst toks)) (map snd toks)"
proof (induction toks)
  case (Cons t toks)
  then have "stands_for (fst t) [snd t]" by (auto simp: qp_token_def stands_for_byte stands_for_escape)
  with Cons show ?case using stands_for_append [of "fst t" "[snd t]"] by simp
qed (simp add: stands_for_Nil)

lemma qp_inv_whole: "qp_inv w y \<Longrightarrow> stands_for (qp_out w @ qp_line w) y"
  using stands_for_append [OF _ tokens_stand] by (auto simp: qp_inv_def)

lemma qp_inv_flush:
  "qp_inv w y \<Longrightarrow> stands_for x v \<Longrightarrow> qp_out w' = qp_out w @ qp_line w @ x \<Longrightarrow> qp_line w' = [] \<Longrightarrow> qp_inv w' (y @ v)"
  using stands_for_append [OF qp_inv_whole, of w y x v] unfolding qp_inv_def [of w']
  by (intro exI [of _ "y @ v"] exI [of _ "[]"]) simp

lemma qp_inv_crlf: "qp_inv w y \<Longrightarrow> qp_inv (qp_insertCRLF w) (y @ CRLF)"
  by (rule qp_inv_flush [OF _ stands_for_crlf]) (auto simp: qp_insertCRLF_def)

lemma qp_inv_soft: "qp_inv w y \<Longrightarrow> qp_inv (qp_insertSoftLineBreak w) y"
  using qp_inv_flush [OF _ stands_for_soft, of w y "qp_insertSoftLineBreak w"]
  by (simp add: qp_insertSoftLineBreak_def qp_insertCRLF_def)

lemma qp_inv_token:
  "qp_inv w y \<Longrightarrow> qp_token (x, b) \<Longrightarrow> qp_inv (w\<lparr>qp_line := qp_line w @ x, qp_cr := v\<rparr>) (y @ [b])"
  unfolding qp_inv_def by (elim exE conjE) (rule exI, rule_tac x = "toks @ [(x, b)]" in exI, simp)

lemma qp_inv_cr: "qp_inv (w\<lparr>qp_cr := v\<rparr>) y \<longleftrightarrow> qp_inv w y"
  by (simp add: qp_inv_def)

lemma qp_inv_encode: "qp_inv w y \<Longrightarrow> qp_inv (qp_encode b w) (y @ [b])"
proof -
  assume i: "qp_inv w y"
  let ?w = "if qp_lineMaxLen - 1 - length (qp_line w) < 3 then qp_insertSoftLineBreak w else w"
  have "qp_inv ?w y" using i qp_inv_soft by simp
  then have "qp_inv (?w\<lparr>qp_line := qp_line ?w @ hex_escape (CHR ''='') b, qp_cr := qp_cr ?w\<rparr>) (y @ [b])"
    by (rule qp_inv_token) (simp add: qp_token_def)
  then show ?thesis by (simp add: qp_encode_def Let_def qp_inv_cr)
qed

text \<open>The byte that is taken back was a token of its own.\<close>

lemma qp_inv_checkLastByte: "qp_inv w y \<Longrightarrow> qp_inv (qp_checkLastByte w) y"
proof (cases "qp_line w \<noteq> [] \<and> (last (qp_line w) = SP \<or> last (qp_line w) = TAB)")
  case True
  assume "qp_inv w y"
  then obtain y0 toks where i: "stands_for (qp_out w) y0" "qp_line w = concat (map fst toks)"
    "list_all qp_token toks" "y = y0 @ map snd toks" unfolding qp_inv_def by blast
  from True i(2) obtain ts x b where t: "toks = ts @ [(x, b)]" by (cases toks rule: rev_cases) auto
  have "x \<noteq> []" using i(3) t by (auto simp: qp_token_def hex_escape_def)
  with True i(2) t have l: "last x = SP \<or> last x = TAB" by simp
  have "x \<noteq> hex_escape (CHR ''='') b"
    using l upperhex_plain [OF nibbles(2) [of b]] by (auto simp: hex_escape_def)
  with i(3) t have x: "x = [b]" "b \<noteq> CHR ''=''" by (auto simp: qp_token_def)
  with i t have "qp_inv (w\<lparr>qp_line := butlast (qp_line w)\<rparr>) (y0 @ map snd ts)" by (auto simp: qp_inv_def)
  from qp_inv_encode [OF this, of b] show ?thesis
    using True i(2,4) t x by (auto simp: qp_checkLastByte_def Let_def)
qed (auto simp: qp_checkLastByte_def Let_def)

lemma qp_cr_kept [simp]:
  "qp_cr (qp_insertCRLF w) = qp_cr w" "qp_cr (qp_insertSoftLineBreak w) = qp_cr w"
  "qp_cr (qp_encode b w) = qp_cr w" "qp_cr (qp_checkLastByte w) = qp_cr w"
  by (simp_all add: qp_insertCRLF_def qp_insertSoftLineBreak_def qp_encode_def qp_checkLastByte_def Let_def)

lemma qp_inv_break: "qp_inv w y \<Longrightarrow> qp_inv (qp_insertCRLF (qp_checkLastByte w)) (y @ CRLF)"
  by (rule qp_inv_crlf [OF qp_inv_checkLastByte])

lemma qp_inv_literal:
  assumes "qp_inv w y" "qp_plain b"
  shows "qp_inv (qp_Write_byte w b) (y @ [b])" "\<not> qp_cr (qp_Write_byte w b)"
proof -
  let ?w = "if length (qp_line w) = qp_lineMaxLen - 1 then qp_insertSoftLineBreak w else w"
  have "b \<noteq> LF" "b \<noteq> CR" "b \<noteq> CHR ''=''" using assms(2) by (auto simp: qp_plain_def)
  then have eq: "qp_Write_byte w b = ?w\<lparr>qp_line := qp_line ?w @ [b], qp_cr := False\<rparr>"
    using assms(2) by (simp add: qp_Write_byte_def qp_write_byte_def qp_plain_def Let_def)
  have "qp_inv ?w y" using assms(1) qp_inv_soft by simp
  then show "qp_inv (qp_Write_byte w b) (y @ [b])" unfolding eq
    by (rule qp_inv_token) (use \<open>b \<noteq> CHR ''=''\<close> in \<open>simp add: qp_token_def\<close>)
  show "\<not> qp_cr (qp_Write_byte w b)" by (simp add: eq)
qed

lemma qp_inv_Write: "qp_inv w y \<Longrightarrow> qp_inv (qp_Write s w) (y @ qp_canon (qp_cr w) s)"
proof (induction s arbitrary: w y)
  case (Cons b s)
  consider "b = LF" "qp_cr w" | "b = LF" "\<not> qp_cr w" | "b = CR" | "qp_plain b" "b \<noteq> LF" "b \<noteq> CR"
    | "\<not> qp_plain b" "b \<noteq> LF" "b \<noteq> CR" by blast
  then show ?case
  proof cases
    case 1
    then have "qp_Write_byte w b = w\<lparr>qp_cr := False\<rparr>" by (simp add: qp_Write_byte_def qp_write_byte_def)
    with 1 Cons.IH [of "w\<lparr>qp_cr := False\<rparr>" y] Cons.prems show ?thesis by (simp add: qp_Write_def qp_inv_cr)
  next
    case 2
    then have "qp_Write_byte w b = qp_insertCRLF (qp_checkLastByte w)" by (simp add: qp_Write_byte_def qp_write_byte_def Let_def)
    with 2 Cons.IH [OF qp_inv_break [OF Cons.prems]] show ?thesis by (simp add: qp_Write_def)
  next
    case 3
    then have "qp_Write_byte w b = (qp_insertCRLF (qp_checkLastByte w))\<lparr>qp_cr := True\<rparr>"
      by (simp add: qp_Write_byte_def qp_write_byte_def Let_def)
    with 3 Cons.IH [of "(qp_insertCRLF (qp_checkLastByte w))\<lparr>qp_cr := True\<rparr>" "y @ CRLF"] qp_inv_break [OF Cons.prems]
    show ?thesis by (simp add: qp_Write_def qp_inv_cr)
  next
    case 4
    with Cons.IH [OF qp_inv_literal(1) [OF Cons.prems 4(1)]] qp_inv_literal(2) [OF Cons.prems 4(1)]
    show ?thesis by (simp add: qp_Write_def)
  next
    case 5
    then have "qp_Write_byte w b = qp_encode b w" by (auto simp: qp_Write_byte_def qp_plain_def)
    with 5 Cons.IH [OF qp_inv_encode [OF Cons.prems, of b]] show ?thesis by (simp add: qp_Write_def)
  qed
qed (simp add: qp_Write_def)

text \<open>A body decodes to the text it stands for.\<close>

lemma qp_decode_write: "qp_decode (writeQuotedPrintable s) = Some (qp_canon False s)"
proof -
  have "qp_inv qp_new []" by (auto simp: qp_inv_def qp_new_def stands_for_Nil intro!: exI [of _ "[]"])
  from qp_inv_checkLastByte [OF qp_inv_Write [OF this, of s]]
  have "stands_for (qp_out (qp_Close (qp_Write s qp_new))) (qp_canon False s)"
    using qp_inv_whole by (fastforce simp: qp_Close_def Let_def qp_new_def)
  then show ?thesis using stands_for_def [of _ "qp_canon False s"]
    by (metis append_Nil2 option.simps(5) qp_decode.simps(1) writeQuotedPrintable_def)
qed

text \<open>Without carriage returns the text is the body with its line feeds as line breaks.\<close>

lemma qp_canon_lf: "CR \<notin> set s \<Longrightarrow> qp_canon False s = concat (map (\<lambda>b. if b = LF then CRLF else [b]) s)"
  by (induction s) auto

section \<open>No trailing white space\<close>

definition no_trailing :: "bytes \<Rightarrow> bool" where
  "no_trailing l \<longleftrightarrow> l = [] \<or> (last l \<noteq> SP \<and> last l \<noteq> TAB)"

definition qp_tight :: "qp \<Rightarrow> bool" where
  "qp_tight w \<longleftrightarrow> (\<exists>ls. qp_out w = concat (map (\<lambda>l. l @ CRLF) ls) \<and> list_all (\<lambda>l. no_trailing l \<and> qp_text l) ls)"

lemma qp_tight_simps [simp]:
  "qp_tight (w\<lparr>qp_line := l\<rparr>) = qp_tight w" "qp_tight (w\<lparr>qp_cr := v\<rparr>) = qp_tight w"
  by (simp_all add: qp_tight_def)

lemma qp_tight_flush:
  "qp_tight w \<Longrightarrow> no_trailing l \<Longrightarrow> qp_text l \<Longrightarrow> qp_out w' = qp_out w @ l @ CRLF \<Longrightarrow> qp_tight w'"
  unfolding qp_tight_def by (elim exE) (rule_tac x = "ls @ [l]" in exI, simp)

lemma qp_tight_soft: "qp_tight w \<Longrightarrow> qp_text (qp_line w) \<Longrightarrow> qp_tight (qp_insertSoftLineBreak w)"
  by (rule qp_tight_flush [of _ "qp_line w @ ''=''"])
     (auto simp: no_trailing_def qp_insertSoftLineBreak_def qp_insertCRLF_def)

lemma qp_tight_encode: "qp_tight w \<Longrightarrow> qp_text (qp_line w) \<Longrightarrow> qp_tight (qp_encode b w)"
  using qp_tight_soft [of w] by (simp add: qp_encode_def Let_def)

lemma escape_no_trailing: "no_trailing (x @ hex_escape (CHR ''='') b)"
  using upperhex_plain [OF nibbles(2) [of b]] by (auto simp: no_trailing_def hex_escape_def)

lemma qp_checkLastByte_tight:
  assumes "qp_tight w" "qp_text (qp_line w)"
  shows "qp_tight (qp_checkLastByte w)" "no_trailing (qp_line (qp_checkLastByte w))"
proof -
  show "qp_tight (qp_checkLastByte w)"
    using assms qp_tight_encode [of "w\<lparr>qp_line := butlast (qp_line w)\<rparr>"] by (simp add: qp_checkLastByte_def Let_def qp_text_butlast)
  have "no_trailing (qp_line (qp_encode b v))" for b v
    by (simp add: qp_encode_def Let_def escape_no_trailing)
  then show "no_trailing (qp_line (qp_checkLastByte w))" by (simp add: qp_checkLastByte_def Let_def no_trailing_def)
qed

lemma qp_tight_Write_byte:
  assumes "qp_tight w" "qp_ok w"
  shows "qp_tight (qp_Write_byte w b)"
proof -
  have t: "qp_text (qp_line w)" "qp_text (qp_line (qp_checkLastByte w))"
    using assms(2) qp_ok_checkLastByte [OF assms(2)] by (simp_all add: qp_ok_def)
  have "qp_out (qp_insertCRLF (qp_checkLastByte w)) = qp_out (qp_checkLastByte w) @ qp_line (qp_checkLastByte w) @ CRLF"
    by (simp add: qp_insertCRLF_def)
  from qp_tight_flush [OF qp_checkLastByte_tight [OF assms(1) t(1)] t(2) this]
  have crlf: "qp_tight (qp_insertCRLF (qp_checkLastByte w))" .
  have "qp_tight (qp_write_byte b w)" unfolding qp_write_byte_def Let_def
    using crlf assms(1) qp_tight_soft [OF assms(1) t(1)] by (simp split: if_split)
  with qp_tight_encode [OF assms(1) t(1)] show ?thesis by (simp only: qp_Write_byte_def split: if_split) blast
qed

lemma qp_tight_Write: "qp_tight w \<Longrightarrow> qp_ok w \<Longrightarrow> qp_tight (qp_Write s w)"
  unfolding qp_Write_def by (induction s arbitrary: w) (auto intro: qp_tight_Write_byte qp_ok_Write_byte)

lemma qp_no_trailing: "list_all no_trailing (SplitCRLF (writeQuotedPrintable s))"
proof -
  let ?w = "qp_checkLastByte (qp_Write s qp_new)"
  have new: "qp_ok qp_new" "qp_tight qp_new"
    by (auto simp: qp_ok_def qp_tight_def qp_new_def intro!: exI [of _ "[]"])
  have ok: "qp_ok (qp_Write s qp_new)" "qp_ok ?w" using new(1) by (auto intro: qp_ok_Write qp_ok_checkLastByte)
  have tx: "qp_text (qp_line (qp_Write s qp_new))" "qp_text (qp_line ?w)" using ok by (simp_all add: qp_ok_def)
  note tight = qp_checkLastByte_tight [OF qp_tight_Write [OF new(2,1)] tx(1)]
  from tight(1) obtain ls where ls: "qp_out ?w = concat (map (\<lambda>l. l @ CRLF) ls)" "list_all (\<lambda>l. no_trailing l \<and> qp_text l) ls"
    unfolding qp_tight_def by blast
  have "SplitCRLF (writeQuotedPrintable s) = ls @ [qp_line ?w]"
    using qp_lines_split [of ls "qp_line ?w"] ls tx(2)
    by (simp add: writeQuotedPrintable_def qp_Close_def Let_def list_all_iff)
  with ls(2) tight(2) show ?thesis by (auto simp: list_all_iff)
qed

end
