(* ===== verification/Content_Spec.thy ===== *)
theory Content_Spec
  imports Samples Quoted_Printable
begin

text \<open>
  Properties of the message side of the library: addresses, headers, MIME bodies, messages
  and envelopes.
\<close>

section \<open>Serialized messages\<close>

text \<open>
  (C3) A serialized message is its header block followed by its body. The header block is
  exactly one field per entry of the sealed message's field list (Date, Message-ID,
  Subject, From, Reply-To, To, Cc and the custom headers that are not structural), in
  that order, each with the words of its value and no line break that is not a fold; so no
  value can add a field. A MIME parser recovers from the body the tree the message
  describes: text and HTML alternatives, inline parts under related, attachments under
  mixed, with the attachments' bytes. The identifiers drawn for the boundaries must differ.
\<close>

theorem Message_Bytes_structure:
  assumes "Message_Bytes L R now m n = (Inr raw, m', n')" "inj_on (generateID \<circ> R) {n..<n'}"
  shows "\<exists>fs body p. raw = concat fs @ body
    \<and> list_all2 (\<lambda>(name, v) f. header_field name (ws_words v) f) (wire_fields L m') fs
    \<and> SplitCRLF body = ''MIME-Version: 1.0'' # plines p @ [[]]
    \<and> mime_parse 4 (plines p) = Some p \<and> is_body m' p"
proof -
  obtain n1 where s: "seal L R now m n = (m', n1)" "n \<le> n1"
    and w: "wseq (writeHeaders L m') (writeBody L R m') n1 = (Inr raw, n')"
    using assms(1) by (auto simp: Message_Bytes_def seal_def Let_def split: prod.splits if_splits)
  obtain hs body n2 where h: "writeHeaders L m' n1 = (Inr hs, n2)" and b: "writeBody L R m' n2 = (Inr body, n')"
    and raw: "raw = hs @ body" using w by (auto simp: wseq_Inr)
  obtain fs where fs: "n2 = n1" "hs = concat fs"
    "list_all2 (\<lambda>(name, v) f. foldHeaderLine name v = Inr f) (wire_fields L m') fs"
    using writeHeaders_Inr [OF h] by blast
  have "list_all2 (\<lambda>(name, v) f. header_field name (ws_words v) f) (wire_fields L m') fs"
    using fs(3) by (rule list_all2_mono) (auto dest: folded.one_field)
  moreover have "inj_on (generateID \<circ> R) {n2..<n'}" using assms(2) s(2) fs(1) by (auto intro: inj_on_subset)
  ultimately show ?thesis using writeBody_parse [OF b] raw fs(2) by blast
qed

theorem Message_Bytes_structure_witness:
  "\<exists>raw m' n'. Message_Bytes sample_lib sample_draws sample_time sample_sealed 0 = (Inr raw, m', n')
    \<and> (\<exists>fs body p. raw = concat fs @ body
        \<and> list_all2 (\<lambda>(name, v) f. header_field name (ws_words v) f) (wire_fields sample_lib m') fs
        \<and> SplitCRLF body = ''MIME-Version: 1.0'' # plines p @ [[]]
        \<and> mime_parse 4 (plines p) = Some p \<and> is_body m' p)"
proof -
  obtain raw n where e: "Message_Bytes sample_lib sample_draws sample_time sample_sealed 0 = (Inr raw, sample_sealed, n)"
    using sample_bytes by blast
  show ?thesis
    by (rule exI [of _ raw], rule exI [of _ sample_sealed], rule exI [of _ n],
        rule conjI [OF e Message_Bytes_structure [OF e sample_draws_inj]])
qed

text \<open>
  (C10) Blind-copy recipients never reach the wire: the serialized bytes are the same whatever
  the Bcc list is, and so is what \<^verbatim>\<open>WriteTo\<close> gives to any writer and reports of it.
\<close>

theorem Bcc_not_serialized:
  "fst (Message_Bytes L R now (SetBcc m bcc) n) = fst (Message_Bytes L R now m n)
    \<and> (case Message_WriteTo L R now write (SetBcc m bcc) n w of (r, m', n', w') \<Rightarrow> (r, w'))
      = (case Message_WriteTo L R now write m n w of (r, m', n', w') \<Rightarrow> (r, w'))"
  by (rule conjI [OF Bytes_SetBcc WriteTo_SetBcc])

text \<open>A message of one part, sealed.\<close>

definition plain_sealed :: message where
  "plain_sealed = (SetText (SetTo (SetFrom NewMessage [alice]) [bob]) ''hello'')
     \<lparr>msg_sealedMsgID := ''1@x.io'', msg_sealedDate := sample_time, msg_sealed := True\<rparr>"

lemma sample_bytes_differ:
  "fst (Message_Bytes sample_lib sample_draws sample_time sample_sealed 0) \<noteq> fst (Message_Bytes sample_lib sample_draws sample_time sample_sealed 5)"
  by code_simp

text \<open>
  (C18) What the first use of a message fixes: later calls return the same message identifier
  whatever the clock and the random source give, and it is the one in the Message-ID field; and
  a message that is not multipart serializes to the same bytes each time. A multipart message
  does not: its boundaries are drawn anew, so two serializations of the sample message differ.
\<close>

theorem MessageID_fixed:
  assumes "MessageID L R now m n = (mid, m', n')"
  shows "MessageID L R' now' m' k = (mid, m', k) \<and> (''Message-ID'', ''<'' @ mid @ ''>'') \<in> set (wire_fields L m')
    \<and> (single_part m \<longrightarrow> (\<exists>r. \<forall>R now n. Message_Bytes L R now m' n = (r, m', n)))
    \<and> fst (Message_Bytes sample_lib sample_draws sample_time sample_sealed 0) \<noteq> fst (Message_Bytes sample_lib sample_draws sample_time sample_sealed 5)"
proof -
  have "(''Message-ID'', ''<'' @ mid @ ''>'') \<in> set (wire_fields L m')"
    using assms by (auto simp: MessageID_def wire_fields_def split: prod.splits)
  moreover have "\<exists>r. \<forall>R now n. Message_Bytes L R now m' n = (r, m', n)" if "single_part m"
    using assms that by (intro Bytes_sealed) (auto simp: MessageID_def seal_fixed split: prod.splits)
  ultimately show ?thesis using MessageID_stable [OF assms] sample_bytes_differ by blast
qed

theorem MessageID_fixed_witness:
  "MessageID sample_lib sample_draws sample_time plain_sealed 5 = (''1@x.io'', plain_sealed, 5)
    \<and> (''Message-ID'', ''<'' @ ''1@x.io'' @ ''>'') \<in> set (wire_fields sample_lib plain_sealed)
    \<and> (\<exists>r. \<forall>R now n. Message_Bytes sample_lib R now plain_sealed n = (r, plain_sealed, n))"
proof -
  have m: "MessageID sample_lib sample_draws zero_time plain_sealed 0 = (''1@x.io'', plain_sealed, 0)" "single_part plain_sealed"
    by (simp_all add: MessageID_def seal_idem plain_sealed_def single_part_def SetText_def SetTo_def SetFrom_def NewMessage_def)
  from MessageID_fixed [OF m(1), of sample_draws sample_time 5] m(2) show ?thesis by blast
qed

section \<open>Headers\<close>

text \<open>The custom headers of a message as a map from canonical names to values.\<close>

definition header_map :: "message \<Rightarrow> bytes \<rightharpoonup> bytes" where
  "header_map m = map_of (map (\<lambda>h. (canonicalHeaderName (hdr_Name h), hdr_Value h)) (msg_headers m))"

lemma find_header_map:
  "find_header hs name = map_of (map (\<lambda>h. (canonicalHeaderName (hdr_Name h), hdr_Value h)) hs) (canonicalHeaderName name)"
  by (induction hs) auto

lemma header_map_keys:
  "header_map m c \<noteq> None \<Longrightarrow> \<exists>k. canonicalHeaderName k = c"
  by (auto simp: header_map_def dest!: map_of_SomeD)

text \<open>
  (C9) The header operations refine updates of a map keyed by canonical names: setting a valid
  header updates its key, an invalid name or a value with a line break changes nothing,
  removing a header deletes its key, and reading one looks its key up.
\<close>

theorem headers_refine_map:
  "Header m name = header_map m (canonicalHeaderName name)
    \<and> header_map (SetHeader m name v) = (if header_ok name v then (header_map m)(canonicalHeaderName name \<mapsto> v) else header_map m)
    \<and> header_map (RemoveHeader m name) = (header_map m)(canonicalHeaderName name := None)"
proof -
  have H: "Header x k = header_map x (canonicalHeaderName k)" for x k
    by (simp add: Header_def header_map_def find_header_map)
  have ext: "f = g" if "\<forall>k. f (canonicalHeaderName k) = g (canonicalHeaderName k)"
      "\<forall>c. (\<nexists>k. canonicalHeaderName k = c) \<longrightarrow> f c = g c" for f g :: "bytes \<Rightarrow> bytes option"
    using that by (intro ext) metis
  have none: "(\<nexists>k. canonicalHeaderName k = c) \<Longrightarrow> header_map x c = None" for c x
    using header_map_keys [of x c] by blast
  have put: "header_map (SetHeader m name v) = (header_map m)(canonicalHeaderName name \<mapsto> v)" if "header_ok name v"
    using hstore.get_put [OF that, of m] by (intro ext) (auto simp: H [symmetric] none)
  have del: "header_map (RemoveHeader m name) = (header_map m)(canonicalHeaderName name := None)"
    using hstore.get_del [of m name] by (intro ext) (auto simp: H [symmetric] none)
  from put del show ?thesis by (simp add: H hstore.put_bad)
qed

text \<open>
  (C11) Every message that its operations can build has only well-formed custom headers, at most
  one per canonical name, and a Content-ID on every inline part.
\<close>

theorem built_messages_wf:
  assumes "built m"
  shows "headers_wf m \<and> cid_wf m"
  using assms by (simp add: built_headers_wf built_cid_wf)

theorem built_messages_wf_witness:
  "headers_wf (SetHeader sample_message ''X-Tag'' ''a'') \<and> cid_wf (SetHeader sample_message ''X-Tag'' ''a'')"
  by (rule built_messages_wf) (auto simp: sample_message_def intro!: built.intros)



section \<open>Encodings\<close>

text \<open>
  (C24) Bodies: the base64 of an attachment decodes to its bytes, in lines of at most 76 octets;
  a quoted-printable text decodes to the text with its line ends as CR LF, in lines of at
  most 76 octets none of which ends in white space that a relay may drop.
\<close>

theorem bodies_roundtrip:
  "DecodeString (writeBase64 data) = Some data
    \<and> list_all (\<lambda>line. length line \<le> 76) (SplitCRLF (writeBase64 data))
    \<and> qp_decode (writeQuotedPrintable s) = Some (qp_canon False s)
    \<and> list_all (\<lambda>line. length line \<le> 76 \<and> no_trailing line) (SplitCRLF (writeQuotedPrintable s))
    \<and> (CR \<notin> set s \<longrightarrow> qp_canon False s = concat (map (\<lambda>b. if b = LF then CRLF else [b]) s))"
  using writeBase64_line_bound [of _ data] writeQuotedPrintable_lines [of _ s] qp_no_trailing [of s]
  by (auto simp: DecodeString_writeBase64 qp_decode_write qp_canon_lf list_all_iff maxBase64LineLength_def)

theorem bodies_roundtrip_witness:
  "qp_decode (writeQuotedPrintable (''a=b '' @ [LF])) = Some (''a=b '' @ CRLF)"
proof -
  have "CR \<notin> set (''a=b '' @ [LF])" by simp
  with bodies_roundtrip [of "[]" "''a=b '' @ [LF]"]
  have "qp_decode (writeQuotedPrintable (''a=b '' @ [LF])) = Some (concat (map (\<lambda>b. if b = LF then CRLF else [b]) (''a=b '' @ [LF])))"
    by presburger
  then show ?thesis by simp
qed


section \<open>Addresses and envelopes\<close>

text \<open>
  (C22) Validation is exact. \<^verbatim>\<open>EnsureValidity\<close> accepts exactly the messages with a sender, a recipient,
  and only valid From, Reply-To, To, Cc and Bcc addresses. \<^verbatim>\<open>NewEnvelope\<close> accepts exactly a valid
  sender with an ASCII local part and a non-empty list of valid recipients, keeps them in
  order without their display names, and otherwise reports an invalid argument.
\<close>

theorem validation_exact:
  "(EnsureValidity m = None \<longleftrightarrow> Message_Recipients m \<noteq> [] \<and> msg_from m \<noteq> []
     \<and> list_all valid (msg_from m @ msg_replyTo m @ Message_Recipients m))
    \<and> (case NewEnvelope s rs of
         Inr e \<Rightarrow> valid s \<and> \<not> HasUnicodeLocalPart s \<and> rs \<noteq> [] \<and> list_all valid rs \<and> envelope_wf e
           \<and> e = \<lparr>env_sender = s, env_recipients = map (\<lambda>r. r\<lparr>addr_Name := []\<rparr>) rs\<rparr>
       | Inl err \<Rightarrow> errors_Is err ErrInvalidArgument
           \<and> \<not> (valid s \<and> \<not> HasUnicodeLocalPart s \<and> rs \<noteq> [] \<and> list_all valid rs))"
proof (cases "NewEnvelope s rs")
  case (Inl err)
  then have "\<not> (valid s \<and> \<not> HasUnicodeLocalPart s \<and> rs \<noteq> [] \<and> list_all valid rs)"
    using NewEnvelope_Inr [of s rs] by (auto simp: list_all_iff)
  with Inl NewEnvelope_Inl [OF Inl] EnsureValidity_None [of m] show ?thesis by (simp add: list_all_iff)
next
  case (Inr e)
  with NewEnvelope_Inr [of s rs e] NewEnvelope_wf [OF Inr] EnsureValidity_None [of m] show ?thesis by (simp add: list_all_iff)
qed

text \<open>
  (C26) An envelope derived from a message is well-formed and its recipients are those of the
  To, Cc and Bcc lists, in order.
\<close>

theorem EnvelopeFromMessage_sound:
  assumes "EnvelopeFromMessage L (MsgRaw m) = Inr e"
  shows "envelope_wf e \<and> map Email (env_recipients e) = map Email (msg_to m @ msg_cc m @ msg_bcc m)"
  using EnvelopeFromMessage_wf [OF assms] EnvelopeFromMessage_recipients [OF assms]
  by (simp add: Message_Recipients_def)

theorem EnvelopeFromMessage_sound_witness:
  "envelope_wf \<lparr>env_sender = alice, env_recipients = [bob]\<rparr>
    \<and> map Email [bob] = map Email (msg_to sample_message @ msg_cc sample_message @ msg_bcc sample_message)"
proof -
  have "EnvelopeFromMessage sample_lib (MsgRaw sample_message) = Inr \<lparr>env_sender = alice, env_recipients = [bob]\<rparr>"
    by code_simp
  from EnvelopeFromMessage_sound [OF this] show ?thesis by simp
qed

text \<open>
  \<^verbatim>\<open>SetRecipients\<close> is not atomic: when a recipient is invalid, the envelope has already
  lost its recipients, and holds the valid ones before it followed by zero addresses.
\<close>

theorem SetRecipients_not_atomic:
  assumes "list_all valid as" "\<not> valid r"
  shows "\<exists>err. SetRecipients e (as @ r # bs) =
    (e\<lparr>env_recipients := map (\<lambda>r. r\<lparr>addr_Name := []\<rparr>) as @ replicate (Suc (length bs)) zero_address\<rparr>, Some err)
    \<and> errors_Is err ErrInvalidArgument"
  using fill_recipients_bad [of as r bs] assms by (auto simp: SetRecipients_def list_all_iff)

theorem SetRecipients_not_atomic_witness:
  "\<exists>err. SetRecipients \<lparr>env_sender = alice, env_recipients = [carol]\<rparr> ([bob] @ zero_address # [carol]) =
    (\<lparr>env_sender = alice, env_recipients = [carol]\<rparr>
       \<lparr>env_recipients := map (\<lambda>r. r\<lparr>addr_Name := []\<rparr>) [bob] @ replicate (Suc (length [carol])) zero_address\<rparr>, Some err)
    \<and> errors_Is err ErrInvalidArgument"
  by (rule SetRecipients_not_atomic) (code_simp+)

end
