(* ===== verification/Delivery_Spec.thy ===== *)
theory Delivery_Spec
  imports Samples
begin

text \<open>
  Properties of the transports' shared behaviour: the base transport and its throttle, the
  round-robin and failover pools, the router and the DSN registry.
\<close>

section \<open>Samples\<close>

text \<open>Two children of a pool on a clock of nanoseconds: one fails at once, one accepts.\<close>

definition failing_child :: "int transport" where
  "failing_child = \<lparr>tr_Send = \<lambda>m e w. (Inl (NewTransportError ''down''), m, e, w + 1), tr_String = ''smtp://a'', tr_Close = None\<rparr>"

definition accepting_child :: "int transport" where
  "accepting_child = \<lparr>tr_Send = \<lambda>m e w. (Inr None, m, e, w + 1), tr_String = ''smtp://b'', tr_Close = None\<rparr>"

abbreviation sample_pool :: "int transport list" where
  "sample_pool \<equiv> [failing_child, accepting_child]"

abbreviation sample_sys :: "int sys" where
  "sample_sys \<equiv> slow_sys sample_lib"

lemma sample_pool_fits: "pool_fits (\<lambda>w. True) 2 DefaultRetryPeriod sample_sys sample_pool msg env 1"
  by (auto simp: pool_fits_def DefaultRetryPeriod_def failing_child_def accepting_child_def now_nanos_def slow_sys_def)

definition sample_rr :: rr where
  "sample_rr = \<lparr>rr_size = 2, rr_dead = Map.empty, rr_cursor = 0, rr_initialized = True,
     rr_retryPeriod = DefaultRetryPeriod, rr_initialCursor = \<lambda>_. 0, rr_logger = None, rr_nameSymbol = ''roundrobin''\<rparr>"

definition sample_failover :: failover where
  "sample_failover = \<lparr>fo_rr = sample_rr, fo_current = True, fo_currentIndex = 0\<rparr>"

lemma sample_rr_inv: "rr_inv 2 DefaultRetryPeriod sample_rr"
  by (simp add: rr_inv_def sample_rr_def)

lemma sample_failover_inv: "fo_inv 2 DefaultRetryPeriod sample_failover"
  using sample_rr_inv by (simp add: fo_inv_def sample_failover_def)

section \<open>Pools\<close>

lemma sample_pool_children:
  "always_accepts W msg env (sample_pool ! nat 1)" "list_all (fails_softly W msg env) sample_pool"
  by (simp_all add: always_accepts_def fails_softly_def accepting_child_def failing_child_def isTransportError_def)

text \<open>
  (C5) When trying every child takes no longer than the retry period, the \<^verbatim>\<open>Send\<close> of a
  round-robin and of a failover pool returns within that time, no child is tried twice, every one
  tried is a child of the pool, and the pool's invariant holds afterwards. It delivers whenever
  one child that is not marked dead accepts the message and the others fail only with transport
  errors. \<open>W\<close> are the worlds in which the children are known to answer in time.
\<close>

theorem pools_return:
  assumes "rr_inv n p t" "fo_inv n p f" "pool_fits W n p S ts msg env d" "W w"
  shows "(\<exists>is out t' w'. roundrobin_Send S ts msg env t w = Some (out, t', w')
      \<and> dispatch_run S nextTransportLocked (markDead ts) ts msg env None t w is out t' w'
      \<and> distinct is \<and> set is \<subseteq> {0..<n} \<and> rr_inv n p t' \<and> now_nanos S w' \<le> now_nanos S w + n * d
      \<and> (pool_delivers W ts msg env (rr_dead t) \<longrightarrow> (\<exists>r. out = Inr r)))
    \<and> (\<exists>is out f' w'. failover_Send S ts msg env f w = Some (out, f', w')
      \<and> dispatch_run S failover_nextTransport (failover_markDead ts) ts msg env None f w is out f' w'
      \<and> distinct is \<and> set is \<subseteq> {0..<n} \<and> fo_inv n p f' \<and> now_nanos S w' \<le> now_nanos S w + n * d
      \<and> (pool_delivers W ts msg env (rr_dead (fo_rr f)) \<longrightarrow> (\<exists>r. out = Inr r)))"
  using rr_select.send_returns [OF assms(1,3,4)] fo_select.send_returns [OF assms(2,3,4)]
  unfolding roundrobin_Send_def failover_Send_def o_apply by blast

theorem pools_return_witness:
  "(\<exists>is r t' w'. roundrobin_Send sample_sys sample_pool NilRaw None sample_rr 0 = Some (Inr r, t', w')
      \<and> dispatch_run sample_sys nextTransportLocked (markDead sample_pool) sample_pool NilRaw None None sample_rr 0 is (Inr r) t' w'
      \<and> distinct is \<and> set is \<subseteq> {0..<2} \<and> rr_inv 2 DefaultRetryPeriod t' \<and> now_nanos sample_sys w' \<le> now_nanos sample_sys 0 + 2 * 1)
    \<and> (\<exists>is r f' w'. failover_Send sample_sys sample_pool NilRaw None sample_failover 0 = Some (Inr r, f', w')
      \<and> dispatch_run sample_sys failover_nextTransport (failover_markDead sample_pool) sample_pool NilRaw None None sample_failover 0 is (Inr r) f' w'
      \<and> distinct is \<and> set is \<subseteq> {0..<2} \<and> fo_inv 2 DefaultRetryPeriod f' \<and> now_nanos sample_sys w' \<le> now_nanos sample_sys 0 + 2 * 1)"
proof -
  have "pool_delivers (\<lambda>w. True) sample_pool NilRaw None (rr_dead sample_rr)"
    "pool_delivers (\<lambda>w. True) sample_pool NilRaw None (rr_dead (fo_rr sample_failover))"
    unfolding pool_delivers_def using sample_pool_children by (auto intro!: bexI [of _ 1] simp: sample_rr_def sample_failover_def)
  with pools_return [OF sample_rr_inv sample_failover_inv sample_pool_fits TrueI, of NilRaw None] show ?thesis by blast
qed



text \<open>
  (C32) What a pool reports. After some children were tried in turn, all but the last of which
  failed with transport errors, the \<^verbatim>\<open>Send\<close> of a pool returns the message of the last one; or
  its error, unchanged, if that is no transport error; or one aggregate error whose cause is
  the last child's error, whose code is the last non-zero reply code and whose transcript
  names every child with its transcript, in order. The logger, if there is one, gets one record
  for each child that failed with a transport error, in order, and no other.
\<close>

theorem pool_errors:
  assumes "roundrobin_Send S ts msg env t w = Some (out, t', w')" "failover_Send S ts msg env f v = Some (fout, f', v')"
  shows "(\<exists>is. pool_report (nl_unicode (sys_lib S)) ts msg env w w' is out
      \<and> rr_logger t' = map_option (\<lambda>l. l @ map (\<lambda>f. (tr_String (ts ! nat (fst f)), rr_retryPeriod t))
          (filter soft (child_errors ts msg env w is))) (rr_logger t))
    \<and> (\<exists>is. pool_report (nl_unicode (sys_lib S)) ts msg env v v' is fout
      \<and> rr_logger (fo_rr f') = map_option (\<lambda>l. l @ map (\<lambda>g. (tr_String (ts ! nat (fst g)), rr_retryPeriod (fo_rr f)))
          (filter soft (child_errors ts msg env v is))) (rr_logger (fo_rr f)))"
proof -
  obtain "is" where rr: "dispatch_run S nextTransportLocked (markDead ts) ts msg env None t w is out t' w'"
    using assms(1) unfolding roundrobin_Send_def dispatch_iff by blast
  obtain js where fo: "dispatch_run S failover_nextTransport (failover_markDead ts) ts msg env None f v js fout f' v'"
    using assms(2) unfolding failover_Send_def dispatch_iff by blast
  note dispatch_report [OF rr] dispatch_report [OF fo]
  with rr_log.run_log [OF rr] fo_log.run_log [OF fo] show ?thesis by (auto simp: comp_def)
qed

text \<open>A pool of one child that fails, with a logger.\<close>

definition logged_rr :: rr where
  "logged_rr = SetLogger (sample_rr\<lparr>rr_size := 1\<rparr>) (Some [])"

definition logged_end :: rr where
  "logged_end = logged_rr\<lparr>rr_dead := [0 \<mapsto> 1], rr_logger := Some [(''smtp://a'', DefaultRetryPeriod)]\<rparr>"

definition logged_error :: goerr where
  "logged_error = TransportError ''All transports failed.'' 0 (Some (NewTransportError ''down''))
     (''Transport '' @ [CHR 0x22] @ ''smtp://a'' @ [CHR 0x22] @ '': '' @ [LF])"

lemmas one_child_defs =
  dispatch.simps nextTransportLocked_def seed_cursor_def scan.simps moveCursor_def time_Sub_def now_nanos_def slow_sys_def
  failing_child_def logged_rr_def logged_end_def logged_error_def sample_rr_def SetLogger_def isTransportError_def
  aggregate_def NewTransportError_def smtpCode_def debugOf_def DefaultRetryPeriod_def markDead_def

lemma one_child_sends:
  "roundrobin_Send sample_sys [failing_child] NilRaw None logged_rr 0 = Some (Inl logged_error, logged_end, 1)"
  "failover_Send sample_sys [failing_child] NilRaw None \<lparr>fo_rr = logged_rr, fo_current = False, fo_currentIndex = 0\<rparr> 0
    = Some (Inl logged_error, \<lparr>fo_rr = logged_end, fo_current = False, fo_currentIndex = -1\<rparr>, 1)"
  by (simp_all add: roundrobin_Send_def failover_Send_def failover_nextTransport_def failover_markDead_def isCurrentDead_def
      isDeadLocked_def one_child_defs)

theorem pool_errors_witness:
  "(\<exists>is. pool_report (nl_unicode (sys_lib sample_sys)) [failing_child] NilRaw None 0 1 is (Inl logged_error)
      \<and> rr_logger logged_end = map_option (\<lambda>l. l @ map (\<lambda>f. (tr_String ([failing_child] ! nat (fst f)), rr_retryPeriod logged_rr))
          (filter soft (child_errors [failing_child] NilRaw None 0 is))) (rr_logger logged_rr))
    \<and> (\<exists>is. pool_report (nl_unicode (sys_lib sample_sys)) [failing_child] NilRaw None 0 1 is (Inl logged_error)
      \<and> rr_logger logged_end = map_option (\<lambda>l. l @ map (\<lambda>g. (tr_String ([failing_child] ! nat (fst g)), rr_retryPeriod logged_rr))
          (filter soft (child_errors [failing_child] NilRaw None 0 is))) (rr_logger logged_rr))"
  using pool_errors [OF one_child_sends] by simp



section \<open>The base transport\<close>

text \<open>
  When the base transport reports success, its delivery hook ran, without an error, on a
  sent message made from the given message, with the given envelope or the one derived
  from the message.
\<close>

theorem base_Send_success:
  assumes "base_Send S b msg env w = Some (Inr r, b', w')"
  shows "\<exists>hook sm sm' e w1 w2. bt_DoSend b = Some hook \<and> hook sm w2 = Some (None, sm', w') \<and> r = Some sm'
    \<and> NewSentMessage S msg (Some e) w = (Inr sm, w1) \<and> sm_envelope sm = Some e
    \<and> e = (case env of Some x \<Rightarrow> x | None \<Rightarrow> projr (EnvelopeFromMessage (sys_lib S) msg))"
proof -
  from assms obtain sm sm' e w1 w2 hook where
    "r = Some sm'" "bt_DoSend b = Some hook" "hook sm w2 = Some (None, sm', w')"
    "NewSentMessage S msg (Some e) w = (Inr sm, w1)" "sm_envelope sm = Some e"
    "case env of Some x \<Rightarrow> e = x | None \<Rightarrow> EnvelopeFromMessage (sys_lib S) msg = Inr e"
    by (rule base_Send_Inr)
  moreover from this(6) have "e = (case env of Some x \<Rightarrow> x | None \<Rightarrow> projr (EnvelopeFromMessage (sys_lib S) msg))"
    by (cases env) auto
  ultimately show ?thesis by blast
qed

theorem base_Send_success_witness:
  "\<exists>hook sm sm' e w1 w2. bt_DoSend (NewNullTransport :: int base_transport) = Some hook \<and> hook sm w2 = Some (None, sm', 0)
    \<and> Some \<lparr>sm_raw = ''hi'', sm_envelope = Some \<lparr>env_sender = alice, env_recipients = [bob]\<rparr>, sm_messageID = [], sm_debug = []\<rparr> = Some sm'
    \<and> NewSentMessage sample_sys (BytesRaw ''hi'') (Some e) 0 = (Inr sm, w1) \<and> sm_envelope sm = Some e
    \<and> e = (case Some \<lparr>env_sender = alice, env_recipients = [bob]\<rparr> of Some x \<Rightarrow> x
           | None \<Rightarrow> projr (EnvelopeFromMessage (sys_lib sample_sys) (BytesRaw ''hi'')))"
  by (rule base_Send_success [where b' = "NewNullTransport :: int base_transport"])
     (simp add: base_Send_def NewNullTransport_def slow_sys_def isNilRawMessage_def NewSentMessage_def checkThrottling_def)

text \<open>
  (C17) Two sends that pass the throttle are at least one interval apart, when timers do not
  fire early and the clock did not run backwards.
\<close>

theorem throttle_spacing:
  assumes "timer_ok S" "checkThrottling S b w = (None, b', w')"
    and "bt_maxPerSecond b \<noteq> 0" "\<not> IsZero (bt_lastSent b)" "t_nanos (bt_lastSent b) \<le> now_nanos S w"
  shows "bt_lastSent b' = Now S w' \<and>
    second_div S (bt_maxPerSecond b) \<le> t_nanos (bt_lastSent b') - t_nanos (bt_lastSent b)"
  by (rule checkThrottling_spacing [OF assms])

definition throttled_sys :: "int sys" where
  "throttled_sys = sample_sys\<lparr>second_div := \<lambda>r. 500000000\<rparr>"

definition throttled :: "int base_transport" where
  "throttled = \<lparr>bt_Name = ''smtp://x'', bt_DoSend = None, bt_maxPerSecond = 2, bt_lastSent = \<lparr>t_nanos = 10, t_offset = 0\<rparr>\<rparr>"

theorem throttle_spacing_witness:
  "bt_lastSent (throttled\<lparr>bt_lastSent := \<lparr>t_nanos = 500000010, t_offset = 0\<rparr>\<rparr>) = Now throttled_sys 500000010 \<and>
    second_div throttled_sys (bt_maxPerSecond throttled)
      \<le> t_nanos (bt_lastSent (throttled\<lparr>bt_lastSent := \<lparr>t_nanos = 500000010, t_offset = 0\<rparr>\<rparr>)) - t_nanos (bt_lastSent throttled)"
  by (rule throttle_spacing [where w = 20])
     (simp_all add: timer_ok_def throttled_sys_def slow_sys_def now_nanos_def throttled_def checkThrottling_def
        time_Sub_def IsZero_def zero_time_def)

text \<open>
  Wrapping a delivery error gives a transport error or a context error, keeps every class
  the error had, and is done once.
\<close>

theorem wrapTransportError_laws:
  "(errors_Is (wrapTransportError e) ErrTransport \<or> errors_Is (wrapTransportError e) ContextCanceled
      \<or> errors_Is (wrapTransportError e) ContextDeadlineExceeded)
    \<and> {s. errors_Is e s} \<subseteq> {s. errors_Is (wrapTransportError e) s}
    \<and> wrapTransportError (wrapTransportError e) = wrapTransportError e"
  using wrapTransportError_class [of e] wrapTransportError_keeps [of e] wrapTransportError_idem [of e] by auto

section \<open>The router\<close>







section \<open>The DSN registry\<close>

text \<open>
  (C8) The DSN parser returns on every input, with a transport tree or with an error that is an
  invalid argument or the error of a factory. A single DSN that parses has a scheme and a
  host, and its port, when given, is at most 65535; a refusal is an invalid argument.
\<close>

theorem DSN_parsing_total:
  "(\<exists>r. FromString url_Parse factories s = Some r
     \<and> (case r of Inr t \<Rightarrow> True
        | Inl e \<Rightarrow> errors_Is e ErrInvalidArgument \<or> (\<exists>s. resolve_single url_Parse factories s = Inl e)))
   \<and> (case ParseDSN url_Parse s of
        Inr d \<Rightarrow> dsn_scheme d \<noteq> [] \<and> dsn_host d \<noteq> [] \<and> 0 \<le> dsn_port d \<and> dsn_port d \<le> 65535
      | Inl e \<Rightarrow> errors_Is e ErrInvalidArgument)"
proof
  obtain r where r: "parseDSN (resolve_single url_Parse factories) (parse_fuel s) s = Some r"
    using parseDSN_fuel(1) [of s "parse_fuel s"] unfolding parse_fuel_def by blast
  show "\<exists>r. FromString url_Parse factories s = Some r
    \<and> (case r of Inr t \<Rightarrow> True
       | Inl e \<Rightarrow> errors_Is e ErrInvalidArgument \<or> (\<exists>s. resolve_single url_Parse factories s = Inl e))"
  proof (cases r)
    case (Inl e)
    with r parse_error_class(1) [of "resolve_single url_Parse factories" "parse_fuel s" s e]
    show ?thesis by (auto simp: FromString_def parse_class_def)
  qed (use r in \<open>auto simp: FromString_def\<close>)
  show "case ParseDSN url_Parse s of
     Inr d \<Rightarrow> dsn_scheme d \<noteq> [] \<and> dsn_host d \<noteq> [] \<and> 0 \<le> dsn_port d \<and> dsn_port d \<le> 65535
   | Inl e \<Rightarrow> errors_Is e ErrInvalidArgument"
  proof (cases "ParseDSN url_Parse s")
    case (Inr d)
    from Inr obtain u port where "url_Parse s = Some u" and d: "dsn_port_of (u_Port u) = Inr port"
      "dsn_scheme d = u_Scheme u" "u_Scheme u \<noteq> []" "dsn_host d \<noteq> []"
      "dsn_hasPort d \<longleftrightarrow> port \<noteq> None" "dsn_port d = (case port of Some p \<Rightarrow> p | None \<Rightarrow> 0)"
      by (rule ParseDSN_Inr)
    have "0 \<le> dsn_port d \<and> dsn_port d \<le> 65535"
      using d(1,6) dsn_port_of_range [of "u_Port u"] by (cases port) auto
    with Inr d show ?thesis by simp
  qed (simp add: ParseDSN_error)
qed

text \<open>
  (C7) Printing a tree of transports as a DSN and parsing it gives the tree back, with every
  leaf resolved by its factory; composites may nest.
\<close>

theorem FromString_roundtrip:
  assumes "dtree_ok (resolve_single url_Parse factories) f t"
  shows "FromString url_Parse factories (show_dsn t) = Some (Inr (map_dtree f t))"
  by (rule FromString_show [OF assms])

definition sample_url :: "bytes \<Rightarrow> url option" where
  "sample_url s = Some \<lparr>u_Scheme = ''null'', u_Hostname = s, u_Port = [], u_User = None, u_Query = []\<rparr>"

lemma sample_leaf: "dtree_ok (resolve_single sample_url [NullFactory ''N'']) (\<lambda>_. ''N'') (Single ''null://x'')"
  by (simp add: resolve_single_def ParseDSN_def sample_url_def dsn_port_of_def fromDSNObject_def NullFactory_def
      null_Supports_def null_Create_def)

theorem FromString_roundtrip_witness:
  "FromString sample_url [NullFactory ''N'']
     (show_dsn (Failover [Single ''null://x'', RoundRobin [Single ''null://x''] DefaultRetryPeriod] DefaultRetryPeriod))
   = Some (Inr (map_dtree (\<lambda>_. ''N'')
       (Failover [Single ''null://x'', RoundRobin [Single ''null://x''] DefaultRetryPeriod] DefaultRetryPeriod)))"
  by (rule FromString_roundtrip) (use sample_leaf in simp)

text \<open>
  A \<^verbatim>\<open>retry_period\<close> suffix on a composite sets its retry period in seconds, for every value
  that fits a duration.
\<close>

theorem FromString_retry_period:
  assumes "dtree_ok (resolve_single url_Parse factories) f (Failover ts DefaultRetryPeriod)" "0 < n" "n \<le> 9223372036"
  shows "FromString url_Parse factories (show_dsn (Failover ts DefaultRetryPeriod) @ ''?retry_period='' @ nat_Itoa n)
      = Some (Inr (Failover (map (map_dtree f) ts) (int n * 1000000000)))
    \<and> FromString url_Parse factories (show_dsn (RoundRobin ts DefaultRetryPeriod) @ ''?retry_period='' @ nat_Itoa n)
      = Some (Inr (RoundRobin (map (map_dtree f) ts) (int n * 1000000000)))"
  using FromString_show_retry [OF assms] by blast

theorem FromString_retry_period_witness:
  "FromString sample_url [NullFactory ''N''] (show_dsn (Failover [Single ''null://x''] DefaultRetryPeriod) @ ''?retry_period='' @ nat_Itoa 5)
      = Some (Inr (Failover (map (map_dtree (\<lambda>_. ''N'')) [Single ''null://x'']) (int 5 * 1000000000)))
    \<and> FromString sample_url [NullFactory ''N''] (show_dsn (RoundRobin [Single ''null://x''] DefaultRetryPeriod) @ ''?retry_period='' @ nat_Itoa 5)
      = Some (Inr (RoundRobin (map (map_dtree (\<lambda>_. ''N'')) [Single ''null://x'']) (int 5 * 1000000000)))"
  by (rule FromString_retry_period) (use sample_leaf in simp_all)

end
