(* ===== verification/Smtp_Codec.thy ===== *)
theory Smtp_Codec
  imports Registry_Props
begin

text \<open>
  The pure parts of the SMTP transport (\<^verbatim>\<open>transport/smtp/smtp.go\<close>): the encoding of the
  message for the DATA stream, the parsers of server replies, and the redaction of
  credentials; with the receiver's side of the DATA stream as a specification.
\<close>

section \<open>The DATA stream\<close>

text \<open>\<^verbatim>\<open>normalizeCRLF\<close>: lone LF and CR become CRLF.\<close>

fun normalizeCRLF :: "bytes \<Rightarrow> bytes" where
  "normalizeCRLF [] = []"
| "normalizeCRLF [c] = (if c = CR \<or> c = LF then CRLF else [c])"
| "normalizeCRLF (c # d # s) =
    (if c = CR then (if d = LF then CRLF @ normalizeCRLF s else CRLF @ normalizeCRLF (d # s))
     else if c = LF then CRLF @ normalizeCRLF (d # s)
     else c # normalizeCRLF (d # s))"

text \<open>
  The loop of \<^verbatim>\<open>dotStuff\<close>: \<open>prev\<close> is the byte before the current one, if any.
\<close>

fun dotStuff_loop :: "char option \<Rightarrow> bytes \<Rightarrow> bytes" where
  "dotStuff_loop prev [] = []"
| "dotStuff_loop prev (c # s) =
    (if c = LF \<and> prev = Some CR \<and> s \<noteq> [] \<and> hd s = CHR ''.'' then c # CHR ''.'' # dotStuff_loop (Some c) s
     else c # dotStuff_loop (Some c) s)"

definition dotStuff :: "bytes \<Rightarrow> bytes" where
  "dotStuff data = (if data \<noteq> [] \<and> hd data = CHR ''.'' then ''.'' else []) @ dotStuff_loop None data"

definition bytesHasSuffix :: "bytes \<Rightarrow> bytes \<Rightarrow> bool" where
  "bytesHasSuffix data suffix \<longleftrightarrow>
     (if length data < length suffix then False else drop (length data - length suffix) data = suffix)"

text \<open>What \<^verbatim>\<open>writeData\<close> puts on the wire and the terminator \<^verbatim>\<open>doSend\<close> sends after it.\<close>

definition data_text :: "bytes \<Rightarrow> bytes" where
  "data_text data = dotStuff (normalizeCRLF data)"

definition data_terminator :: "bytes \<Rightarrow> bytes" where
  "data_terminator stuffed = (if bytesHasSuffix stuffed CRLF then ''.'' @ CRLF else CRLF @ ''.'' @ CRLF)"

section \<open>Server replies\<close>

definition parseCode :: "bytes \<Rightarrow> int" where
  "parseCode resp =
    (if length resp < 3 then 0 else case Atoi (take 3 resp) of None \<Rightarrow> 0 | Some c \<Rightarrow> c)"

definition smtp_code :: "goerr \<Rightarrow> int" where
  "smtp_code err = (case errors_As err of Some te \<Rightarrow> te_Code te | None \<Rightarrow> 0)"

type_synonym caps = "(bytes \<times> bytes list) list"

definition caps_put :: "caps \<Rightarrow> bytes \<Rightarrow> bytes list \<Rightarrow> caps" where
  "caps_put m k v = (k, v) # filter (\<lambda>(k', v'). k' \<noteq> k) m"

definition cap_line :: "unicode \<Rightarrow> caps \<Rightarrow> bytes \<Rightarrow> caps" where
  "cap_line U caps line =
    (if length line < 4 then caps
     else
       (let rest = TrimLeft (TrimRight (drop 4 line) CRLF) '' =''; fields = Fields rest in
        case fields of
          [] \<Rightarrow> caps_put caps (ToUpper U (TrimRight (drop 4 line) (CRLF @ '' ''))) []
        | f # fs \<Rightarrow> caps_put caps (ToUpper U f) (map (ToUpper U) fs)))"

definition parseCapabilities :: "unicode \<Rightarrow> bytes \<Rightarrow> caps" where
  "parseCapabilities U resp =
    (let lines = SplitCRLF (TrimSpace resp) in
     if length lines \<le> 1 then [] else foldl (cap_line U) [] (tl lines))"

definition takeIDToken :: "bytes \<Rightarrow> bytes" where
  "takeIDToken s = takeWhile (\<lambda>c. is_alnum c \<or> c = CHR ''.'' \<or> c = CHR ''_'' \<or> c = CHR ''-'') s"

definition indexFold :: "unicode \<Rightarrow> bytes \<Rightarrow> bytes \<Rightarrow> nat option" where
  "indexFold U s substr = Index (ToLower U s) (ToLower U substr)"

text \<open>
  \<^verbatim>\<open>strings.EqualFold\<close> against an ASCII prefix of the same number of bytes compares ASCII
  letters without case; no multi-byte rune can match there.
\<close>

definition trimPrefixFold :: "bytes \<Rightarrow> bytes \<Rightarrow> bytes" where
  "trimPrefixFold s p =
    (if length p \<le> length s \<and> map lower_byte (take (length p) s) = map lower_byte p
     then drop (length p) s else s)"

text \<open>
  \<^verbatim>\<open>parseMessageID\<close>. The index found in the lower-cased text is used in the original one;
  where lower-casing changed its length the slice can be out of range, a panic: \<open>None\<close>.
\<close>

fun message_id_lines :: "unicode \<Rightarrow> bytes list \<Rightarrow> bytes option" where
  "message_id_lines U [] = Some []"
| "message_id_lines U (l # ls) =
    (let line = TrimRight l CRLF in
     if \<not> HasPrefix line ''250 '' then message_id_lines U ls
     else
       (let rest = TrimPrefix line ''250 '' in
        case indexFold U rest ''ok'' of
          None \<Rightarrow> message_id_lines U ls
        | Some idx \<Rightarrow>
            if length rest < idx + 2 then None
            else
              (let after = TrimLeft (TrimPrefix (drop (idx + 2) rest) '':'') '' '';
                   after = trimPrefixFold (trimPrefixFold after ''queued as '') ''id='';
                   mid = takeIDToken after
               in if mid \<noteq> [] then Some mid else message_id_lines U ls)))"

definition parseMessageID :: "unicode \<Rightarrow> bytes \<Rightarrow> bytes option" where
  "parseMessageID U resp = message_id_lines U (SplitByte resp LF)"

section \<open>Commands\<close>

definition redactedToken :: bytes where
  "redactedToken = ''<redacted>''"

text \<open>\<^verbatim>\<open>strings.SplitN(s, " ", 3)\<close>.\<close>

definition split3 :: "bytes \<Rightarrow> bytes list" where
  "split3 s =
    (case IndexByte s SP of
       None \<Rightarrow> [s]
     | Some i \<Rightarrow>
         let r = drop (i + 1) s in
         (case IndexByte r SP of
            None \<Rightarrow> [take i s, r]
          | Some j \<Rightarrow> [take i s, take j r, drop (j + 1) r]))"

definition redactCommand :: "unicode \<Rightarrow> bytes \<Rightarrow> bytes" where
  "redactCommand U command =
    (let trimmed = TrimRight command CRLF; upper = ToUpper U trimmed in
     if HasPrefix upper ''AUTH '' then
       (case split3 trimmed of
          [a, b, _] \<Rightarrow> a @ '' '' @ b @ '' '' @ redactedToken @ CRLF
        | _ \<Rightarrow> command)
     else redactedToken @ CRLF)"

definition encodeSMTPAddress :: "netlib \<Rightarrow> bytes \<Rightarrow> goerr + bytes" where
  "encodeSMTPAddress L address =
    (case LastIndexByte address (CHR ''@'') of
       None \<Rightarrow> Inr address
     | Some i \<Rightarrow>
         if i = length address - 1 then Inr address
         else
           (let local = take i address; domain = drop (i + 1) address in
            if HasPrefix domain ''['' \<and> HasSuffix domain '']'' then Inr address
            else case idna_ToASCII L domain of
              Inl err \<Rightarrow> Inl (Errorf ''%w: invalid address domain %q: %w''
                               [OErr (Sentinel ErrInvalidArgument), OStr domain, OErr err])
            | Inr ascii \<Rightarrow> Inr (local @ ''@'' @ ascii)))"

lemmas smtp_codec_eval [go_eval] =
  dotStuff_def bytesHasSuffix_def data_text_def data_terminator_def parseCode_def smtp_code_def caps_put_def
  cap_line_def parseCapabilities_def takeIDToken_def indexFold_def trimPrefixFold_def parseMessageID_def
  redactedToken_def split3_def redactCommand_def encodeSMTPAddress_def

section \<open>The receiver\<close>

text \<open>
  RFC 5321, section 4.5.2: a line that is a single dot ends the data, a leading dot of any
  other line is dropped. \<open>receive\<close> works on the lines of the stream and returns the lines
  of the mail and those after it.
\<close>

fun receive_lines :: "bytes list \<Rightarrow> (bytes list \<times> bytes list) option" where
  "receive_lines [] = None"
| "receive_lines (l # ls) =
    (if l = ''.'' then Some ([], ls)
     else map_option (\<lambda>(ms, rest). ((if l \<noteq> [] \<and> hd l = CHR ''.'' then tl l else l) # ms, rest)) (receive_lines ls))"

text \<open>Line feeds only as part of CRLF, and no CR outside of one.\<close>

fun crlf_only :: "bytes \<Rightarrow> bool" where
  "crlf_only [] \<longleftrightarrow> True"
| "crlf_only [c] \<longleftrightarrow> c \<noteq> CR \<and> c \<noteq> LF"
| "crlf_only (c # d # s) \<longleftrightarrow>
    (if c = CR then d = LF \<and> crlf_only s else c \<noteq> LF \<and> crlf_only (d # s))"

lemma normalizeCRLF_crlf_only: "crlf_only (normalizeCRLF s)"
proof (induction s rule: normalizeCRLF.induct)
  case (3 c d s)
  have cons: "crlf_only t \<Longrightarrow> x \<noteq> CR \<Longrightarrow> x \<noteq> LF \<Longrightarrow> crlf_only (x # t)" for x t by (cases t) auto
  have crlf: "crlf_only t \<Longrightarrow> crlf_only (CRLF @ t)" for t by simp
  show ?case using 3 cons crlf by (auto split: if_splits)
qed auto

lemma normalizeCRLF_id: "crlf_only s \<Longrightarrow> normalizeCRLF s = s"
proof (induction s rule: crlf_only.induct)
  case (3 c d s)
  then show ?case by (cases "c = CR") auto
qed auto

lemma normalizeCRLF_idem: "normalizeCRLF (normalizeCRLF s) = normalizeCRLF s"
  by (rule normalizeCRLF_id [OF normalizeCRLF_crlf_only])

definition stuff_line :: "bytes \<Rightarrow> bytes" where
  "stuff_line l = (if l \<noteq> [] \<and> hd l = CHR ''.'' then CHR ''.'' # l else l)"

text \<open>On normalized text, stuffing the text is stuffing its lines.\<close>

lemma dotStuff_loop_lines:
  assumes "crlf_only s"
  shows "prev \<noteq> Some CR \<Longrightarrow> SplitCRLF (dotStuff_loop prev s) = hd (SplitCRLF s) # map stuff_line (tl (SplitCRLF s))"
  using assms
proof (induction s arbitrary: prev rule: crlf_only.induct)
  case (3 c d s)
  show ?case
  proof (cases "c = CR")
    case True
    with 3(4) have d: "d = LF" "crlf_only s" by auto
    have rest: "SplitCRLF (dotStuff_loop (Some LF) s) = hd (SplitCRLF s) # map stuff_line (tl (SplitCRLF s))"
      using 3(1) True d by auto
    have dot: "s \<noteq> [] \<and> hd s = CHR ''.'' \<Longrightarrow> hd (SplitCRLF s) \<noteq> [] \<and> hd (hd (SplitCRLF s)) = CHR ''.''"
      by (cases s rule: SplitCRLF.cases) (auto split: list.splits)
    have nodot: "\<not> (s \<noteq> [] \<and> hd s = CHR ''.'') \<Longrightarrow> \<not> (hd (SplitCRLF s) \<noteq> [] \<and> hd (hd (SplitCRLF s)) = CHR ''.'')"
      by (cases s rule: SplitCRLF.cases) (auto split: list.splits)
    have cons: "x \<noteq> CR \<Longrightarrow> SplitCRLF (x # t) = (x # hd (SplitCRLF t)) # tl (SplitCRLF t)" for x t
      by (cases t) (auto split: list.splits)
    obtain h ts where h: "SplitCRLF s = h # ts" by (cases "SplitCRLF s") auto
    show ?thesis
    proof (cases "s \<noteq> [] \<and> hd s = CHR ''.''")
      case dotted: True
      with dot h have "stuff_line h = CHR ''.'' # h" by (simp add: stuff_line_def)
      with dotted True d rest h cons show ?thesis by simp
    next
      case False
      with nodot h have "stuff_line h = h" by (auto simp: stuff_line_def)
      with False True d rest h show ?thesis by auto
    qed
  next
    case False
    with 3(4) have c: "c \<noteq> LF" "crlf_only (d # s)" by auto
    have cons: "x \<noteq> CR \<Longrightarrow> SplitCRLF (x # t) = (x # hd (SplitCRLF t)) # tl (SplitCRLF t)" for x t
      by (cases t) (auto split: list.splits)
    have "SplitCRLF (dotStuff_loop (Some c) (d # s)) = hd (SplitCRLF (d # s)) # map stuff_line (tl (SplitCRLF (d # s)))"
      using 3(2) False c by auto
    moreover obtain h ts where "SplitCRLF (d # s) = h # ts" by (cases "SplitCRLF (d # s)") auto
    ultimately show ?thesis using False c cons [of c] by simp
  qed
qed auto

lemma dotStuff_lines: "crlf_only s \<Longrightarrow> SplitCRLF (dotStuff s) = map stuff_line (SplitCRLF s)"
proof -
  assume s: "crlf_only s"
  have cons: "x \<noteq> CR \<Longrightarrow> SplitCRLF (x # t) = (x # hd (SplitCRLF t)) # tl (SplitCRLF t)" for x t
    by (cases t) (auto split: list.splits)
  note loop = dotStuff_loop_lines [OF s, of None, simplified]
  obtain h ts where h: "SplitCRLF s = h # ts" by (cases "SplitCRLF s") auto
  have "(s \<noteq> [] \<and> hd s = CHR ''.'') = (h \<noteq> [] \<and> hd h = CHR ''.'')"
    using h by (cases s rule: SplitCRLF.cases) (auto split: list.splits if_splits)
  with loop h cons show ?thesis by (auto simp: dotStuff_def stuff_line_def)
qed

lemma SplitCRLF_append_join: "SplitCRLF (s @ CRLF @ t) = SplitCRLF s @ SplitCRLF t" if "crlf_only s"
  using that
proof (induction s rule: crlf_only.induct)
  case (2 c)
  then show ?case by (cases t) auto
next
  case (3 c d s)
  show ?case
  proof (cases "c = CR")
    case True
    with 3 show ?thesis by auto
  next
    case False
    obtain h ts where "SplitCRLF (d # s) = h # ts" by (cases "SplitCRLF (d # s)") auto
    with 3 False show ?thesis by auto
  qed
qed simp

lemma crlf_only_stuff_loop: "crlf_only s \<Longrightarrow> prev \<noteq> Some CR \<Longrightarrow> crlf_only (dotStuff_loop prev s)"
proof (induction s arbitrary: prev rule: crlf_only.induct)
  case (3 c d s)
  have cons: "crlf_only t \<Longrightarrow> x \<noteq> CR \<Longrightarrow> x \<noteq> LF \<Longrightarrow> crlf_only (x # t)" for x t by (cases t) auto
  show ?case
  proof (cases "c = CR")
    case True
    with 3(3) have "d = LF" "crlf_only s" by auto
    with 3(1) [OF True _ _ ] True have "crlf_only (dotStuff_loop (Some LF) s)" by auto
    with True \<open>d = LF\<close> cons [of _ "CHR ''.''"] show ?thesis by auto
  next
    case False
    with 3(2) [OF False, of "Some c"] 3(3) have "crlf_only (dotStuff_loop (Some c) (d # s))" by auto
    with False 3(3) cons [of _ c] show ?thesis by auto
  qed
qed auto

lemma crlf_only_dotStuff: "crlf_only s \<Longrightarrow> crlf_only (dotStuff s)"
proof -
  have cons: "crlf_only t \<Longrightarrow> x \<noteq> CR \<Longrightarrow> x \<noteq> LF \<Longrightarrow> crlf_only (x # t)" for x t by (cases t) auto
  show "crlf_only s \<Longrightarrow> crlf_only (dotStuff s)"
    using crlf_only_stuff_loop [of s None] cons [of _ "CHR ''.''"] by (auto simp: dotStuff_def)
qed

lemma receive_stuffed:
  "receive_lines (map stuff_line ls @ ''.'' # rest) = Some (ls, rest)"
  by (induction ls) (auto simp: stuff_line_def)

text \<open>
  A text that ends in CRLF, cut into its lines, ends in an empty one.
\<close>

lemma SplitCRLF_suffix:
  assumes "crlf_only s" "bytesHasSuffix s CRLF"
  obtains t where "s = t @ CRLF" "SplitCRLF s = SplitCRLF t @ [[]]" "crlf_only t"
proof -
  define t where "t = take (length s - 2) s"
  have s: "s = t @ CRLF" using assms(2) unfolding t_def bytesHasSuffix_def
    by (metis append_take_drop_id length_Cons list.size(3) numeral_2_eq_2)
  have "crlf_only (u @ CRLF) \<Longrightarrow> crlf_only u" for u
    by (induction u rule: crlf_only.induct) (auto split: if_splits)
  with assms(1) s have t: "crlf_only t" by blast
  with s SplitCRLF_append_join [of t "[]"] that show thesis by simp
qed

lemma SplitCRLF_last_Nil: "last (SplitCRLF u) = [] \<Longrightarrow> u \<noteq> [] \<Longrightarrow> \<exists>v. u = v @ CRLF"
proof (induction u rule: SplitCRLF.induct)
  case (3 c d u)
  consider "c = CR" "d = LF" "u = []" | "c = CR" "d = LF" "u \<noteq> []" | "\<not> (c = CR \<and> d = LF)" by blast
  then show ?case
  proof cases
    case 1
    then show ?thesis by (intro exI [of _ "[]"]) simp
  next
    case 2
    with 3(1,3) obtain v where "u = v @ CRLF" by auto
    with 2 show ?thesis by (intro exI [of _ "c # d # v"]) simp
  next
    case c: 3
    obtain h ts where h: "SplitCRLF (d # u) = h # ts" by (cases "SplitCRLF (d # u)") auto
    with 3(2,3) c obtain v where "d # u = v @ CRLF" by (auto split: if_splits)
    then show ?thesis by (intro exI [of _ "c # v"]) simp
  qed
qed auto

lemma stuff_line_Nil_iff: "stuff_line l = [] \<longleftrightarrow> l = []"
  by (auto simp: stuff_line_def)

text \<open>
  What the receiver reads from the DATA stream of a message, and what is left of the stream:
  the normalized message, with a final line break if it had none.
\<close>

lemma data_received:
  "receive_lines (SplitCRLF (data_text data @ data_terminator (data_text data) @ after)) =
    Some (let ls = SplitCRLF (normalizeCRLF data) in if last ls = [] \<and> normalizeCRLF data \<noteq> [] then butlast ls else ls,
          SplitCRLF after)"
proof -
  let ?n = "normalizeCRLF data" and ?s = "data_text data"
  have n: "crlf_only ?n" by (rule normalizeCRLF_crlf_only)
  have s: "crlf_only ?s" unfolding data_text_def by (rule crlf_only_dotStuff [OF n])
  have lines: "SplitCRLF ?s = map stuff_line (SplitCRLF ?n)" unfolding data_text_def by (rule dotStuff_lines [OF n])
  have dot: "SplitCRLF (''.'' @ CRLF @ after) = ''.'' # SplitCRLF after"
    using SplitCRLF_append [of "''.''" after] by simp
  show ?thesis
  proof (cases "bytesHasSuffix ?s CRLF")
    case True
    then obtain t where t: "?s = t @ CRLF" "SplitCRLF ?s = SplitCRLF t @ [[]]" "crlf_only t"
      using SplitCRLF_suffix [OF s] by blast
    have last: "last (SplitCRLF ?n) = []" and bl: "map stuff_line (butlast (SplitCRLF ?n)) = SplitCRLF t"
      using t(2) lines by (metis SplitCRLF_not_Nil last_map last_snoc stuff_line_Nil_iff, metis butlast_snoc map_butlast)
    have "?n \<noteq> []" using t(1) by (auto simp: data_text_def dotStuff_def)
    have "SplitCRLF (?s @ data_terminator ?s @ after) = SplitCRLF t @ ''.'' # SplitCRLF after"
      using True t(1) SplitCRLF_append_join [OF t(3), of "''.'' @ CRLF @ after"] dot
      by (simp add: data_terminator_def)
    then show ?thesis using receive_stuffed [of "butlast (SplitCRLF ?n)" "SplitCRLF after"] last bl \<open>?n \<noteq> []\<close>
      by (simp add: Let_def)
  next
    case False
    have "SplitCRLF (?s @ data_terminator ?s @ after) = map stuff_line (SplitCRLF ?n) @ ''.'' # SplitCRLF after"
      using False SplitCRLF_append_join [OF s, of "''.'' @ CRLF @ after"] dot lines
      by (simp add: data_terminator_def)
    moreover have "\<not> (last (SplitCRLF ?n) = [] \<and> ?n \<noteq> [])"
    proof
      assume a: "last (SplitCRLF ?n) = [] \<and> ?n \<noteq> []"
      have "last (SplitCRLF ?s) = []" using a lines by (simp add: last_map stuff_line_Nil_iff)
      moreover have "?s \<noteq> []" using a by (cases ?n) (auto simp: data_text_def dotStuff_def)
      ultimately obtain v where "?s = v @ CRLF" using SplitCRLF_last_Nil by blast
      with False show False by (simp add: bytesHasSuffix_def)
    qed
    ultimately show ?thesis using receive_stuffed [of "SplitCRLF ?n" "SplitCRLF after"] by (auto simp: Let_def)
  qed
qed

section \<open>Redaction\<close>

lemma TrimRight_CRLF: "s \<noteq> [] \<Longrightarrow> last s \<noteq> CR \<Longrightarrow> last s \<noteq> LF \<Longrightarrow> TrimRight (s @ CRLF) CRLF = s"
  by (cases s rule: rev_cases) (auto simp: TrimRight_def)

lemma isASCII_plain: "\<forall>c \<in> set s. byte c < 128 \<Longrightarrow> isASCII s"
  by (simp add: isASCII_def list_all_iff)

lemma redact_plain:
  assumes "cred \<noteq> []" "\<forall>c \<in> set cred. 33 \<le> byte c \<and> byte c < 127"
  shows "redactCommand U (''AUTH PLAIN '' @ cred @ CRLF) = ''AUTH PLAIN '' @ redactedToken @ CRLF"
proof -
  have "33 \<le> byte (last cred)" using assms by simp
  then have "last cred \<noteq> CR" "last cred \<noteq> LF" by auto
  then have t: "TrimRight (''AUTH PLAIN '' @ cred @ CRLF) CRLF = ''AUTH PLAIN '' @ cred"
    using assms(1) TrimRight_CRLF [of "''AUTH PLAIN '' @ cred"] by simp
  have "isASCII (''AUTH PLAIN '' @ cred)" using assms(2) by (auto simp: isASCII_def list_all_iff)
  then have "HasPrefix (ToUpper U (''AUTH PLAIN '' @ cred)) ''AUTH ''"
    by (simp add: ToUpper_def HasPrefix_def upper_byte_def)
  moreover have "split3 (''AUTH PLAIN '' @ cred) = [''AUTH'', ''PLAIN'', cred]"
    by (simp add: split3_def)
  ultimately show ?thesis using t by (simp add: redactCommand_def)
qed

lemma redact_line:
  assumes "cred \<noteq> []" "\<forall>c \<in> set cred. 33 \<le> byte c \<and> byte c < 127"
  shows "redactCommand U (cred @ CRLF) = redactedToken @ CRLF"
proof -
  have "33 \<le> byte (last cred)" using assms by simp
  then have "last cred \<noteq> CR" "last cred \<noteq> LF" by auto
  then have t: "TrimRight (cred @ CRLF) CRLF = cred" using TrimRight_CRLF assms(1) by blast
  have "isASCII cred" using assms(2) by (auto simp: isASCII_def list_all_iff)
  then have up: "ToUpper U cred = map upper_byte cred" by (simp add: ToUpper_def)
  have "upper_byte c \<noteq> SP" if "c \<in> set cred" for c
  proof -
    have "33 \<le> byte c" "byte c < 127" using assms(2) that by auto
    then have "33 \<le> byte (upper_byte c)" by (auto simp: upper_byte_def)
    then show ?thesis by auto
  qed
  then have "SP \<notin> set (map upper_byte cred)" unfolding set_map by (metis imageE)
  then have "\<not> HasPrefix (map upper_byte cred) ''AUTH ''" by (auto simp: HasPrefix_iff simp del: set_map)
  then show ?thesis by (simp add: redactCommand_def t up)
qed

text \<open>Message identifiers are read without a panic from an ASCII response.\<close>

lemma Index_bound: "Index s p = Some i \<Longrightarrow> i + length p \<le> length s"
  using Index_Some_split [of s p i] by (metis add.commute le_add1 length_append length_take min.absorb2 add_le_cancel_left)

lemma set_TrimRight: "set (TrimRight s cs) \<subseteq> set s"
  by (auto simp: TrimRight_def dest: set_dropWhileD)

lemma message_id_lines_ascii:
  "\<forall>l \<in> set ls. isASCII l \<Longrightarrow> message_id_lines U ls \<noteq> None"
proof (induction ls)
  case (Cons l ls)
  let ?line = "TrimRight l CRLF" and ?rest = "TrimPrefix (TrimRight l CRLF) ''250 ''"
  have "set ?rest \<subseteq> set l" using set_TrimRight [of l CRLF] by (auto simp: TrimPrefix_def dest!: in_set_dropD)
  then have "isASCII ?rest" using Cons.prems by (auto simp: isASCII_def list_all_iff)
  then have "indexFold U ?rest ''ok'' = Some idx \<Longrightarrow> \<not> length ?rest < idx + 2" for idx
    using Index_bound [of "ToLower U ?rest" "ToLower U ''ok''" idx]
    by (simp add: indexFold_def ToLower_def) (simp add: isASCII_def)
  with Cons show ?case by (auto simp: Let_def split: option.splits)
qed simp

end
