(* ===== verification/Smtp.thy ===== *)
theory Smtp
  imports Smtp_Codec
begin

text \<open>
  The SMTP conversation (\<^verbatim>\<open>transport/smtp/smtp.go\<close>). The transport's record holds its
  configuration, its connection state and the trace of what it did on the network. The peer
  is arbitrary: each of its answers is a function of the whole trace so far, and so are the
  clock, the context and the random source. When a read or write fails is the peer's choice;
  which socket deadline and which cancellation hook are in force at that moment is in the
  trace. An authenticator is one of the three the package ships.
\<close>

section \<open>The outside\<close>

text \<open>
  The part of \<^verbatim>\<open>tls.Config\<close> that the package sets; \<open>tc_pin\<close> is the closure of
  \<^verbatim>\<open>VerifyPeerCertificate\<close>: the normalized and the given fingerprint.
\<close>

record tls_config =
  tc_ServerName :: bytes
  tc_MinVersion :: nat
  tc_InsecureSkipVerify :: bool
  tc_pin :: "(bytes \<times> bytes) option"

definition VersionTLS12 :: nat where
  "VersionTLS12 = 0x303"

text \<open>
  \<open>EvDial addr src\<close> is a dial of \<open>addr\<close>, from the local address \<open>src\<close> if there is one.
  \<open>EvWrite secret c\<close> is a write of \<open>c\<close>, \<open>secret\<close> when it carries credentials (it was issued by
  \<^verbatim>\<open>executeCommandRedacted\<close>). \<open>EvHandshake c\<close> is the attempt of a TLS handshake with configuration \<open>c\<close>, \<open>EvTLS\<close> its success.
  Connections are numbered by the dials: \<open>EvDeadline n d\<close> is \<^verbatim>\<open>SetDeadline\<close> on connection \<open>n\<close>, to
  the instant \<open>d\<close> in nanoseconds or to none; \<open>EvWatch n\<close> and \<open>EvUnwatch n\<close> install and stop the hook
  that closes it when the context is done.
\<close>

datatype event =
  EvDial bytes "bytes option" | EvHandshake tls_config | EvTLS | EvWrite bool bytes | EvRead | EvClose | EvSleep duration | EvRand nat
| EvDeadline nat "int option" | EvWatch nat | EvUnwatch nat

datatype read_error = ReadTimeout bytes | ReadClosed bytes

text \<open>
  \<open>p_dial\<close>, \<open>p_tls\<close> and \<open>p_write\<close> give the text of an error, if any; \<open>p_read\<close> is
  \<^verbatim>\<open>ReadString('\n')\<close>: what was read and an error. \<open>p_ctxDeadline\<close> is the context's
  deadline (\<^verbatim>\<open>ctx.Deadline\<close>), \<open>p_stamp\<close> is the time stamp of the transcript.
\<close>

record peer =
  p_lib :: netlib
  p_dial :: "event list \<Rightarrow> bytes option"
  p_tls :: "event list \<Rightarrow> bytes option"
  p_write :: "event list \<Rightarrow> bytes \<Rightarrow> bytes option"
  p_read :: "event list \<Rightarrow> bytes \<times> read_error option"
  p_ctx :: "event list \<Rightarrow> goerr option"
  p_ctxDeadline :: "event list \<Rightarrow> gotime option"
  p_now :: "event list \<Rightarrow> gotime"
  p_stamp :: "event list \<Rightarrow> bytes"
  p_sleep :: "event list \<Rightarrow> duration \<Rightarrow> goerr option"
  p_rand :: "event list \<Rightarrow> nat \<Rightarrow> draw"
  p_hmac_md5 :: "bytes \<Rightarrow> bytes \<Rightarrow> bytes"
  p_base64_error :: "bytes \<Rightarrow> bytes"
  p_second_div :: "rat \<Rightarrow> duration"

section \<open>The transport\<close>

datatype authenticator = PlainAuthenticator | LoginAuthenticator | CramMD5Authenticator

fun Keyword :: "authenticator \<Rightarrow> bytes" where
  "Keyword PlainAuthenticator = ''PLAIN''"
| "Keyword LoginAuthenticator = ''LOGIN''"
| "Keyword CramMD5Authenticator = ''CRAM-MD5''"

record smtp =
  s_host :: bytes
  s_port :: int
  s_tls :: bool
  s_username :: bytes
  s_password :: bytes
  s_autoTLS :: bool
  s_requireTLS :: bool
  s_allowPlaintextAuth :: bool
  s_localDomain :: bytes
  s_sourceIP :: bytes
  s_tlsConfig :: "tls_config option"
  s_authenticators :: "authenticator list"
  s_restartThreshold :: int
  s_restartThresholdSleep :: int
  s_restartCounter :: int
  s_pingThreshold :: int
  s_ioTimeout :: duration
  s_retryAttempts :: int
  s_retryDelay :: duration
  s_conn :: bool
  s_started :: bool
  s_usingTLS :: bool
  s_ctxHasDeadline :: bool
  s_capabilities :: caps
  s_lastMessageTime :: gotime
  s_debug :: bytes
  s_trace :: "event list"

text \<open>
  \<open>s_conn\<close> tells whether \<^verbatim>\<open>conn\<close> and \<^verbatim>\<open>text\<close> are set: they are set and cleared together.
\<close>

definition NewTransport :: "bytes \<Rightarrow> int \<Rightarrow> bool \<Rightarrow> smtp" where
  "NewTransport host port tlsOnConnect =
    \<lparr>s_host = host, s_port = (if port = 0 then (if tlsOnConnect then 465 else 25) else port),
     s_tls = tlsOnConnect, s_username = [], s_password = [], s_autoTLS = True, s_requireTLS = False,
     s_allowPlaintextAuth = False, s_localDomain = ''[127.0.0.1]'', s_sourceIP = [], s_tlsConfig = None,
     s_authenticators = [PlainAuthenticator, LoginAuthenticator, CramMD5Authenticator],
     s_restartThreshold = 100, s_restartThresholdSleep = 0, s_restartCounter = 0,
     s_pingThreshold = 100, s_ioTimeout = 30000000000, s_retryAttempts = 1, s_retryDelay = 250000000,
     s_conn = False, s_started = False, s_usingTLS = False, s_ctxHasDeadline = False, s_capabilities = [],
     s_lastMessageTime = zero_time, s_debug = [], s_trace = []\<rparr>"

definition SetUsername :: "smtp \<Rightarrow> bytes \<Rightarrow> smtp" where
  "SetUsername t u = t\<lparr>s_username := u\<rparr>"

definition SetPassword :: "smtp \<Rightarrow> bytes \<Rightarrow> smtp" where
  "SetPassword t p = t\<lparr>s_password := p\<rparr>"

definition SetAutoTLS :: "smtp \<Rightarrow> bool \<Rightarrow> smtp" where
  "SetAutoTLS t v = t\<lparr>s_autoTLS := v\<rparr>"

definition SetRequireTLS :: "smtp \<Rightarrow> bool \<Rightarrow> smtp" where
  "SetRequireTLS t v = t\<lparr>s_requireTLS := v\<rparr>"

definition SetAllowPlaintextAuth :: "smtp \<Rightarrow> bool \<Rightarrow> smtp" where
  "SetAllowPlaintextAuth t v = t\<lparr>s_allowPlaintextAuth := v\<rparr>"

definition SetTimeout :: "smtp \<Rightarrow> duration \<Rightarrow> smtp" where
  "SetTimeout t d = t\<lparr>s_ioTimeout := d\<rparr>"

definition SetRetry :: "smtp \<Rightarrow> int \<Rightarrow> duration \<Rightarrow> smtp" where
  "SetRetry t attempts delay = t\<lparr>s_retryAttempts := (if attempts < 0 then 0 else attempts), s_retryDelay := delay\<rparr>"

definition SetSourceIP :: "smtp \<Rightarrow> bytes \<Rightarrow> smtp" where
  "SetSourceIP t ip = t\<lparr>s_sourceIP := ip\<rparr>"

definition SetTLSConfig :: "smtp \<Rightarrow> tls_config option \<Rightarrow> smtp" where
  "SetTLSConfig t c = t\<lparr>s_tlsConfig := c\<rparr>"

definition SetAuthenticators :: "smtp \<Rightarrow> authenticator list \<Rightarrow> smtp" where
  "SetAuthenticators t a = t\<lparr>s_authenticators := a\<rparr>"

definition SetRestartThreshold :: "smtp \<Rightarrow> int \<Rightarrow> int \<Rightarrow> smtp" where
  "SetRestartThreshold t threshold sleep =
    t\<lparr>s_restartThreshold := threshold, s_restartThresholdSleep := sleep\<rparr>"

definition SetPingThreshold :: "smtp \<Rightarrow> int \<Rightarrow> smtp" where
  "SetPingThreshold t seconds = t\<lparr>s_pingThreshold := seconds\<rparr>"

text \<open>\<open>parseIP d\<close> is \<^verbatim>\<open>net.ParseIP\<close>: whether \<open>d\<close> is an address, and whether an IPv4 one.\<close>

definition SetLocalDomain :: "(bytes \<Rightarrow> bool option) \<Rightarrow> smtp \<Rightarrow> bytes \<Rightarrow> smtp" where
  "SetLocalDomain parseIP t domain =
    t\<lparr>s_localDomain :=
       (if domain \<noteq> [] \<and> hd domain \<noteq> CHR ''['' then
          (case parseIP domain of
             None \<Rightarrow> domain
           | Some True \<Rightarrow> ''['' @ domain @ '']''
           | Some False \<Rightarrow> ''[IPv6:'' @ domain @ '']'')
        else domain)\<rparr>"

definition computeName :: "smtp \<Rightarrow> bytes" where
  "computeName t =
    (if s_tls t then ''smtps'' else ''smtp'') @ '':'' @ [CHR 0x2F, CHR 0x2F] @ s_host t
      @ (if (\<not> s_tls t \<and> s_port t \<noteq> 25) \<or> (s_tls t \<and> s_port t \<noteq> 465) then '':'' @ Itoa (s_port t) else [])"

section \<open>The wire\<close>

definition happen :: "event \<Rightarrow> smtp \<Rightarrow> smtp" where
  "happen ev t = t\<lparr>s_trace := s_trace t @ [ev]\<rparr>"

definition terminate :: "smtp \<Rightarrow> smtp" where
  "terminate t =
    (if s_conn t then happen EvClose t else t)\<lparr>s_conn := False, s_started := False, s_usingTLS := False\<rparr>"

section \<open>Deadlines\<close>

definition conn_number :: "event list \<Rightarrow> nat" where
  "conn_number tr = length (filter (\<lambda>ev. case ev of EvDial addr src \<Rightarrow> True | _ \<Rightarrow> False) tr)"

definition now_plus :: "peer \<Rightarrow> smtp \<Rightarrow> int" where
  "now_plus P t = t_nanos (p_now P (s_trace t)) + s_ioTimeout t"

text \<open>\<^verbatim>\<open>bindConnectionContext\<close> on the connection of the last dial.\<close>

definition bindConnectionContext :: "peer \<Rightarrow> smtp \<Rightarrow> smtp" where
  "bindConnectionContext P t =
    (let n = conn_number (s_trace t);
         t = (case p_ctxDeadline P (s_trace t) of
                Some deadline \<Rightarrow> happen (EvDeadline n (Some (t_nanos deadline))) t
              | None \<Rightarrow> if 0 < s_ioTimeout t then happen (EvDeadline n (Some (now_plus P t))) t else t)
     in happen (EvWatch n) t)"

text \<open>The cleanup it returns, for connection \<open>n\<close>; \<open>None\<close> is the cleanup that does nothing.\<close>

definition cleanupContext :: "nat option \<Rightarrow> smtp \<Rightarrow> smtp" where
  "cleanupContext c t = (case c of None \<Rightarrow> t | Some n \<Rightarrow> happen (EvDeadline n None) (happen (EvUnwatch n) t))"

definition bindCurrentConnectionContext :: "peer \<Rightarrow> smtp \<Rightarrow> nat option \<times> smtp" where
  "bindCurrentConnectionContext P t =
    (if \<not> s_conn t then (None, t) else (Some (conn_number (s_trace t)), bindConnectionContext P t))"

definition refreshIOTimeout :: "peer \<Rightarrow> smtp \<Rightarrow> smtp" where
  "refreshIOTimeout P t =
    (if \<not> s_conn t \<or> s_ioTimeout t \<le> 0 then t
     else if s_ctxHasDeadline t then t
     else happen (EvDeadline (conn_number (s_trace t)) (Some (now_plus P t))) t)"

section \<open>Commands and responses\<close>

definition recordDebug :: "peer \<Rightarrow> bytes \<Rightarrow> bytes \<Rightarrow> smtp \<Rightarrow> smtp" where
  "recordDebug P dir line t =
    t\<lparr>s_debug := s_debug t @ concat (map (\<lambda>l. ''['' @ p_stamp P (s_trace t) @ ''] '' @ dir @ '' '' @ l @ [LF])
        (SplitByte (TrimRight line CRLF) LF))\<rparr>"

definition maxResponseSize :: nat where
  "maxResponseSize = 65536"

definition read_error_text :: "read_error \<Rightarrow> goerr" where
  "read_error_text e =
    (case e of
       ReadTimeout x \<Rightarrow> NewTransportError (''Connection to the SMTP server timed out: '' @ x)
     | ReadClosed x \<Rightarrow> NewTransportError (''Connection to the SMTP server has been closed unexpectedly: '' @ x))"

function readResponse :: "peer \<Rightarrow> bytes \<Rightarrow> smtp \<Rightarrow> (goerr + bytes) \<times> smtp" where
  "readResponse P acc t =
    (case p_read P (s_trace t) of (line, err) \<Rightarrow>
       (let t = happen EvRead t;
            t = (if line \<noteq> [] then recordDebug P ''<'' line t else t);
            acc' = acc @ line in
        if maxResponseSize < length acc' then
          (Inl (NewTransportError ''SMTP response exceeded the maximum allowed size''), t)
        else case err of
          Some e \<Rightarrow> (Inl (read_error_text e), t)
        | None \<Rightarrow>
            if length line < 4 \<or> line ! 3 \<noteq> CHR ''-'' then (Inr acc', t)
            else readResponse P acc' t))"
  by pat_completeness auto
termination
  by (relation "measure (\<lambda>(P, acc, t). maxResponseSize + 1 - length acc)") auto

declare readResponse.simps [simp del]

definition code_error :: "unicode \<Rightarrow> bytes \<Rightarrow> int list \<Rightarrow> goerr" where
  "code_error U resp codes =
    (let c = parseCode resp;
         codeStr = (if c \<noteq> 0 then ''code '' @ [CHR 0x22] @ Itoa c @ [CHR 0x22] else ''empty code'');
         trimmed = TrimSpace resp;
         msgStr = (if trimmed \<noteq> [] then '', with message '' @ Quote U trimmed else [])
     in te_set_Code (NewTransportError (''Expected response code '' @ Quote U (Join (map Itoa codes) [CHR 0x2F])
          @ '' but got '' @ codeStr @ msgStr @ ''.'')) c)"

definition assertResponse2 :: "unicode \<Rightarrow> bytes \<Rightarrow> int list \<Rightarrow> goerr + bytes" where
  "assertResponse2 U resp codes =
    (if codes = [] then
       Inl (Errorf ''%w: you must set the expected response code'' [OErr (Sentinel ErrLogic)])
     else if parseCode resp \<notin> set codes \<or> resp = [] then Inl (code_error U resp codes)
     else Inr resp)"

abbreviation p_unicode :: "peer \<Rightarrow> unicode" where
  "p_unicode P \<equiv> nl_unicode (p_lib P)"

text \<open>The greeting has code 220.\<close>

abbreviation assertResponse :: "unicode \<Rightarrow> bytes \<Rightarrow> goerr + bytes" where
  "assertResponse U resp \<equiv> assertResponse2 U resp [220]"

definition execute :: "peer \<Rightarrow> bytes \<Rightarrow> int list \<Rightarrow> bool \<Rightarrow> smtp \<Rightarrow> (goerr + bytes) \<times> smtp" where
  "execute P command codes redact t =
    (if \<not> s_conn t then (Inl (NewTransportError ''connection is not established''), t)
     else
       (let t = refreshIOTimeout P t;
            t = recordDebug P ''>'' (if redact then redactCommand (p_unicode P) command else command) t;
            t' = happen (EvWrite redact command) t in
        case p_write P (s_trace t) command of
          Some e \<Rightarrow> (Inl (NewTransportError (''unable to write bytes on the wire: '' @ e)), terminate t')
        | None \<Rightarrow>
            (case readResponse P [] t' of
               (Inl err, t) \<Rightarrow> (Inl err, terminate t)
             | (Inr resp, t) \<Rightarrow> (assertResponse2 (p_unicode P) resp codes, t))))"

text \<open>The callers of \<^verbatim>\<open>execute\<close>: \<^verbatim>\<open>executeCommand\<close>, and \<^verbatim>\<open>executeCommandRedacted\<close> for credentials.\<close>

abbreviation executeCommand :: "peer \<Rightarrow> bytes \<Rightarrow> int list \<Rightarrow> smtp \<Rightarrow> (goerr + bytes) \<times> smtp" where
  "executeCommand P command codes \<equiv> execute P command codes False"

abbreviation executeCommandRedacted :: "peer \<Rightarrow> bytes \<Rightarrow> int list \<Rightarrow> smtp \<Rightarrow> (goerr + bytes) \<times> smtp" where
  "executeCommandRedacted P command codes \<equiv> execute P command codes True"

definition contextErr :: "peer \<Rightarrow> smtp \<Rightarrow> goerr \<Rightarrow> goerr" where
  "contextErr P t err =
    (if smtp_code err \<noteq> 0 then err
     else case p_ctx P (s_trace t) of
       Some e \<Rightarrow> e
     | None \<Rightarrow>
         (case p_ctxDeadline P (s_trace t) of
            Some deadline \<Rightarrow>
              if \<not> t_nanos (p_now P (s_trace t)) < t_nanos deadline then Sentinel ContextDeadlineExceeded else err
          | None \<Rightarrow> err))"

definition drainDebug :: "smtp \<Rightarrow> bytes \<times> smtp" where
  "drainDebug t = (s_debug t, t\<lparr>s_debug := []\<rparr>)"

definition appendErrDebug :: "goerr \<Rightarrow> smtp \<Rightarrow> goerr \<times> smtp" where
  "appendErrDebug err t =
    (if errors_As err \<noteq> None then (append_debug_As err (s_debug t), t\<lparr>s_debug := []\<rparr>) else (err, t))"

section \<open>Session setup\<close>

text \<open>\<^verbatim>\<open>net.JoinHostPort\<close>: a host with a colon is put in brackets.\<close>

definition JoinHostPort :: "bytes \<Rightarrow> bytes \<Rightarrow> bytes" where
  "JoinHostPort host port = (if CHR '':'' \<in> set host then ''['' @ host @ '']:'' @ port else host @ '':'' @ port)"

definition effectiveTLSConfig :: "smtp \<Rightarrow> tls_config" where
  "effectiveTLSConfig t =
    (case s_tlsConfig t of
       Some c \<Rightarrow> if tc_ServerName c = [] then c\<lparr>tc_ServerName := s_host t\<rparr> else c
     | None \<Rightarrow> \<lparr>tc_ServerName = s_host t, tc_MinVersion = VersionTLS12, tc_InsecureSkipVerify = False, tc_pin = None\<rparr>)"

text \<open>The address \<^verbatim>\<open>connect\<close> dials and the local address it dials from.\<close>

definition dial_event :: "smtp \<Rightarrow> event" where
  "dial_event t =
    EvDial (JoinHostPort (s_host t) (Itoa (s_port t)))
      (if s_sourceIP t \<noteq> [] then Some (Trim (s_sourceIP t) ''[]'') else None)"

definition connect :: "peer \<Rightarrow> smtp \<Rightarrow> goerr option \<times> smtp" where
  "connect P t =
    (let addr = JoinHostPort (s_host t) (Itoa (s_port t)); t1 = happen (dial_event t) t in
     case p_dial P (s_trace t1) of
       Some e \<Rightarrow>
         (case p_ctx P (s_trace t1) of
            Some c \<Rightarrow> (Some c, t1)
          | None \<Rightarrow> (Some (NewTransportError (''connection could not be established with host ''
                       @ Quote (p_unicode P) addr @ '': '' @ e)), t1))
     | None \<Rightarrow>
         if s_tls t then
           (let cleanup = cleanupContext (Some (conn_number (s_trace t1)));
                t1 = bindConnectionContext P t1;
                t2 = happen (EvHandshake (effectiveTLSConfig t)) t1 in
            case p_tls P (s_trace t2) of
              Some e \<Rightarrow>
                (let t3 = happen EvClose t2 in
                 case p_ctx P (s_trace t3) of
                   Some c \<Rightarrow> (Some c, cleanup t3)
                 | None \<Rightarrow> (Some (NewTransportError (''TLS handshake failed: '' @ e)), cleanup t3))
            | None \<Rightarrow> (None, cleanup ((happen EvTLS t2)\<lparr>s_conn := True, s_usingTLS := True\<rparr>)))
         else (None, t1\<lparr>s_conn := True, s_usingTLS := False\<rparr>))"

definition startTLS :: "peer \<Rightarrow> smtp \<Rightarrow> goerr option \<times> smtp" where
  "startTLS P t =
    (case bindCurrentConnectionContext P t of
       (c, t) \<Rightarrow>
         (let t' = happen (EvHandshake (effectiveTLSConfig t)) t in
          case p_tls P (s_trace t') of
            Some e \<Rightarrow>
              (case p_ctx P (s_trace t') of
                 Some err \<Rightarrow> (Some err, cleanupContext c t')
               | None \<Rightarrow> (Some (NewTransportError (''unable to connect with STARTTLS: '' @ e)), cleanupContext c t'))
          | None \<Rightarrow> (None, cleanupContext c ((happen EvTLS t')\<lparr>s_usingTLS := True\<rparr>))))"

definition plain_cred :: "smtp \<Rightarrow> bytes" where
  "plain_cred t = EncodeToString (s_username t @ [CHR 0x00] @ s_username t @ [CHR 0x00] @ s_password t)"

text \<open>\<^verbatim>\<open>Authenticate\<close> of the three authenticators.\<close>

fun Authenticate :: "peer \<Rightarrow> authenticator \<Rightarrow> smtp \<Rightarrow> goerr option \<times> smtp" where
  "Authenticate P PlainAuthenticator t =
    (case executeCommandRedacted P (''AUTH PLAIN '' @ plain_cred t @ CRLF) [235] t of
       (Inl e, t) \<Rightarrow> (Some e, t) | (Inr _, t) \<Rightarrow> (None, t))"
| "Authenticate P LoginAuthenticator t =
    (case executeCommand P (''AUTH LOGIN'' @ CRLF) [334] t of
       (Inl e, t) \<Rightarrow> (Some e, t)
     | (Inr _, t) \<Rightarrow>
         (case executeCommandRedacted P (EncodeToString (s_username t) @ CRLF) [334] t of
            (Inl e, t) \<Rightarrow> (Some e, t)
          | (Inr _, t) \<Rightarrow>
              (case executeCommandRedacted P (EncodeToString (s_password t) @ CRLF) [235] t of
                 (Inl e, t) \<Rightarrow> (Some e, t) | (Inr _, t) \<Rightarrow> (None, t))))"
| "Authenticate P CramMD5Authenticator t =
    (if s_password t = [] then
       (Some (Errorf ''%w: a non-empty secret is required'' [OErr (Sentinel ErrInvalidArgument)]), t)
     else
       (case executeCommand P (''AUTH CRAM-MD5'' @ CRLF) [334] t of
          (Inl e, t) \<Rightarrow> (Some e, t)
        | (Inr resp, t) \<Rightarrow>
            (let chal = TrimSpace resp; chal = (if 4 \<le> length chal then TrimSpace (drop 4 chal) else chal) in
             case DecodeString chal of
               None \<Rightarrow> (Some (NewTransportError (''invalid CRAM-MD5 challenge: '' @ p_base64_error P chal)), t)
             | Some challenge \<Rightarrow>
                 (let digest = concat (map (\<lambda>c. hex_digits 2 (byte c)) (p_hmac_md5 P (s_password t) challenge));
                      msg = EncodeToString (s_username t @ '' '' @ digest)
                  in case executeCommandRedacted P (msg @ CRLF) [235] t of
                       (Inl e, t) \<Rightarrow> (Some e, t) | (Inr _, t) \<Rightarrow> (None, t)))))"

text \<open>
  The loop of \<^verbatim>\<open>handleAuth\<close>: the code of the last failure, the names tried and their error
  texts. The source keeps the texts in a map and prints them in its iteration order; here
  it is the order of the attempts.
\<close>

fun auth_loop ::
  "peer \<Rightarrow> bytes list \<Rightarrow> authenticator list \<Rightarrow> int \<Rightarrow> bytes list \<Rightarrow> (bytes \<times> bytes) list \<Rightarrow> smtp
    \<Rightarrow> (int \<times> bytes list \<times> (bytes \<times> bytes) list) option \<times> smtp" where
  "auth_loop P advertised [] lastCode names errs t = (Some (lastCode, names, errs), t)"
| "auth_loop P advertised (a # as) lastCode names errs t =
    (if ToUpper (p_unicode P) (Keyword a) \<notin> set advertised then auth_loop P advertised as lastCode names errs t
     else
       (case Authenticate P a t of
          (Some err, t) \<Rightarrow>
            (case executeCommand P (''RSET'' @ CRLF) [250] t of
               (_, t) \<Rightarrow> auth_loop P advertised as (smtp_code err) (names @ [Keyword a])
                           (filter (\<lambda>(k, v). k \<noteq> Keyword a) errs @ [(Keyword a, Error_text (p_unicode P) err)]) t)
        | (None, t) \<Rightarrow> (None, t)))"

definition auth_error :: "unicode \<Rightarrow> bytes \<Rightarrow> bytes list \<Rightarrow> int \<times> bytes list \<times> (bytes \<times> bytes) list \<Rightarrow> goerr" where
  "auth_error U username modes r =
    (case r of (lastCode, names, errs) \<Rightarrow>
       if names = [] then
         te_set_Code (NewTransportError (''Failed to find an authenticator supported by the SMTP server, which currently supports: ''
             @ Quote U (Join modes '', '') @ ''.''))
           (if lastCode = 0 then 504 else lastCode)
       else
         te_set_Code (NewTransportError (''Failed to authenticate on SMTP server with username '' @ Quote U username
             @ '' using the following authenticators: '' @ Quote U (Join names '', '') @ ''.''
             @ concat (map (\<lambda>(n, e). '' Authenticator '' @ Quote U n @ '' returned '' @ Quote U e @ ''.'') errs)))
           (if lastCode = 0 then 535 else lastCode))"

definition handleAuth :: "peer \<Rightarrow> bytes list \<Rightarrow> smtp \<Rightarrow> goerr option \<times> smtp" where
  "handleAuth P modes t =
    (if s_username t = [] then (None, t)
     else case auth_loop P (map (ToUpper (p_unicode P)) modes) (s_authenticators t) 0 [] [] t of
       (None, t') \<Rightarrow> (None, t')
     | (Some r, t') \<Rightarrow> (Some (auth_error (p_unicode P) (s_username t) modes r), t'))"

definition ehlo :: "peer \<Rightarrow> smtp \<Rightarrow> (goerr + bytes) \<times> smtp" where
  "ehlo P t = executeCommand P (''EHLO '' @ s_localDomain t @ CRLF) [250] t"

text \<open>The last steps of \<^verbatim>\<open>helo\<close>, once the capabilities are known.\<close>

definition helo_policy :: "peer \<Rightarrow> bool \<Rightarrow> smtp \<Rightarrow> goerr option \<times> smtp" where
  "helo_policy P tlsStarted t =
    (if \<not> tlsStarted \<and> s_requireTLS t then
       (Some (NewTransportError ''TLS required but neither TLS nor STARTTLS are in use.''), t)
     else case map_of (s_capabilities t) ''AUTH'' of
       None \<Rightarrow> (None, t)
     | Some modes \<Rightarrow>
         if s_username t \<noteq> [] \<and> \<not> tlsStarted \<and> \<not> s_allowPlaintextAuth t then
           (Some (NewTransportError (''refusing to send AUTH credentials over an unencrypted connection (no TLS/STARTTLS); ''
                    @ ''enable TLS or call SetAllowPlaintextAuth(true) to override'')), t)
         else
           (case handleAuth P modes t of
              (Some err, t) \<Rightarrow> (Some (contextErr P t err), t)
            | (None, t) \<Rightarrow> (None, t)))"

definition helo :: "peer \<Rightarrow> smtp \<Rightarrow> goerr option \<times> smtp" where
  "helo P t =
    (case ehlo P t of
       (Inl err, t) \<Rightarrow>
         (case executeCommand P (''HELO '' @ s_localDomain t @ CRLF) [250] t of
            (Inl herr, t) \<Rightarrow> (Some (contextErr P t (if smtp_code herr = 0 then err else herr)), t)
          | (Inr _, t) \<Rightarrow> (None, t\<lparr>s_capabilities := []\<rparr>))
     | (Inr resp, t) \<Rightarrow>
         (let t = t\<lparr>s_capabilities := parseCapabilities (p_unicode P) resp\<rparr> in
          if s_autoTLS t \<and> \<not> s_usingTLS t \<and> map_of (s_capabilities t) ''STARTTLS'' \<noteq> None then
            (case executeCommand P (''STARTTLS'' @ CRLF) [220] t of
               (Inl serr, t) \<Rightarrow> (Some (contextErr P t serr), t)
             | (Inr _, t) \<Rightarrow>
                 (case startTLS P t of
                    (Some serr, t) \<Rightarrow> (Some serr, t)
                  | (None, t) \<Rightarrow>
                      (case ehlo P t of
                         (Inl err, t) \<Rightarrow> (Some (contextErr P t err), t)
                       | (Inr resp, t) \<Rightarrow>
                           helo_policy P True (t\<lparr>s_capabilities := parseCapabilities (p_unicode P) resp\<rparr>))))
          else helo_policy P (s_usingTLS t) t))"

text \<open>\<^verbatim>\<open>start\<close> once it is connected: the greeting and \<^verbatim>\<open>helo\<close>.\<close>

definition greet :: "peer \<Rightarrow> smtp \<Rightarrow> goerr option \<times> smtp" where
  "greet P t =
    (case readResponse P [] t of
       (Inl rerr, t) \<Rightarrow> (let t = terminate t in (Some (contextErr P t rerr), t))
     | (Inr resp, t) \<Rightarrow>
         (case assertResponse (p_unicode P) resp of
            Inl err \<Rightarrow> (let t = terminate t in (Some (contextErr P t err), t))
          | Inr _ \<Rightarrow>
              (case helo P t of
                 (Some err, t) \<Rightarrow> (let t = terminate t in (Some (contextErr P t err), t))
               | (None, t) \<Rightarrow> (None, t\<lparr>s_started := True, s_lastMessageTime := zero_time\<rparr>))))"

definition start :: "peer \<Rightarrow> smtp \<Rightarrow> goerr option \<times> smtp" where
  "start P t =
    (if s_started t then (None, t)
     else case connect P t of
       (Some err, t) \<Rightarrow> (Some err, t)
     | (None, t) \<Rightarrow>
         (case bindCurrentConnectionContext P t of
            (c, t) \<Rightarrow> (case greet P t of (r, t) \<Rightarrow> (r, cleanupContext c t))))"

section \<open>Mail transaction\<close>

definition mailFrom :: "peer \<Rightarrow> bytes \<Rightarrow> bool \<Rightarrow> smtp \<Rightarrow> goerr option \<times> smtp" where
  "mailFrom P address smtputf8 t =
    (case encodeSMTPAddress (p_lib P) address of
       Inl err \<Rightarrow> (Some err, t)
     | Inr encoded \<Rightarrow>
         if smtputf8 \<and> map_of (s_capabilities t) ''SMTPUTF8'' = None then
           (Some (Errorf ''%w: invalid addresses: non-ASCII characters not supported in local-part of email''
              [OErr (Sentinel ErrInvalidArgument)]), t)
         else
           (case executeCommand P (''MAIL FROM:<'' @ encoded @ ''>'' @ (if smtputf8 then '' SMTPUTF8'' else []) @ CRLF) [250] t of
              (Inl err, t) \<Rightarrow> (Some err, t) | (Inr _, t) \<Rightarrow> (None, t)))"

definition rcptTo :: "peer \<Rightarrow> bytes \<Rightarrow> smtp \<Rightarrow> goerr option \<times> smtp" where
  "rcptTo P address t =
    (case encodeSMTPAddress (p_lib P) address of
       Inl err \<Rightarrow> (Some err, t)
     | Inr encoded \<Rightarrow>
         (case executeCommand P (''RCPT TO:<'' @ encoded @ ''>'' @ CRLF) [250, 251, 252] t of
            (Inl err, t) \<Rightarrow> (Some err, t) | (Inr _, t) \<Rightarrow> (None, t)))"

fun rcpt_loop :: "peer \<Rightarrow> address list \<Rightarrow> smtp \<Rightarrow> goerr option \<times> smtp" where
  "rcpt_loop P [] t = (None, t)"
| "rcpt_loop P (r # rs) t =
    (case rcptTo P (Email r) t of (Some err, t) \<Rightarrow> (Some err, t) | (None, t) \<Rightarrow> rcpt_loop P rs t)"

text \<open>\<^verbatim>\<open>writeData\<close>: the body is written once, without a reply.\<close>

definition writeData :: "peer \<Rightarrow> bytes \<Rightarrow> smtp \<Rightarrow> (goerr + bytes) \<times> smtp" where
  "writeData P data t =
    (let stuffed = data_text data; t' = happen (EvWrite False stuffed) t in
     case p_write P (s_trace t) stuffed of
       Some e \<Rightarrow> (Inl (NewTransportError (''unable to write message data: '' @ e)), terminate t')
     | None \<Rightarrow> (Inr (data_terminator stuffed), t'))"

definition stop_conn :: "peer \<Rightarrow> smtp \<Rightarrow> smtp" where
  "stop_conn P t =
    (if \<not> s_started t then t else terminate (snd (executeCommand P (''QUIT'' @ CRLF) [221] t)))"

definition ping :: "peer \<Rightarrow> smtp \<Rightarrow> smtp" where
  "ping P t =
    (if \<not> s_started t then t
     else case executeCommand P (''NOOP'' @ CRLF) [250] t of (Inl _, t) \<Rightarrow> stop_conn P t | (Inr _, t) \<Rightarrow> t)"

text \<open>The common way a failed step of \<^verbatim>\<open>doSend\<close> returns.\<close>

definition fail_send :: "peer \<Rightarrow> goerr \<Rightarrow> smtp \<Rightarrow> goerr \<times> smtp" where
  "fail_send P err t =
    (case appendErrDebug err t of
       (err, t) \<Rightarrow> (let t = t\<lparr>s_lastMessageTime := zero_time\<rparr> in (contextErr P t err, t)))"

definition transaction :: "peer \<Rightarrow> envelope \<Rightarrow> bytes \<Rightarrow> smtp \<Rightarrow> (goerr + bytes) \<times> smtp" where
  "transaction P env raw t =
    (case mailFrom P (Email (Sender env)) (AnyAddressHasUnicodeLocalPart env) t of
       (Some err, t) \<Rightarrow> (Inl err, t)
     | (None, t) \<Rightarrow>
         (case rcpt_loop P (Envelope_Recipients env) t of
            (Some err, t) \<Rightarrow> (Inl err, t)
          | (None, t) \<Rightarrow>
              (case executeCommand P (''DATA'' @ CRLF) [354] t of
                 (Inl err, t) \<Rightarrow> (Inl err, t)
               | (Inr _, t) \<Rightarrow>
                   (case writeData P raw t of
                      (Inl err, t) \<Rightarrow> (Inl err, t)
                    | (Inr terminator, t) \<Rightarrow> executeCommand P terminator [250] t))))"

text \<open>\<^verbatim>\<open>doSend\<close> up to the session: the ping of an idle connection, then \<^verbatim>\<open>start\<close>.\<close>

definition ping_idle :: "peer \<Rightarrow> smtp \<Rightarrow> smtp" where
  "ping_idle P t =
    (if \<not> IsZero (s_lastMessageTime t)
        \<and> wrap64 (s_pingThreshold t * 1000000000) < time_Sub (t_nanos (p_now P (s_trace t))) (t_nanos (s_lastMessageTime t))
     then ping P t else t)"

text \<open>\<^verbatim>\<open>doSend\<close> once the session is up.\<close>

definition mail :: "peer \<Rightarrow> sent \<Rightarrow> smtp \<Rightarrow> (goerr option \<times> sent \<times> smtp) option" where
  "mail P sm t =
    (case sm_envelope sm of
       None \<Rightarrow> None
     | Some env \<Rightarrow>
         (case transaction P env (sm_raw sm) t of
            (Inl err, t) \<Rightarrow> (case fail_send P err t of (err, t) \<Rightarrow> Some (Some err, sm, t))
          | (Inr resp, t) \<Rightarrow>
              (case drainDebug t of
                 (transcript, t) \<Rightarrow>
                   (let sm = AppendDebug sm transcript;
                        t = t\<lparr>s_lastMessageTime := p_now P (s_trace t)\<rparr> in
                    case parseMessageID (p_unicode P) resp of
                      None \<Rightarrow> None
                    | Some mid \<Rightarrow> Some (None, (if mid \<noteq> [] then SetMessageID sm mid else sm), t)))))"

definition doSend :: "peer \<Rightarrow> sent \<Rightarrow> smtp \<Rightarrow> (goerr option \<times> sent \<times> smtp) option" where
  "doSend P sm t =
    (let t = t\<lparr>s_debug := []\<rparr>;
         t = t\<lparr>s_ctxHasDeadline := p_ctxDeadline P (s_trace t) \<noteq> None\<rparr> in
     case bindCurrentConnectionContext P t of
       (c, t) \<Rightarrow>
         (case start P (ping_idle P t) of
            (Some err, t) \<Rightarrow> Some (Some err, sm, cleanupContext c t)
          | (None, t) \<Rightarrow>
              (case bindCurrentConnectionContext P (cleanupContext c t) of
                 (c, t) \<Rightarrow> map_option (\<lambda>(r, sm, t). (r, sm, cleanupContext c t)) (mail P sm t))))"

section \<open>Send with retries\<close>

definition smtp_sys :: "peer \<Rightarrow> smtp sys" where
  "smtp_sys P =
    \<lparr>sys_lib = p_lib P, ctx_Err = \<lambda>t. p_ctx P (s_trace t), Now = \<lambda>t. p_now P (s_trace t),
     sleep_or_done = \<lambda>d t. (p_sleep P (s_trace t) d, happen (EvSleep d) t),
     rand_stream = \<lambda>t. p_rand P (s_trace t), rand_used = \<lambda>n t. happen (EvRand n) t,
     second_div = p_second_div P\<rparr>"

definition isTransientSMTPError :: "goerr \<Rightarrow> bool" where
  "isTransientSMTPError err =
    (case errors_As err of Some te \<Rightarrow> 400 \<le> te_Code te \<and> te_Code te < 500 | None \<Rightarrow> False)"

definition waitForRetry :: "peer \<Rightarrow> duration \<Rightarrow> smtp \<Rightarrow> goerr option \<times> smtp" where
  "waitForRetry P delay t =
    (case p_ctx P (s_trace t) of
       Some err \<Rightarrow> (Some err, t)
     | None \<Rightarrow>
         if delay \<le> 0 then (None, t)
         else (case p_sleep P (s_trace t) delay of
           Some err \<Rightarrow> (Some err, happen (EvSleep delay) t)
         | None \<Rightarrow> (let t = happen (EvSleep delay) t in (p_ctx P (s_trace t), t))))"

definition checkRestartThreshold :: "peer \<Rightarrow> smtp \<Rightarrow> smtp" where
  "checkRestartThreshold P t =
    (if \<not> s_started t \<or> s_restartThreshold t = 0 then t
     else
       (let t = t\<lparr>s_restartCounter := s_restartCounter t + 1\<rparr> in
        if s_restartCounter t < s_restartThreshold t then t
        else
          (let t = (stop_conn P t)\<lparr>s_restartCounter := 0\<rparr> in
           if 0 < s_restartThresholdSleep t
           then happen (EvSleep (wrap64 (s_restartThresholdSleep t * 1000000000))) t else t)))"

text \<open>What \<^verbatim>\<open>Send\<close> does to the connection after a failed attempt.\<close>

definition after_failure :: "peer \<Rightarrow> goerr \<Rightarrow> bool \<Rightarrow> smtp \<Rightarrow> smtp" where
  "after_failure P err retry t =
    (if errors_Is err ErrInvalidArgument then t
     else if retry then terminate t
     else if s_started t then
       (case executeCommand P (''RSET'' @ CRLF) [250] t of (Inl _, t) \<Rightarrow> terminate t | (Inr _, t) \<Rightarrow> t)
     else t)"

text \<open>The loop of \<^verbatim>\<open>Send\<close>; \<open>left\<close> is the number of retries that are left.\<close>

fun send_loop ::
  "peer \<Rightarrow> nat \<Rightarrow> raw_message \<Rightarrow> envelope option \<Rightarrow> smtp base_transport \<Rightarrow> smtp
    \<Rightarrow> (outcome \<times> smtp base_transport \<times> smtp) option" where
  "send_loop P left msg envelope b t =
    (case base_Send (smtp_sys P) b msg envelope t of
       None \<Rightarrow> None
     | Some (Inr sm, b, t) \<Rightarrow> Some (Inr sm, b, checkRestartThreshold P t)
     | Some (Inl err, b, t) \<Rightarrow>
         (let retry = (isTransientSMTPError err \<and> 0 < left); t = after_failure P err retry t in
          if \<not> retry then Some (Inl err, b, t)
          else case waitForRetry P (s_retryDelay t) t of
            (Some err, t) \<Rightarrow> Some (Inl err, b, t)
          | (None, t) \<Rightarrow> (case left of 0 \<Rightarrow> None | Suc k \<Rightarrow> send_loop P k msg envelope b t)))"

declare send_loop.simps [simp del]

definition smtp_Send ::
  "peer \<Rightarrow> raw_message \<Rightarrow> envelope option \<Rightarrow> smtp base_transport \<Rightarrow> smtp
    \<Rightarrow> (outcome \<times> smtp base_transport \<times> smtp) option" where
  "smtp_Send P msg envelope b t = send_loop P (nat (s_retryAttempts t)) msg envelope b t"

definition smtp_base :: "peer \<Rightarrow> smtp \<Rightarrow> smtp base_transport" where
  "smtp_base P t = \<lparr>bt_Name = computeName t, bt_DoSend = Some (doSend P), bt_maxPerSecond = 0, bt_lastSent = zero_time\<rparr>"

definition smtp_Close :: "peer \<Rightarrow> smtp \<Rightarrow> goerr option \<times> smtp" where
  "smtp_Close P t = (None, stop_conn P t)"

lemmas smtp_eval [go_eval] =
  NewTransport_def SetUsername_def SetPassword_def SetAutoTLS_def SetRequireTLS_def SetAllowPlaintextAuth_def
  SetRetry_def SetSourceIP_def SetTLSConfig_def SetAuthenticators_def computeName_def VersionTLS12_def happen_def terminate_def conn_number_def now_plus_def bindConnectionContext_def cleanupContext_def
  bindCurrentConnectionContext_def refreshIOTimeout_def SetTimeout_def recordDebug_def maxResponseSize_def
  read_error_text_def readResponse.simps code_error_def assertResponse2_def execute_def contextErr_def drainDebug_def
  appendErrDebug_def JoinHostPort_def effectiveTLSConfig_def dial_event_def connect_def startTLS_def plain_cred_def auth_error_def handleAuth_def ehlo_def helo_policy_def
  helo_def greet_def start_def mailFrom_def rcptTo_def writeData_def stop_conn_def ping_def fail_send_def transaction_def
  ping_idle_def mail_def doSend_def smtp_sys_def isTransientSMTPError_def waitForRetry_def checkRestartThreshold_def after_failure_def
  send_loop.simps smtp_Send_def smtp_base_def smtp_Close_def

end
