(* ===== verification/Smtp_Props.thy ===== *)
theory Smtp_Props
  imports Smtp
begin

text \<open>
  Facts about the SMTP conversation, for every peer: credentials only travel over TLS,
  responses are bounded and complete, a successful transaction issued exactly the commands of
  the envelope, and how often a send is attempted.
\<close>

section \<open>Traces\<close>

text \<open>Whether the connection of a trace is protected: the last of its dial, TLS and close events.\<close>

definition tls_after :: "bool \<Rightarrow> event \<Rightarrow> bool" where
  "tls_after b ev = (case ev of EvDial addr src \<Rightarrow> False | EvTLS \<Rightarrow> True | EvClose \<Rightarrow> False | _ \<Rightarrow> b)"

definition tls_up :: "event list \<Rightarrow> bool" where
  "tls_up tr = foldl tls_after False tr"

lemma tls_after_dial [simp]: "tls_after b (dial_event t) = False" "dial_event t \<noteq> EvWrite s c"
  by (simp_all add: tls_after_def dial_event_def)

lemma tls_up_snoc [simp]: "tls_up (tr @ [ev]) = tls_after (tls_up tr) ev"
  by (simp add: tls_up_def)

text \<open>Every write of credentials happens on a protected connection.\<close>

definition secrets_safe :: "event list \<Rightarrow> bool" where
  "secrets_safe tr \<longleftrightarrow> (\<forall>a c b. tr = a @ [EvWrite True c] @ b \<longrightarrow> tls_up a)"

lemma secrets_safe_Nil [simp]: "secrets_safe []"
  by (simp add: secrets_safe_def)

lemma secrets_safe_snoc:
  "secrets_safe (tr @ [ev]) \<longleftrightarrow> secrets_safe tr \<and> (\<forall>c. ev = EvWrite True c \<longrightarrow> tls_up tr)"
proof
  assume L: "secrets_safe (tr @ [ev])"
  show "secrets_safe tr \<and> (\<forall>c. ev = EvWrite True c \<longrightarrow> tls_up tr)"
  proof (intro conjI allI impI)
    show "secrets_safe tr" using L unfolding secrets_safe_def by (metis append.assoc)
    show "tls_up tr" if "ev = EvWrite True c" for c
      using L that unfolding secrets_safe_def by (metis append_Nil2)
  qed
next
  assume R: "secrets_safe tr \<and> (\<forall>c. ev = EvWrite True c \<longrightarrow> tls_up tr)"
  show "secrets_safe (tr @ [ev])"
    unfolding secrets_safe_def
  proof (intro allI impI)
    fix a c b
    assume eq: "tr @ [ev] = a @ [EvWrite True c] @ b"
    show "tls_up a"
    proof (cases b rule: rev_cases)
      case Nil
      with eq R show ?thesis by simp
    next
      case (snoc b' e)
      with eq have "tr = a @ [EvWrite True c] @ b'" by simp
      with R show ?thesis unfolding secrets_safe_def by blast
    qed
  qed
qed

section \<open>The invariant and the frame of a step\<close>

definition smtp_inv :: "smtp \<Rightarrow> bool" where
  "smtp_inv t \<longleftrightarrow> secrets_safe (s_trace t) \<and> (s_usingTLS t \<longrightarrow> s_conn t \<and> tls_up (s_trace t))
     \<and> (s_started t \<longrightarrow> s_conn t)"

definition cfg :: "smtp \<Rightarrow> bytes \<times> bytes \<times> bool \<times> bool \<times> bool \<times> authenticator list \<times> int" where
  "cfg t = (s_username t, s_password t, s_allowPlaintextAuth t, s_requireTLS t, s_autoTLS t, s_authenticators t,
     s_retryAttempts t)"

text \<open>
  A step that keeps the configuration, opens no connection, changes the protection of none,
  and keeps the invariant; a connection is up exactly when the session is started, if it
  was so before.
\<close>

definition level :: "smtp \<Rightarrow> bool" where
  "level t \<longleftrightarrow> s_conn t = s_started t"

definition steps :: "smtp \<Rightarrow> smtp \<Rightarrow> bool" where
  "steps t t' \<longleftrightarrow> cfg t' = cfg t \<and> (s_conn t' \<longrightarrow> s_conn t \<and> s_usingTLS t' = s_usingTLS t)
     \<and> (smtp_inv t \<longrightarrow> smtp_inv t') \<and> (level t \<longrightarrow> level t')"

lemma steps_refl [intro, simp]: "steps t t"
  by (simp add: steps_def)

lemma steps_trans [trans]: "steps t u \<Longrightarrow> steps u v \<Longrightarrow> steps t v"
  by (auto simp: steps_def)

lemma steps_debug [intro, simp]: "steps t (t\<lparr>s_debug := d\<rparr>)"
  by (simp add: steps_def cfg_def smtp_inv_def level_def)

lemma steps_caps [intro, simp]: "steps t (t\<lparr>s_capabilities := d\<rparr>)"
  by (simp add: steps_def cfg_def smtp_inv_def level_def)

lemma steps_time [intro, simp]: "steps t (t\<lparr>s_lastMessageTime := d\<rparr>)"
  by (simp add: steps_def cfg_def smtp_inv_def level_def)

lemma steps_counter [intro, simp]: "steps t (t\<lparr>s_restartCounter := d\<rparr>)"
  by (simp add: steps_def cfg_def smtp_inv_def level_def)

lemma steps_ctxHasDeadline [intro, simp]: "steps t (t\<lparr>s_ctxHasDeadline := d\<rparr>)"
  by (simp add: steps_def cfg_def smtp_inv_def level_def)

lemma steps_recordDebug [intro, simp]: "steps t (recordDebug P dir l t)"
  unfolding recordDebug_def by (rule steps_debug)

lemma steps_happen:
  assumes "tls_after True ev" "\<not> tls_after False ev" "\<And>c. ev = EvWrite True c \<Longrightarrow> s_conn t \<Longrightarrow> s_usingTLS t"
    and "\<And>c. ev = EvWrite True c \<Longrightarrow> s_conn t"
  shows "steps t (happen ev t)"
proof -
  have tls: "tls_after b ev = b" for b using assms(1,2) by (cases b) auto
  show ?thesis using assms(3,4) by (auto simp: steps_def cfg_def smtp_inv_def happen_def secrets_safe_snoc tls level_def)
qed

lemma steps_happen_simple [intro, simp]:
  "steps t (happen EvRead t)" "steps t (happen (EvSleep d) t)" "steps t (happen (EvRand n) t)"
  "steps t (happen (EvWrite False c) t)" "steps t (happen (EvHandshake c1) t)"
  "steps t (happen (EvDeadline n d1) t)" "steps t (happen (EvWatch n) t)" "steps t (happen (EvUnwatch n) t)"
  by (auto intro!: steps_happen simp: tls_after_def)

text \<open>Deadlines and hooks: they only add events that are not on the wire.\<close>

definition timer :: "event \<Rightarrow> bool" where
  "timer ev = (case ev of EvDeadline n d \<Rightarrow> True | EvWatch n \<Rightarrow> True | EvUnwatch n \<Rightarrow> True | _ \<Rightarrow> False)"

definition quiet :: "smtp \<Rightarrow> smtp \<Rightarrow> bool" where
  "quiet t t' \<longleftrightarrow> (\<exists>evs. t' = t\<lparr>s_trace := s_trace t @ evs\<rparr> \<and> (\<forall>ev\<in>set evs. timer ev))"

lemma quiet_refl [simp, intro]: "quiet t t"
  by (auto simp: quiet_def intro: exI [of _ "[]"])

lemma quiet_happen: "quiet t u \<Longrightarrow> timer ev \<Longrightarrow> quiet t (happen ev u)"
  unfolding quiet_def happen_def by (elim exE conjE, rule_tac x = "evs @ [ev]" in exI) auto

lemma quiet_bindConnectionContext [simp]: "quiet t (bindConnectionContext P t)"
  unfolding bindConnectionContext_def Let_def
  by (auto intro!: quiet_happen simp: timer_def split: option.splits)

lemma quiet_cleanupContext [simp]: "quiet t (cleanupContext c t)"
  unfolding cleanupContext_def by (auto intro!: quiet_happen simp: timer_def split: option.splits)

lemma quiet_bind: "bindCurrentConnectionContext P t = (c, t') \<Longrightarrow> quiet t t'"
  by (auto simp: bindCurrentConnectionContext_def split: if_splits)

lemma quiet_refreshIOTimeout [simp]: "quiet t (refreshIOTimeout P t)"
  unfolding refreshIOTimeout_def by (auto intro!: quiet_happen simp: timer_def)

lemma quiet_fields:
  assumes "quiet t t'"
  shows "s_conn t' = s_conn t" "s_started t' = s_started t" "s_usingTLS t' = s_usingTLS t" "cfg t' = cfg t"
    "s_capabilities t' = s_capabilities t" "s_localDomain t' = s_localDomain t" "s_lastMessageTime t' = s_lastMessageTime t"
    "s_debug t' = s_debug t" "s_ioTimeout t' = s_ioTimeout t" "s_ctxHasDeadline t' = s_ctxHasDeadline t"
    "s_username t' = s_username t" "s_password t' = s_password t" "s_allowPlaintextAuth t' = s_allowPlaintextAuth t"
    "s_pingThreshold t' = s_pingThreshold t" "s_host t' = s_host t" "s_port t' = s_port t"
    "s_sourceIP t' = s_sourceIP t" "s_tlsConfig t' = s_tlsConfig t" "effectiveTLSConfig t' = effectiveTLSConfig t"
  using assms by (auto simp: quiet_def cfg_def effectiveTLSConfig_def split: option.split)

lemmas quiet_ops [simp] =
  quiet_fields [OF quiet_bindConnectionContext] quiet_fields [OF quiet_cleanupContext] quiet_fields [OF quiet_refreshIOTimeout]

lemma timer_neutral: "\<forall>ev\<in>set evs. timer ev \<Longrightarrow> tls_up (tr @ evs) = tls_up tr \<and> secrets_safe (tr @ evs) = secrets_safe tr"
proof (induction evs rule: rev_induct)
  case (snoc ev evs)
  then have "tls_up (tr @ evs) = tls_up tr \<and> secrets_safe (tr @ evs) = secrets_safe tr" "timer ev" by simp_all
  then have "tls_up ((tr @ evs) @ [ev]) = tls_up tr \<and> secrets_safe ((tr @ evs) @ [ev]) = secrets_safe tr"
    by (cases ev) (simp_all only: tls_up_snoc secrets_safe_snoc, simp_all add: tls_after_def timer_def)
  then show ?case by simp
qed simp

lemma quiet_inv: "quiet t t' \<Longrightarrow> smtp_inv t' = smtp_inv t \<and> tls_up (s_trace t') = tls_up (s_trace t)
    \<and> secrets_safe (s_trace t') = secrets_safe (s_trace t)"
  by (auto simp: quiet_def smtp_inv_def timer_neutral)

lemma quiet_steps: "quiet t t' \<Longrightarrow> steps t t'"
  using quiet_fields [of t t'] quiet_inv [of t t'] by (simp add: steps_def level_def)

lemma steps_terminate [intro, simp]: "steps t (terminate t)"
  by (auto simp: steps_def cfg_def smtp_inv_def terminate_def happen_def secrets_safe_snoc level_def)

lemma terminate_conn [simp]: "\<not> s_conn (terminate t)" "\<not> s_started (terminate t)" "\<not> s_usingTLS (terminate t)"
  by (simp_all add: terminate_def)

text \<open>Reading a response only records reads and the transcript.\<close>

lemma readResponse_frame:
  "readResponse P acc t = (r, t') \<Longrightarrow> \<exists>d k. t' = t\<lparr>s_debug := d, s_trace := s_trace t @ replicate k EvRead\<rparr>"
proof (induction P acc t arbitrary: r t' rule: readResponse.induct)
  case (1 P acc t)
  obtain line err where rd: "p_read P (s_trace t) = (line, err)" by (cases "p_read P (s_trace t)")
  let ?t = "if line \<noteq> [] then recordDebug P ''<'' line (happen EvRead t) else happen EvRead t"
  define d where "d = s_debug ?t"
  have d: "?t = t\<lparr>s_debug := d, s_trace := s_trace t @ [EvRead]\<rparr>"
    unfolding d_def by (rule smtp.equality) (simp_all add: recordDebug_def happen_def)
  show ?case
  proof (cases "\<not> maxResponseSize < length (acc @ line) \<and> err = None \<and> \<not> (length line < 4 \<or> line ! 3 \<noteq> CHR ''-'')")
    case True
    then have rec: "readResponse P (acc @ line) ?t = (r, t')"
      using "1.prems" rd by (subst (asm) readResponse.simps) (auto simp: Let_def)
    have "\<exists>d k. t' = ?t\<lparr>s_debug := d, s_trace := s_trace ?t @ replicate k EvRead\<rparr>"
      using "1.IH" [OF rd [symmetric] refl refl refl _ _ _ rec] True by blast
    then obtain d' k where "t' = ?t\<lparr>s_debug := d', s_trace := s_trace ?t @ replicate k EvRead\<rparr>" by blast
    then show ?thesis unfolding d by (intro exI [of _ d'] exI [of _ "Suc k"]) simp
  next
    case False
    with "1.prems" rd have "t' = ?t"
      by (subst (asm) readResponse.simps) (auto simp: Let_def split: if_splits option.splits)
    with d show ?thesis by (intro exI [of _ d] exI [of _ 1]) simp
  qed
qed

lemma tls_up_reads: "tls_up (tr @ replicate k EvRead) = tls_up tr \<and> secrets_safe (tr @ replicate k EvRead) = secrets_safe tr"
proof (induction k)
  case (Suc k)
  have "tr @ replicate (Suc k) EvRead = (tr @ replicate k EvRead) @ [EvRead]"
    by (simp add: replicate_append_same)
  with Suc show ?case by (simp only: tls_up_snoc secrets_safe_snoc) (simp add: tls_after_def)
qed simp

lemma steps_readResponse: "readResponse P acc t = (r, t') \<Longrightarrow> steps t t'"
  using readResponse_frame [of P acc t r t']
  by (auto simp: steps_def cfg_def smtp_inv_def level_def tls_up_reads)

lemma steps_execute:
  assumes "execute P c codes redact t = (r, t')" "redact \<Longrightarrow> s_conn t \<Longrightarrow> s_usingTLS t"
  shows "steps t t'"
proof (cases "s_conn t")
  case True
  let ?t = "recordDebug P ''>'' (if redact then redactCommand (p_unicode P) c else c) (refreshIOTimeout P t)"
  let ?w = "happen (EvWrite redact c) ?t"
  have tls: "s_conn ?t = s_conn t" "s_usingTLS ?t = s_usingTLS t" by (simp_all add: recordDebug_def)
  have "steps ?t ?w" using True tls assms(2) by (intro steps_happen) (auto simp: tls_after_def)
  then have w: "steps t ?w" using steps_trans [OF quiet_steps [OF quiet_refreshIOTimeout] steps_trans [OF steps_recordDebug]] by blast
  show ?thesis
  proof (cases "p_write P (s_trace ?t) c")
    case None
    obtain q u where q: "readResponse P [] ?w = (q, u)" by (cases "readResponse P [] ?w")
    have "t' = u \<or> t' = terminate u"
      using assms(1) True None q by (auto simp: execute_def Let_def split: sum.splits)
    with w steps_readResponse [OF q] show ?thesis by (auto intro: steps_trans)
  next
    case (Some e)
    then have "t' = terminate ?w" using assms(1) True by (auto simp: execute_def Let_def)
    with w show ?thesis by (auto intro: steps_trans)
  qed
qed (use assms in \<open>simp add: execute_def\<close>)

lemma steps_execute_plain: "execute P c codes False t = (r, t') \<Longrightarrow> steps t t'"
  by (erule steps_execute) simp

section \<open>Credentials\<close>

text \<open>Where a step is entered on a protected connection or on none, it may send credentials.\<close>

definition guarded :: "smtp \<Rightarrow> bool" where
  "guarded t \<longleftrightarrow> (s_conn t \<longrightarrow> s_usingTLS t)"

lemma steps_guarded: "steps t t' \<Longrightarrow> guarded t \<Longrightarrow> guarded t'"
  by (auto simp: steps_def guarded_def)

lemma steps_execute_guarded: "guarded t \<Longrightarrow> execute P c codes redact t = (r, t') \<Longrightarrow> steps t t'"
  by (erule steps_execute) (simp add: guarded_def)

lemma steps_Authenticate:
  assumes "guarded t" "Authenticate P a t = (r, t')"
  shows "steps t t'"
proof (cases a)
  case PlainAuthenticator
  with assms show ?thesis by (auto split: prod.splits sum.splits dest: steps_execute_guarded)
next
  case LoginAuthenticator
  obtain r1 t1 where 1: "execute P (''AUTH LOGIN'' @ CRLF) [334] False t = (r1, t1)" by fastforce
  obtain r2 t2 where 2: "execute P (EncodeToString (s_username t1) @ CRLF) [334] True t1 = (r2, t2)" by fastforce
  obtain r3 t3 where 3: "execute P (EncodeToString (s_password t2) @ CRLF) [235] True t2 = (r3, t3)" by fastforce
  have "steps t t1" "steps t1 t2" "steps t2 t3"
    using 1 2 3 assms(1) steps_execute_guarded steps_guarded by meson+
  moreover have "t' = t1 \<or> t' = t2 \<or> t' = t3"
    using assms(2) LoginAuthenticator 1 2 3 by (auto split: sum.splits)
  ultimately show ?thesis by (auto intro: steps_trans)
next
  case CramMD5Authenticator
  obtain r1 t1 where 1: "execute P (''AUTH CRAM-MD5'' @ CRLF) [334] False t = (r1, t1)" by fastforce
  have s1: "steps t t1" using 1 assms(1) steps_execute_guarded by blast
  have "t' = t \<or> t' = t1 \<or> (\<exists>c r. execute P (c @ CRLF) [235] True t1 = (r, t'))"
    using assms(2) CramMD5Authenticator 1
    by (auto simp: Let_def split: sum.splits option.splits if_splits prod.splits)
  then show ?thesis
    using s1 steps_guarded [OF s1 assms(1)] steps_execute_guarded by (auto intro: steps_trans)
qed

lemma steps_auth_loop:
  "auth_loop P adv as code names errs t = (r, t') \<Longrightarrow> guarded t \<Longrightarrow> steps t t'"
proof (induction P adv as code names errs t arbitrary: r t' rule: auth_loop.induct)
  case (2 P adv a as code names errs t)
  show ?case
  proof (cases "ToUpper (p_unicode P) (Keyword a) \<in> set adv")
    case True
    obtain e t1 where 1: "Authenticate P a t = (e, t1)" by fastforce
    have s1: "steps t t1" "guarded t1"
      using steps_Authenticate [OF 2(4) 1] steps_guarded 2(4) by auto
    show ?thesis
    proof (cases e)
      case None
      with 2(3) True 1 s1 show ?thesis by auto
    next
      case (Some err)
      obtain x t2 where 2: "execute P (''RSET'' @ CRLF) [250] False t1 = (x, t2)" by fastforce
      have s2: "steps t1 t2" "guarded t2" using steps_execute_plain [OF 2] steps_guarded s1(2) by auto
      have rec: "auth_loop P adv as (smtp_code err) (names @ [Keyword a])
          (filter (\<lambda>(k, v). k \<noteq> Keyword a) errs @ [(Keyword a, Error_text (p_unicode P) err)]) t2 = (r, t')"
        using "2.prems"(1) True 1 Some 2 by simp
      have "steps t2 t'"
        using "2.IH"(2) [OF _ 1 [symmetric] Some 2 [symmetric] rec s2(2)] True by simp
      with s1(1) s2(1) show ?thesis by (blast intro: steps_trans)
    qed
  next
    case False
    with 2 show ?thesis by auto
  qed
qed auto

section \<open>Session setup\<close>

definition smtp_ok :: "smtp \<Rightarrow> bool" where
  "smtp_ok t \<longleftrightarrow> smtp_inv t \<and> level t \<and> \<not> s_allowPlaintextAuth t"

lemma steps_ok: "steps t t' \<Longrightarrow> smtp_ok t \<Longrightarrow> smtp_ok t'"
  by (auto simp: steps_def smtp_ok_def cfg_def)

lemma readResponse_state:
  "readResponse P acc t = (r, t') \<Longrightarrow> s_conn t' = s_conn t \<and> s_usingTLS t' = s_usingTLS t \<and> s_started t' = s_started t"
  using readResponse_frame [of P acc t r t'] by auto

text \<open>The commands a trace has written.\<close>

definition writes :: "event list \<Rightarrow> bytes list" where
  "writes tr = concat (map (\<lambda>ev. case ev of EvWrite b c \<Rightarrow> [c] | _ \<Rightarrow> []) tr)"

lemma writes_snoc [simp]: "writes (tr @ [ev]) = writes tr @ (case ev of EvWrite b c \<Rightarrow> [c] | _ \<Rightarrow> [])"
  by (simp add: writes_def)

lemma quiet_writes: "quiet t t' \<Longrightarrow> writes (s_trace t') = writes (s_trace t)"
  unfolding quiet_def writes_def
  by (elim exE conjE) (auto simp: timer_def split: event.splits)

lemmas quiet_op_writes [simp] =
  quiet_writes [OF quiet_bindConnectionContext] quiet_writes [OF quiet_cleanupContext] quiet_writes [OF quiet_refreshIOTimeout]

lemma readResponse_writes: "readResponse P acc t = (r, t') \<Longrightarrow> writes (s_trace t') = writes (s_trace t)"
  using readResponse_frame [of P acc t r t'] by (auto simp: writes_def)

lemma execute_Inr:
  assumes "execute P c codes redact t = (Inr resp, t')"
  shows "s_conn t" "s_conn t'" "s_usingTLS t' = s_usingTLS t" "s_started t' = s_started t"
    and "writes (s_trace t') = writes (s_trace t) @ [c]" "parseCode resp \<in> set codes"
proof -
  let ?t = "recordDebug P ''>'' (if redact then redactCommand (p_unicode P) c else c) (refreshIOTimeout P t)"
  let ?w = "happen (EvWrite redact c) ?t"
  show conn: "s_conn t" using assms by (auto simp: execute_def split: if_splits)
  with assms have wr: "p_write P (s_trace ?t) c = None"
    by (auto simp: execute_def Let_def split: option.splits)
  obtain q u where q: "readResponse P [] ?w = (q, u)" by (cases "readResponse P [] ?w")
  from assms conn wr q have u: "t' = u" and r: "\<exists>x. q = Inr x \<and> assertResponse2 (p_unicode P) x codes = Inr resp"
    by (auto simp: execute_def Let_def split: sum.splits)
  show "s_conn t'" "s_usingTLS t' = s_usingTLS t" "s_started t' = s_started t"
    using readResponse_state [OF q] conn u by (simp_all add: recordDebug_def happen_def)
  show "writes (s_trace t') = writes (s_trace t) @ [c]"
    using readResponse_writes [OF q] u by (simp add: recordDebug_def happen_def)
  from r show "parseCode resp \<in> set codes" by (auto simp: assertResponse2_def split: if_splits)
qed

lemma execute_Inl_state:
  "execute P c codes redact t = (Inl e, t') \<Longrightarrow> s_conn t' = s_conn t \<and> s_started t' = s_started t \<and> s_usingTLS t' = s_usingTLS t
     \<or> (\<not> s_conn t' \<and> \<not> s_started t' \<and> \<not> s_usingTLS t')"
  by (auto simp: execute_def Let_def recordDebug_def happen_def
      split: if_splits option.splits prod.splits sum.splits dest!: readResponse_state)

lemma helo_policy_steps:
  assumes "helo_policy P tls t = (r, t')" "tls \<Longrightarrow> guarded t" "\<not> s_allowPlaintextAuth t"
  shows "steps t t'"
proof -
  have "handleAuth P modes t = (e, u) \<Longrightarrow> s_username t = [] \<or> guarded t \<Longrightarrow> steps t u" for modes e u
    using steps_auth_loop [of P "map (ToUpper (p_unicode P)) modes" "s_authenticators t" 0 "[]" "[]" t]
    by (auto simp: handleAuth_def split: prod.splits option.splits if_splits)
  moreover have "t' = t \<or> (\<exists>modes e. handleAuth P modes t = (e, t') \<and> (s_username t = [] \<or> tls))"
    using assms(1,3) by (auto simp: helo_policy_def split: if_splits option.splits prod.splits)
  ultimately show ?thesis using assms(2) by blast
qed

text \<open>A step that keeps the configuration and the invariant but may raise the protection.\<close>

definition keeps :: "smtp \<Rightarrow> smtp \<Rightarrow> bool" where
  "keeps t t' \<longleftrightarrow> cfg t' = cfg t \<and> (smtp_inv t \<longrightarrow> smtp_inv t')"

lemma steps_keeps: "steps t t' \<Longrightarrow> keeps t t'"
  by (simp add: steps_def keeps_def)

lemma keeps_trans [trans]: "keeps t u \<Longrightarrow> keeps u v \<Longrightarrow> keeps t v"
  by (simp add: keeps_def)

lemma keeps_refl [simp]: "keeps t t"
  by (simp add: keeps_def)

lemma secrets_safe_happen: "\<forall>c. ev \<noteq> EvWrite True c \<Longrightarrow> secrets_safe (s_trace (happen ev t)) = secrets_safe (s_trace t)"
  by (simp add: happen_def secrets_safe_snoc)

lemma happen_fields [simp]:
  "s_conn (happen ev t) = s_conn t" "s_started (happen ev t) = s_started t" "s_usingTLS (happen ev t) = s_usingTLS t"
  "cfg (happen ev t) = cfg t" "tls_up (s_trace (happen ev t)) = tls_after (tls_up (s_trace t)) ev"
  by (simp_all add: happen_def cfg_def)

lemma cfg_conn [simp]: "cfg (t\<lparr>s_conn := a, s_usingTLS := b\<rparr>) = cfg t" "cfg (t\<lparr>s_usingTLS := b\<rparr>) = cfg t"
  "cfg (t\<lparr>s_conn := a\<rparr>) = cfg t"
  by (simp_all add: cfg_def)

lemma startTLS_keeps:
  assumes "startTLS P t = (r, t')" "s_conn t"
  shows "keeps t t' \<and> s_conn t' \<and> s_started t' = s_started t \<and> (r = None \<longrightarrow> s_usingTLS t')"
proof -
  let ?b = "bindConnectionContext P t" and ?c = "cleanupContext (Some (conn_number (s_trace t)))"
  have b: "smtp_inv (happen (EvHandshake (effectiveTLSConfig t)) ?b) = smtp_inv t"
    using quiet_inv [OF quiet_bindConnectionContext [of t P]] by (simp add: smtp_inv_def secrets_safe_happen tls_after_def)
  then have u: "smtp_inv t \<Longrightarrow> smtp_inv ((happen EvTLS (happen (EvHandshake (effectiveTLSConfig t)) ?b))\<lparr>s_usingTLS := True\<rparr>)"
    using assms(2) by (simp add: smtp_inv_def secrets_safe_happen tls_after_def)
  have "t' = ?c (happen (EvHandshake (effectiveTLSConfig t)) ?b) \<and> r \<noteq> None \<or> t' = ?c ((happen EvTLS (happen (EvHandshake (effectiveTLSConfig t)) ?b))\<lparr>s_usingTLS := True\<rparr>) \<and> r = None"
    using assms by (auto simp: startTLS_def bindCurrentConnectionContext_def Let_def split: option.splits)
  then show ?thesis using b u assms(2) by (auto simp: keeps_def quiet_inv [OF quiet_cleanupContext])
qed

text \<open>\<^verbatim>\<open>helo\<close> after its first EHLO: STARTTLS, the handshake and the second EHLO.\<close>

definition helo_starttls :: "peer \<Rightarrow> smtp \<Rightarrow> goerr option \<times> smtp" where
  "helo_starttls P t =
    (case execute P (''STARTTLS'' @ CRLF) [220] False t of
       (Inl serr, t) \<Rightarrow> (Some (contextErr P t serr), t)
     | (Inr _, t) \<Rightarrow>
         (case startTLS P t of
            (Some serr, t) \<Rightarrow> (Some serr, t)
          | (None, t) \<Rightarrow>
              (case ehlo P t of
                 (Inl err, t) \<Rightarrow> (Some (contextErr P t err), t)
               | (Inr resp, t) \<Rightarrow>
                   helo_policy P True (t\<lparr>s_capabilities := parseCapabilities (p_unicode P) resp\<rparr>))))"

definition helo_ehlo :: "peer \<Rightarrow> smtp \<Rightarrow> goerr option \<times> smtp" where
  "helo_ehlo P t =
    (if s_autoTLS t \<and> \<not> s_usingTLS t \<and> map_of (s_capabilities t) ''STARTTLS'' \<noteq> None then helo_starttls P t
     else helo_policy P (s_usingTLS t) t)"

lemma helo_split:
  "helo P t =
    (case ehlo P t of
       (Inl err, t) \<Rightarrow>
         (case execute P (''HELO '' @ s_localDomain t @ CRLF) [250] False t of
            (Inl herr, t) \<Rightarrow> (Some (contextErr P t (if smtp_code herr = 0 then err else herr)), t)
          | (Inr _, t) \<Rightarrow> (None, t\<lparr>s_capabilities := []\<rparr>))
     | (Inr resp, t) \<Rightarrow> helo_ehlo P (t\<lparr>s_capabilities := parseCapabilities (p_unicode P) resp\<rparr>))"
  unfolding helo_def helo_ehlo_def helo_starttls_def Let_def by (rule refl)

lemma ehlo_steps: "ehlo P t = (r, t') \<Longrightarrow> steps t t'"
  unfolding ehlo_def by (rule steps_execute_plain)

lemma ehlo_Inr: "ehlo P t = (Inr resp, t') \<Longrightarrow> s_conn t' \<and> s_usingTLS t' = s_usingTLS t"
  unfolding ehlo_def using execute_Inr(2,3) by blast

lemma keeps_plain: "keeps t t' \<Longrightarrow> s_allowPlaintextAuth t' = s_allowPlaintextAuth t"
  by (simp add: keeps_def cfg_def)

lemma helo_starttls_keeps:
  assumes "helo_starttls P t = (r, t')" "\<not> s_allowPlaintextAuth t"
  shows "keeps t t'"
proof -
  obtain x t3 where x: "execute P (''STARTTLS'' @ CRLF) [220] False t = (x, t3)" by fastforce
  have k3: "keeps t t3" using steps_keeps [OF steps_execute_plain [OF x]] .
  show ?thesis
  proof (cases x)
    case (Inl serr)
    with assms(1) x have "t' = t3" by (simp add: helo_starttls_def)
    with k3 show ?thesis by simp
  next
    case x': (Inr y)
    obtain z t4 where z: "startTLS P t3 = (z, t4)" by fastforce
    have "s_conn t3" using execute_Inr(2) x x' by blast
    from startTLS_keeps [OF z this] have k4: "keeps t t4" and up: "z = None \<longrightarrow> s_usingTLS t4"
      using k3 keeps_trans by blast+
    obtain v t5 where v: "ehlo P t4 = (v, t5)" by fastforce
    have k5: "keeps t t5" using k4 steps_keeps [OF ehlo_steps [OF v]] keeps_trans by blast
    consider serr where "z = Some serr" | err where "z = None" "v = Inl err" | resp where "z = None" "v = Inr resp"
      by (cases z; cases v) auto
    then show ?thesis
    proof cases
      case 1
      with assms(1) x x' z have "t' = t4" by (simp add: helo_starttls_def)
      with k4 show ?thesis by simp
    next
      case 2
      with assms(1) x x' z v have "t' = t5" by (simp add: helo_starttls_def)
      with k5 show ?thesis by simp
    next
      case 3
      let ?u = "t5\<lparr>s_capabilities := parseCapabilities (p_unicode P) resp\<rparr>"
      have "helo_policy P True ?u = (r, t')" using assms(1) x x' z v 3 by (simp add: helo_starttls_def)
      moreover have "guarded ?u" using ehlo_Inr v 3 up by (auto simp: guarded_def)
      moreover have "\<not> s_allowPlaintextAuth ?u" using keeps_plain [OF k5] assms(2) by simp
      ultimately have "steps ?u t'" by (blast intro: helo_policy_steps)
      then have "keeps t5 t'" using steps_keeps steps_trans steps_caps by blast
      with k5 show ?thesis by (rule keeps_trans)
    qed
  qed
qed

lemma helo_keeps:
  assumes "helo P t = (r, t')" "\<not> s_allowPlaintextAuth t"
  shows "keeps t t'"
proof -
  obtain q t1 where e: "ehlo P t = (q, t1)" by fastforce
  have k1: "keeps t t1" using steps_keeps [OF ehlo_steps [OF e]] .
  have a1: "\<not> s_allowPlaintextAuth t1" using keeps_plain [OF k1] assms(2) by simp
  show ?thesis
  proof (cases q)
    case (Inl err)
    obtain h t2 where h: "execute P (''HELO '' @ s_localDomain t1 @ CRLF) [250] False t1 = (h, t2)" by fastforce
    have k2: "keeps t t2" using keeps_trans [OF k1 steps_keeps [OF steps_execute_plain [OF h]]] .
    have "t' = t2 \<or> t' = t2\<lparr>s_capabilities := []\<rparr>"
      using assms(1) e Inl h by (cases h) (simp_all add: helo_split)
    with k2 show ?thesis using keeps_trans [OF k2 steps_keeps [OF steps_caps]] by blast
  next
    case (Inr resp)
    let ?t = "t1\<lparr>s_capabilities := parseCapabilities (p_unicode P) resp\<rparr>"
    have k2: "keeps t ?t" using keeps_trans [OF k1 steps_keeps [OF steps_caps]] .
    have "helo_ehlo P ?t = (r, t')" using assms(1) e Inr by (simp add: helo_split)
    moreover have "keeps ?t t'" if pol: "helo_policy P (s_usingTLS ?t) ?t = (r, t')"
      by (rule steps_keeps [OF helo_policy_steps [OF pol]]) (use a1 in \<open>simp_all add: guarded_def\<close>)
    moreover have "helo_starttls P ?t = (r, t') \<Longrightarrow> keeps ?t t'" using a1 by (intro helo_starttls_keeps) simp_all
    ultimately have "keeps ?t t'" unfolding helo_ehlo_def by (metis (full_types))
    with k2 show ?thesis by (rule keeps_trans)
  qed
qed

section \<open>A whole send\<close>

lemma connect_cases:
  assumes "connect P t = (r, t')"
  obtains "r \<noteq> None" "t' = happen (dial_event t) t"
  | u where "r \<noteq> None" "quiet (happen (dial_event t) t) u" "quiet (happen EvClose (happen (EvHandshake (effectiveTLSConfig t)) u)) t'"
  | u where "r = None" "quiet (happen (dial_event t) t) u"
      "quiet ((happen EvTLS (happen (EvHandshake (effectiveTLSConfig t)) u))\<lparr>s_conn := True, s_usingTLS := True\<rparr>) t'"
  | "r = None" "t' = (happen (dial_event t) t)\<lparr>s_conn := True, s_usingTLS := False\<rparr>"
proof -
  let ?u = "bindConnectionContext P (happen (dial_event t) t)"
  have r: "r = fst (connect P t)" "t' = snd (connect P t)" using assms by simp_all
  have "r \<noteq> None \<and> t' = happen (dial_event t) t
    \<or> r \<noteq> None \<and> t' = cleanupContext (Some (conn_number (s_trace (happen (dial_event t) t)))) (happen EvClose (happen (EvHandshake (effectiveTLSConfig t)) ?u))
    \<or> r = None \<and> t' = cleanupContext (Some (conn_number (s_trace (happen (dial_event t) t))))
        ((happen EvTLS (happen (EvHandshake (effectiveTLSConfig t)) ?u))\<lparr>s_conn := True, s_usingTLS := True\<rparr>)
    \<or> r = None \<and> t' = (happen (dial_event t) t)\<lparr>s_conn := True, s_usingTLS := False\<rparr>"
    by (cases "s_tls t"; cases "p_dial P (s_trace (happen (dial_event t) t))"; cases "p_tls P (s_trace (happen (EvHandshake (effectiveTLSConfig t)) ?u))";
        cases "p_ctx P (s_trace (happen (dial_event t) t))"; cases "p_ctx P (s_trace (happen EvClose (happen (EvHandshake (effectiveTLSConfig t)) ?u)))")
       (simp_all only: r connect_def Let_def option.case if_True if_False fst_conv snd_conv simp_thms option.distinct)
  then show thesis
    by (elim disjE conjE)
       (rule that(1), assumption+, rule that(2) [OF _ quiet_bindConnectionContext [of _ P]], assumption, simp only: quiet_cleanupContext,
        rule that(3) [OF _ quiet_bindConnectionContext [of _ P]], assumption, simp only: quiet_cleanupContext, rule that(4), assumption+)
qed

lemma connect_keeps:
  assumes "connect P t = (r, t')" "smtp_inv t" "\<not> s_conn t"
  shows "smtp_inv t' \<and> cfg t' = cfg t \<and> s_started t' = s_started t \<and> (r \<noteq> None \<longrightarrow> \<not> s_conn t') \<and> (r = None \<longrightarrow> s_conn t')"
proof -
  have off: "\<not> s_usingTLS t" "\<not> s_started t" "secrets_safe (s_trace t)"
    using assms(2,3) by (auto simp: smtp_inv_def)
  from assms(1) show ?thesis
  proof (cases rule: connect_cases)
    case (2 u)
    then show ?thesis using off assms(3) quiet_inv [OF 2(2)] quiet_fields [OF 2(2)] quiet_inv [OF 2(3)] quiet_fields [OF 2(3)]
      by (simp add: smtp_inv_def secrets_safe_happen tls_after_def)
  next
    case (3 u)
    then show ?thesis using off assms(3) quiet_inv [OF 3(2)] quiet_fields [OF 3(2)] quiet_inv [OF 3(3)] quiet_fields [OF 3(3)]
      by (simp add: smtp_inv_def secrets_safe_happen tls_after_def)
  qed (use off assms(3) in \<open>simp_all add: smtp_inv_def secrets_safe_happen tls_after_def\<close>)
qed

lemma inv_terminate: "smtp_inv t \<Longrightarrow> smtp_inv (terminate t) \<and> cfg (terminate t) = cfg t"
  using steps_terminate [of t] by (auto simp: steps_def)

lemma level_terminate: "level (terminate t)"
  by (simp add: level_def)

lemma cfg_plain: "cfg t' = cfg t \<Longrightarrow> s_allowPlaintextAuth t' = s_allowPlaintextAuth t"
  by (simp add: cfg_def)

lemma ok_terminate:
  assumes "smtp_inv t" "\<not> s_allowPlaintextAuth t"
  shows "smtp_ok (terminate t)"
  using inv_terminate [OF assms(1)] cfg_plain [of "terminate t" t] assms(2) level_terminate
  unfolding smtp_ok_def by blast

text \<open>A session that was set up has its connection.\<close>

lemma Authenticate_conn: "Authenticate P a t = (None, t') \<Longrightarrow> s_conn t'"
  by (cases a) (auto simp: Let_def split: prod.splits sum.splits option.splits if_splits dest: execute_Inr(2))

lemma auth_loop_conn: "auth_loop P adv as c ns es t = (None, t') \<Longrightarrow> s_conn t'"
proof (induction P adv as c ns es t arbitrary: t' rule: auth_loop.induct)
  case (2 P adv a as c ns es t)
  obtain e t1 where 1: "Authenticate P a t = (e, t1)" by fastforce
  show ?case
  proof (cases "ToUpper (p_unicode P) (Keyword a) \<in> set adv")
    case True
    show ?thesis
    proof (cases e)
      case None
      with "2.prems" True 1 have "t' = t1" by simp
      with 1 None Authenticate_conn show ?thesis by blast
    next
      case (Some err)
      obtain x t2 where x: "execute P (''RSET'' @ CRLF) [250] False t1 = (x, t2)" by fastforce
      have "auth_loop P adv as (smtp_code err) (ns @ [Keyword a])
          (filter (\<lambda>(k, v). k \<noteq> Keyword a) es @ [(Keyword a, Error_text (p_unicode P) err)]) t2 = (None, t')"
        using "2.prems" True 1 Some x by simp
      then show ?thesis using "2.IH"(2) [OF _ 1 [symmetric] Some x [symmetric]] True by simp
    qed
  next
    case False
    then have "auth_loop P adv as c ns es t = (None, t')" using "2.prems" by simp
    with "2.IH"(1) False show ?thesis by blast
  qed
qed simp

lemma helo_policy_conn: "helo_policy P tls t = (None, t') \<Longrightarrow> s_conn t \<Longrightarrow> s_conn t'"
  by (auto simp: helo_policy_def handleAuth_def split: if_splits option.splits prod.splits dest: auth_loop_conn)

lemma helo_starttls_conn: "helo_starttls P t = (None, t') \<Longrightarrow> s_conn t'"
  unfolding helo_starttls_def
  by (auto split: prod.splits sum.splits option.splits dest!: ehlo_Inr dest: helo_policy_conn)

lemma helo_conn: "helo P t = (None, t') \<Longrightarrow> s_conn t'"
  unfolding helo_split helo_ehlo_def
  by (auto split: prod.splits sum.splits if_splits
      dest: execute_Inr(2) helo_starttls_conn helo_policy_conn dest!: ehlo_Inr)

lemma quiet_ok: "quiet t t' \<Longrightarrow> smtp_ok t' = smtp_ok t"
  using quiet_fields [of t t'] quiet_inv [of t t'] by (simp add: smtp_ok_def level_def)

lemma greet_ok:
  assumes "greet P t = (r, t')" "smtp_inv t" "\<not> s_allowPlaintextAuth t"
  shows "smtp_ok t' \<and> cfg t' = cfg t"
proof -
  obtain q t2 where q: "readResponse P [] t = (q, t2)" by fastforce
  have t2: "smtp_inv t2" "cfg t2 = cfg t" using steps_readResponse [OF q] assms(2) by (auto simp: steps_def)
  obtain h t3 where h: "helo P t2 = (h, t3)" by fastforce
  have plain: "\<not> s_allowPlaintextAuth t2" using cfg_plain [OF t2(2)] assms(3) by simp
  have t3: "smtp_inv t3" "cfg t3 = cfg t" using helo_keeps [OF h plain] t2 by (auto simp: keeps_def)
  have fail: "smtp_ok (terminate u) \<and> cfg (terminate u) = cfg t" if "smtp_inv u" "cfg u = cfg t" for u
    using ok_terminate [OF that(1)] inv_terminate [OF that(1)] that(2) cfg_plain [OF that(2)] assms(3) by auto
  consider (banner) "t' = terminate t2" | (helo) "t' = terminate t3"
    | (up) "h = None" "t' = t3\<lparr>s_started := True, s_lastMessageTime := zero_time\<rparr>"
    using assms(1) q h
    by (cases q; cases h) (auto simp: greet_def Let_def split: sum.splits)
  then show ?thesis
  proof cases
    case up
    have "s_conn t3" using helo_conn h up(1) by blast
    with up t3 assms(3) cfg_plain [OF t3(2)] show ?thesis
      by (auto simp: smtp_ok_def level_def smtp_inv_def cfg_def)
  qed (use fail t2 t3 in auto)
qed

lemma start_ok:
  assumes "start P t = (r, t')" "smtp_ok t"
  shows "smtp_ok t' \<and> cfg t' = cfg t"
proof (cases "s_started t")
  case False
  have inv: "smtp_inv t" "\<not> s_conn t" "\<not> s_allowPlaintextAuth t"
    using assms(2) False by (auto simp: smtp_ok_def level_def)
  obtain c t1 where c: "connect P t = (c, t1)" by fastforce
  have t1: "smtp_inv t1" "cfg t1 = cfg t" "\<not> s_started t1" "c \<noteq> None \<longrightarrow> \<not> s_conn t1"
    using connect_keeps [OF c inv(1,2)] False by auto
  have p1: "\<not> s_allowPlaintextAuth t1" using cfg_plain [OF t1(2)] inv(3) by simp
  show ?thesis
  proof (cases c)
    case None
    obtain n t2 where n: "bindCurrentConnectionContext P t1 = (n, t2)" by fastforce
    obtain h t3 where h: "greet P t2 = (h, t3)" by fastforce
    have t': "t' = cleanupContext n t3" using assms(1) False c None n h by (simp add: start_def)
    have "smtp_inv t2" "cfg t2 = cfg t1" "\<not> s_allowPlaintextAuth t2"
      using quiet_inv [OF quiet_bind [OF n]] quiet_fields [OF quiet_bind [OF n]] t1(1) p1 by auto
    from greet_ok [OF h this(1,3)] this(2) t1(2) show ?thesis by (simp add: t' quiet_ok [OF quiet_cleanupContext])
  next
    case (Some e)
    then have "t' = t1" using assms(1) False c by (simp add: start_def)
    with t1 p1 Some show ?thesis by (simp add: smtp_ok_def level_def)
  qed
qed (use assms in \<open>simp add: start_def\<close>)

lemma stop_conn_steps: "steps t (stop_conn P t)"
proof -
  obtain r u where "execute P (''QUIT'' @ CRLF) [221] False t = (r, u)" by fastforce
  then show ?thesis unfolding stop_conn_def
    using steps_trans [OF steps_execute_plain steps_terminate] by auto
qed

lemma ping_steps: "steps t (ping P t)"
proof -
  obtain r u where e: "execute P (''NOOP'' @ CRLF) [250] False t = (r, u)" by fastforce
  show ?thesis using steps_execute_plain [OF e] steps_trans [OF _ stop_conn_steps] e
    by (auto simp: ping_def split: sum.splits)
qed

lemma mailFrom_steps: "mailFrom P a u t = (r, t') \<Longrightarrow> steps t t'"
  by (auto simp: mailFrom_def split: sum.splits prod.splits if_splits dest: steps_execute_plain)

lemma rcptTo_steps: "rcptTo P a t = (r, t') \<Longrightarrow> steps t t'"
  by (auto simp: rcptTo_def split: sum.splits prod.splits if_splits dest: steps_execute_plain)

lemma rcpt_loop_steps: "rcpt_loop P rs t = (r, t') \<Longrightarrow> steps t t'"
  by (induction rs arbitrary: t)
     (auto split: prod.splits option.splits dest: rcptTo_steps intro: steps_trans)

lemma writeData_steps: "writeData P d t = (r, t') \<Longrightarrow> steps t t'"
  using steps_trans [OF steps_happen_simple(4) steps_terminate]
  by (auto simp: writeData_def Let_def split: option.splits)

lemma transaction_steps:
  assumes "transaction P env raw t = (r, t')"
  shows "steps t t'"
proof -
  obtain r1 t1 where 1: "mailFrom P (Email (Sender env)) (AnyAddressHasUnicodeLocalPart env) t = (r1, t1)" by fastforce
  obtain r2 t2 where 2: "rcpt_loop P (Envelope_Recipients env) t1 = (r2, t2)" by fastforce
  obtain r3 t3 where 3: "execute P (''DATA'' @ CRLF) [354] False t2 = (r3, t3)" by fastforce
  obtain r4 t4 where 4: "writeData P raw t3 = (r4, t4)" by fastforce
  have s: "steps t t1" "steps t t2" "steps t t3" "steps t t4"
    using mailFrom_steps [OF 1] rcpt_loop_steps [OF 2] steps_execute_plain [OF 3] writeData_steps [OF 4]
    by (blast intro: steps_trans)+
  have "t' = t1 \<or> t' = t2 \<or> t' = t3 \<or> t' = t4 \<or> (\<exists>c. execute P c [250] False t4 = (r, t'))"
    using assms 1 2 3 4 by (cases r1; cases r2; cases r3; cases r4) (auto simp: transaction_def)
  with s steps_execute_plain show ?thesis by (blast intro: steps_trans)
qed

lemma fail_send_steps: "fail_send P err t = (e, t') \<Longrightarrow> steps t t'"
  by (auto simp: fail_send_def appendErrDebug_def Let_def split: if_splits
      intro: steps_trans [OF steps_debug steps_time])

lemma ping_idle_steps: "steps t (ping_idle P t)"
  by (simp add: ping_idle_def ping_steps)

text \<open>How \<^verbatim>\<open>doSend\<close> ends, between the deadlines it sets and clears.\<close>

lemma doSend_cases:
  assumes "doSend P sm t = Some (r, sm', t')"
  obtains err c u v where "r = Some err" "sm' = sm" "bindCurrentConnectionContext P (t\<lparr>s_debug := [], s_ctxHasDeadline := p_ctxDeadline P (s_trace t) \<noteq> None\<rparr>) = (c, u)"
      "start P (ping_idle P u) = (Some err, v)" "t' = cleanupContext c v"
  | c u v c2 w x where "bindCurrentConnectionContext P (t\<lparr>s_debug := [], s_ctxHasDeadline := p_ctxDeadline P (s_trace t) \<noteq> None\<rparr>) = (c, u)"
      "start P (ping_idle P u) = (None, v)" "bindCurrentConnectionContext P (cleanupContext c v) = (c2, w)"
      "mail P sm w = Some (r, sm', x)" "t' = cleanupContext c2 x"
proof -
  let ?t = "t\<lparr>s_debug := [], s_ctxHasDeadline := p_ctxDeadline P (s_trace t) \<noteq> None\<rparr>"
  obtain c u where c: "bindCurrentConnectionContext P ?t = (c, u)" by fastforce
  obtain q v where q: "start P (ping_idle P u) = (q, v)" by fastforce
  obtain c2 w where c2: "bindCurrentConnectionContext P (cleanupContext c v) = (c2, w)" by fastforce
  have eq: "doSend P sm t = (case q of Some err \<Rightarrow> Some (Some err, sm, cleanupContext c v)
      | None \<Rightarrow> map_option (\<lambda>(r, sm, t). (r, sm, cleanupContext c2 t)) (mail P sm w))"
    by (simp add: doSend_def c [simplified] q c2 split: option.split)
  show thesis
  proof (cases q)
    case None
    with eq assms obtain x where "mail P sm w = Some (r, sm', x)" "t' = cleanupContext c2 x" by (cases "mail P sm w") auto
    with c q c2 None that(2) show thesis by blast
  next
    case (Some err)
    with eq assms have "r = Some err" "sm' = sm" "t' = cleanupContext c v" by auto
    with c q Some that(1) show thesis by blast
  qed
qed

lemma mail_steps:
  assumes "mail P sm v = Some (r, sm', t')"
  shows "steps v t'"
proof -
  obtain env where env: "sm_envelope sm = Some env" using assms by (auto simp: mail_def split: option.splits)
  obtain q x where q: "transaction P env (sm_raw sm) v = (q, x)" by fastforce
  have sx: "steps v x" using transaction_steps [OF q] .
  show ?thesis
  proof (cases q)
    case (Inl err)
    obtain e y where y: "fail_send P err x = (e, y)" by fastforce
    with assms env q Inl have "t' = y" by (simp add: mail_def)
    with sx fail_send_steps [OF y] show ?thesis by (blast intro: steps_trans)
  next
    case (Inr resp)
    with assms env q have "\<exists>d. t' = x\<lparr>s_debug := [], s_lastMessageTime := d\<rparr>"
      by (auto simp: mail_def drainDebug_def Let_def split: option.splits)
    with sx steps_trans [OF steps_debug steps_time] show ?thesis by (blast intro: steps_trans)
  qed
qed

lemma doSend_ok:
  assumes "doSend P sm t = Some (r, sm', t')" "smtp_ok t"
  shows "smtp_ok t' \<and> cfg t' = cfg t"
proof -
  let ?t = "t\<lparr>s_debug := [], s_ctxHasDeadline := p_ctxDeadline P (s_trace t) \<noteq> None\<rparr>"
  have st: "steps t ?t" using steps_trans [OF steps_debug steps_ctxHasDeadline] by blast
  have up: "smtp_ok v \<and> cfg v = cfg t" if "bindCurrentConnectionContext P ?t = (c, u)" "start P (ping_idle P u) = (q, v)" for c u q v
  proof -
    have "steps t (ping_idle P u)"
      using steps_trans [OF st steps_trans [OF quiet_steps [OF quiet_bind [OF that(1)]] ping_idle_steps]] .
    then have "smtp_ok (ping_idle P u)" "cfg (ping_idle P u) = cfg t" using steps_ok assms(2) by (auto simp: steps_def)
    with start_ok [OF that(2)] show ?thesis by simp
  qed
  from assms(1) show ?thesis
  proof (cases rule: doSend_cases)
    case (1 err c u v)
    with up [OF 1(3,4)] show ?thesis by (simp add: quiet_ok [OF quiet_cleanupContext])
  next
    case (2 c u v c2 w x)
    have "steps v x"
      using steps_trans [OF quiet_steps [OF quiet_cleanupContext] steps_trans [OF quiet_steps [OF quiet_bind [OF 2(3)]] mail_steps [OF 2(4)]]] .
    then have "smtp_ok x" "cfg x = cfg t" using up [OF 2(1,2)] steps_ok [of v x] by (simp_all add: steps_def)
    with 2(5) show ?thesis by (simp add: quiet_ok [OF quiet_cleanupContext])
  qed
qed

section \<open>Sending\<close>

text \<open>
  What \<^verbatim>\<open>BaseTransport.Send\<close> needs of its world and of the delivery hook to keep an
  invariant of the world: drawing random bytes, sleeping and the hook keep it.
\<close>

locale delivery_hook =
  fixes S :: "'w sys" and hook :: "sent \<Rightarrow> 'w \<Rightarrow> (goerr option \<times> sent \<times> 'w) option" and I :: "'w \<Rightarrow> bool"
  assumes rand_keeps: "I w \<Longrightarrow> I (rand_used S n w)"
    and sleep_keeps: "I w \<Longrightarrow> sleep_or_done S d w = (e, w') \<Longrightarrow> I w'"
    and hook_keeps: "I w \<Longrightarrow> hook sm w = Some (r, sm', w') \<Longrightarrow> I w'"
begin

lemma new_sent_keeps: "NewSentMessage S msg env w = (r, w') \<Longrightarrow> I w \<Longrightarrow> I w'"
  by (auto simp: NewSentMessage_def Let_def rand_keeps
      split: if_splits raw_message.splits option.splits prod.splits sum.splits)

lemma throttle_keeps: "checkThrottling S b w = (r, b', w') \<Longrightarrow> I w \<Longrightarrow> I w' \<and> bt_DoSend b' = bt_DoSend b"
  by (auto simp: checkThrottling_def Let_def split: if_splits prod.splits option.splits dest: sleep_keeps)

lemma send_keeps:
  assumes "base_Send S b msg env w = Some (r, b', w')" "bt_DoSend b = Some hook" "I w"
  shows "I w' \<and> bt_DoSend b' = Some hook"
proof -
  let ?msg = "case msg of MsgRaw m \<Rightarrow> MsgRaw (Message_Clone m) | _ \<Rightarrow> msg"
  let ?env = "case env of None \<Rightarrow> EnvelopeFromMessage (sys_lib S) ?msg | Some e \<Rightarrow> Inr (Envelope_Clone e)"
  have "b' = b \<and> w' = w \<or> (\<exists>e q w1. NewSentMessage S ?msg (Some e) w = (q, w1) \<and>
      (b' = b \<and> w' = w1 \<or> (\<exists>x b2 w2. checkThrottling S b w1 = (x, b2, w2) \<and> b' = b2 \<and>
         (w' = w2 \<or> (\<exists>sm r2 sm2. hook sm w2 = Some (r2, sm2, w'))))))"
  proof (cases "ctx_Err S w = None \<and> \<not> isNilRawMessage msg \<and> (\<exists>e. ?env = Inr e)")
    case True
    then obtain e where e: "?env = Inr e" by blast
    obtain q w1 where q: "NewSentMessage S ?msg (Some e) w = (q, w1)" by fastforce
    obtain x b2 w2 where x: "checkThrottling S b w1 = (x, b2, w2)" by (metis prod_cases3)
    show ?thesis
    proof (cases q)
      case (Inl err)
      with assms(1) True e q have "w' = w1" "b' = b" by (simp_all add: base_Send_def)
      with q show ?thesis by blast
    next
      case (Inr sm)
      show ?thesis
      proof (cases x)
        case (Some err)
        with assms(1,2) True e q x Inr have "w' = w2" "b' = b2" by (simp_all add: base_Send_def)
        with q x show ?thesis by blast
      next
        case None
        with assms(1,2) True e q x Inr obtain y where y: "hook sm w2 = Some y"
          by (cases "hook sm w2") (simp_all add: base_Send_def)
        obtain r2 sm2 w3 where yy: "y = (r2, sm2, w3)" by (cases y) auto
        from assms(1,2) True e q x Inr None y yy have "w' = w3" "b' = b2"
          by (cases r2; simp add: base_Send_def)+
        with q x y yy show ?thesis by blast
      qed
    qed
  next
    case False
    then consider err where "ctx_Err S w = Some err" | "ctx_Err S w = None" "isNilRawMessage msg"
      | err where "ctx_Err S w = None" "\<not> isNilRawMessage msg" "?env = Inl err"
      by (cases "ctx_Err S w"; cases ?env) blast+
    then show ?thesis by cases (use assms(1) in \<open>simp_all add: base_Send_def\<close>)
  qed
  then show ?thesis
    using assms(2,3) by (auto dest: new_sent_keeps throttle_keeps hook_keeps)
qed

end

definition session_ok :: "(bytes \<times> bytes \<times> bool \<times> bool \<times> bool \<times> authenticator list \<times> int) \<Rightarrow> smtp \<Rightarrow> bool" where
  "session_ok c t \<longleftrightarrow> smtp_ok t \<and> cfg t = c"

lemma session_ok_steps: "steps t t' \<Longrightarrow> session_ok c t \<Longrightarrow> session_ok c t'"
  using steps_ok [of t t'] unfolding session_ok_def steps_def by auto

interpretation smtp_hook: delivery_hook "smtp_sys P" "doSend P" "session_ok c" for P c
proof
  fix w n d e w' sm r sm'
  assume I: "session_ok c w"
  show "session_ok c (rand_used (smtp_sys P) n w)"
    using session_ok_steps [OF steps_happen_simple(3) I] by (simp add: smtp_sys_def)
  show "sleep_or_done (smtp_sys P) d w = (e, w') \<Longrightarrow> session_ok c w'"
    using session_ok_steps [OF steps_happen_simple(2) I] by (auto simp: smtp_sys_def)
  show "doSend P sm w = Some (r, sm', w') \<Longrightarrow> session_ok c w'"
    using doSend_ok I unfolding session_ok_def by blast
qed

lemma waitForRetry_steps: "waitForRetry P d t = (r, t') \<Longrightarrow> steps t t'"
  by (auto simp: waitForRetry_def Let_def split: option.splits if_splits)

lemma after_failure_steps: "steps t (after_failure P e b t)"
proof -
  obtain r u where u: "execute P (''RSET'' @ CRLF) [250] False t = (r, u)" by fastforce
  have "steps t u" "steps t (terminate u)"
    using steps_execute_plain [OF u] steps_trans steps_terminate by blast+
  with u show ?thesis by (auto simp: after_failure_def split: sum.splits)
qed

lemma checkRestartThreshold_steps: "steps t (checkRestartThreshold P t)"
proof -
  let ?t = "t\<lparr>s_restartCounter := s_restartCounter t + 1\<rparr>"
  let ?u = "(stop_conn P ?t)\<lparr>s_restartCounter := 0\<rparr>"
  have s: "steps t ?t" "steps ?t ?u" using steps_trans [OF stop_conn_steps steps_counter] by auto
  then have "steps t ?u" "steps t (happen (EvSleep (wrap64 (s_restartThresholdSleep ?u * 1000000000))) ?u)"
    using steps_trans steps_happen_simple(2) by blast+
  with s(1) show ?thesis unfolding checkRestartThreshold_def Let_def by auto
qed

text \<open>
  One round of the loop: it returns the message of a successful attempt, or an error, or it
  tries again after a transient error while it has a retry left.
\<close>

lemma send_loop_cases:
  assumes "send_loop P left msg env b t = Some (r, b', t')"
  obtains sm t1 where "base_Send (smtp_sys P) b msg env t = Some (Inr sm, b', t1)" "r = Inr sm"
      "t' = checkRestartThreshold P t1"
  | err e t1 where "base_Send (smtp_sys P) b msg env t = Some (Inl err, b', t1)" "r = Inl e" "steps t1 t'"
  | err b1 t1 t2 k where "base_Send (smtp_sys P) b msg env t = Some (Inl err, b1, t1)" "isTransientSMTPError err"
      "left = Suc k" "steps t1 t2" "send_loop P k msg env b1 t2 = Some (r, b', t')"
proof -
  obtain q b1 t1 where q: "base_Send (smtp_sys P) b msg env t = Some (q, b1, t1)"
    using assms by (subst (asm) send_loop.simps) (auto split: option.splits)
  show thesis
  proof (cases q)
    case (Inr sm)
    with assms q have "t' = checkRestartThreshold P t1" "b' = b1" "r = Inr sm"
      by (simp_all add: send_loop.simps [of _ left])
    with q Inr that(1) show thesis by blast
  next
    case (Inl err)
    define retry where "retry = (isTransientSMTPError err \<and> 0 < left)"
    let ?u = "after_failure P err retry t1"
    have u: "steps t1 ?u" by (rule after_failure_steps)
    obtain y v where y: "waitForRetry P (s_retryDelay ?u) ?u = (y, v)" by fastforce
    have v: "steps t1 v" by (rule steps_trans [OF u waitForRetry_steps [OF y]])
    have eq: "Some (r, b', t') = (if \<not> retry then Some (Inl err, b1, ?u)
        else case y of Some err \<Rightarrow> Some (Inl err, b1, v)
          | None \<Rightarrow> (case left of 0 \<Rightarrow> None | Suc k \<Rightarrow> send_loop P k msg env b1 v))"
      using y unfolding assms [symmetric]
      by (subst send_loop.simps) (cases retry; cases y; simp add: q Inl Let_def retry_def [symmetric])
    show thesis
    proof (cases "retry \<and> y = None")
      case True
      with eq obtain k where "left = Suc k" "send_loop P k msg env b1 v = Some (r, b', t')"
        by (cases left) auto
      with q Inl True v that(3) show thesis unfolding retry_def by blast
    next
      case False
      with eq have "b' = b1" "t' = ?u \<or> t' = v" "\<exists>e. r = Inl e" by (auto split: option.splits if_splits)
      with u v q Inl that(2) show thesis by blast
    qed
  qed
qed

lemma send_loop_ok:
  assumes "send_loop P left msg env b t = Some (r, b', t')" "bt_DoSend b = Some (doSend P)" "session_ok c t"
  shows "session_ok c t' \<and> bt_DoSend b' = Some (doSend P)"
  using assms
proof (induction left arbitrary: b t)
  case 0
  from 0(1) show ?case
    by (cases rule: send_loop_cases)
       (use smtp_hook.send_keeps 0(2,3) session_ok_steps checkRestartThreshold_steps in blast)+
next
  case (Suc left)
  from Suc.prems(1) show ?case
    by (cases rule: send_loop_cases)
       (use smtp_hook.send_keeps Suc session_ok_steps checkRestartThreshold_steps in blast)+
qed

section \<open>What a successful transaction sent\<close>

definition mail_command :: "bytes \<Rightarrow> bool \<Rightarrow> bytes" where
  "mail_command s smtputf8 = ''MAIL FROM:<'' @ s @ ''>'' @ (if smtputf8 then '' SMTPUTF8'' else []) @ CRLF"

definition rcpt_command :: "bytes \<Rightarrow> bytes" where
  "rcpt_command r = ''RCPT TO:<'' @ r @ ''>'' @ CRLF"

text \<open>The commands that deliver \<open>raw\<close> from \<open>s\<close> to \<open>rs\<close>, in order.\<close>

definition delivery :: "bytes \<Rightarrow> bytes list \<Rightarrow> bool \<Rightarrow> bytes \<Rightarrow> bytes list" where
  "delivery s rs smtputf8 raw =
    [mail_command s smtputf8] @ map rcpt_command rs @ [''DATA'' @ CRLF, data_text raw, data_terminator (data_text raw)]"

lemma mailFrom_None:
  "mailFrom P a u t = (None, t') \<Longrightarrow> \<exists>s. encodeSMTPAddress (p_lib P) a = Inr s
     \<and> writes (s_trace t') = writes (s_trace t) @ [mail_command s u]"
  by (auto simp: mailFrom_def mail_command_def split: sum.splits if_splits prod.splits dest: execute_Inr(5))

lemma rcptTo_None:
  "rcptTo P a t = (None, t') \<Longrightarrow> \<exists>s. encodeSMTPAddress (p_lib P) a = Inr s
     \<and> writes (s_trace t') = writes (s_trace t) @ [rcpt_command s]"
  by (auto simp: rcptTo_def rcpt_command_def split: sum.splits if_splits prod.splits dest: execute_Inr(5))

lemma rcpt_loop_None:
  "rcpt_loop P rs t = (None, t') \<Longrightarrow> \<exists>es. map (encodeSMTPAddress (p_lib P) \<circ> Email) rs = map Inr es
     \<and> writes (s_trace t') = writes (s_trace t) @ map rcpt_command es"
proof (induction rs arbitrary: t)
  case (Cons r rs)
  obtain x t1 where x: "rcptTo P (Email r) t = (x, t1)" by fastforce
  with Cons.prems have n: "x = None" "rcpt_loop P rs t1 = (None, t')" by (auto split: option.splits)
  from rcptTo_None x n obtain s where
    s: "encodeSMTPAddress (p_lib P) (Email r) = Inr s" "writes (s_trace t1) = writes (s_trace t) @ [rcpt_command s]"
    by blast
  from Cons.IH [OF n(2)] obtain es where
    "map (encodeSMTPAddress (p_lib P) \<circ> Email) rs = map Inr es"
    "writes (s_trace t') = writes (s_trace t1) @ map rcpt_command es" by blast
  with s show ?case by (intro exI [of _ "s # es"]) (simp add: comp_def)
qed simp

text \<open>The envelope \<open>env\<close> is spelled \<open>s\<close> and \<open>rs\<close> on the wire.\<close>

definition spelled :: "netlib \<Rightarrow> envelope \<Rightarrow> bytes \<Rightarrow> bytes list \<Rightarrow> bool" where
  "spelled L env s rs \<longleftrightarrow> encodeSMTPAddress L (Email (Sender env)) = Inr s
     \<and> map (encodeSMTPAddress L \<circ> Email) (Envelope_Recipients env) = map Inr rs"

lemma transaction_Inr:
  assumes "transaction P env raw t = (Inr resp, t')"
  shows "parseCode resp = 250 \<and> (\<exists>s rs. spelled (p_lib P) env s rs
    \<and> writes (s_trace t') = writes (s_trace t) @ delivery s rs (AnyAddressHasUnicodeLocalPart env) raw)"
proof -
  obtain r1 t1 where 1: "mailFrom P (Email (Sender env)) (AnyAddressHasUnicodeLocalPart env) t = (r1, t1)" by fastforce
  obtain r2 t2 where 2: "rcpt_loop P (Envelope_Recipients env) t1 = (r2, t2)" by fastforce
  obtain r3 t3 where 3: "execute P (''DATA'' @ CRLF) [354] False t2 = (r3, t3)" by fastforce
  obtain r4 t4 where 4: "writeData P raw t3 = (r4, t4)" by fastforce
  have n: "r1 = None" "r2 = None" using assms 1 2 by (auto simp: transaction_def split: option.splits)
  have n3: "\<exists>x. r3 = Inr x" using assms n 1 2 3 by (cases r3) (auto simp: transaction_def)
  have n4: "\<exists>x. r4 = Inr x" using assms n n3 1 2 3 4 by (cases r4) (auto simp: transaction_def)
  have t4: "writes (s_trace t4) = writes (s_trace t3) @ [data_text raw]" "r4 = Inr (data_terminator (data_text raw))"
    using 4 n4 by (auto simp: writeData_def Let_def happen_def split: option.splits)
  have ex: "execute P (data_terminator (data_text raw)) [250] False t4 = (Inr resp, t')"
    using assms n n3 1 2 3 4 t4(2) by (auto simp: transaction_def)
  obtain s where s: "encodeSMTPAddress (p_lib P) (Email (Sender env)) = Inr s"
    "writes (s_trace t1) = writes (s_trace t) @ [mail_command s (AnyAddressHasUnicodeLocalPart env)]"
    using mailFrom_None 1 n(1) by blast
  obtain rs where rs: "map (encodeSMTPAddress (p_lib P) \<circ> Email) (Envelope_Recipients env) = map Inr rs"
    "writes (s_trace t2) = writes (s_trace t1) @ map rcpt_command rs"
    using rcpt_loop_None 2 n(2) by blast
  have "writes (s_trace t3) = writes (s_trace t2) @ [''DATA'' @ CRLF]" using execute_Inr(5) 3 n3 by blast
  with s rs t4(1) execute_Inr(5) [OF ex]
  have "writes (s_trace t') = writes (s_trace t) @ delivery s rs (AnyAddressHasUnicodeLocalPart env) raw"
    by (simp add: delivery_def)
  with s(1) rs(1) execute_Inr(6) [OF ex] show ?thesis unfolding spelled_def by auto
qed

lemma doSend_Inr:
  assumes "doSend P sm t = Some (None, sm', t')"
  obtains env s rs pre where "sm_envelope sm = Some env" "spelled (p_lib P) env s rs"
    "writes (s_trace t') = pre @ delivery s rs (AnyAddressHasUnicodeLocalPart env) (sm_raw sm)"
    "sm_raw sm' = sm_raw sm" "sm_envelope sm' = sm_envelope sm"
  using assms
proof (cases rule: doSend_cases)
  case (2 c u v c2 w x)
  obtain env where env: "sm_envelope sm = Some env" using 2(4) by (auto simp: mail_def split: option.splits)
  obtain q y where q: "transaction P env (sm_raw sm) w = (q, y)" by fastforce
  obtain resp where resp: "q = Inr resp" using 2(4) env q by (cases q) (auto simp: mail_def split: prod.splits)
  have "s_trace x = s_trace y \<and> sm_raw sm' = sm_raw sm \<and> sm_envelope sm' = sm_envelope sm"
    using 2(4) env q resp by (auto simp: mail_def drainDebug_def AppendDebug_def SetMessageID_def Let_def split: option.splits)
  then have "writes (s_trace t') = writes (s_trace y)" "sm_raw sm' = sm_raw sm" "sm_envelope sm' = sm_envelope sm"
    using 2(5) by simp_all
  with transaction_Inr q resp env that show ?thesis by metis
qed simp

lemma writes_append [simp]: "writes (a @ b) = writes a @ writes b" "writes [] = []"
  "writes (e # b) = (case e of EvWrite s c \<Rightarrow> [c] | _ \<Rightarrow> []) @ writes b"
  by (simp_all add: writes_def)

lemma stop_conn_writes: "\<exists>post. writes (s_trace (stop_conn P u)) = writes (s_trace u) @ post"
proof -
  obtain r v where e: "execute P (''QUIT'' @ CRLF) [221] False u = (r, v)" by fastforce
  have "\<exists>post. writes (s_trace v) = writes (s_trace u) @ post"
    using e by (auto simp: execute_def Let_def recordDebug_def happen_def terminate_def
        split: if_splits option.splits prod.splits sum.splits dest!: readResponse_writes)
  with e show ?thesis by (auto simp: stop_conn_def terminate_def happen_def)
qed

lemma checkRestartThreshold_writes:
  "\<exists>post. writes (s_trace (checkRestartThreshold P t)) = writes (s_trace t) @ post"
  using stop_conn_writes [of P "t\<lparr>s_restartCounter := s_restartCounter t + 1\<rparr>"]
  by (simp add: checkRestartThreshold_def Let_def happen_def)

text \<open>The bytes \<open>raw\<close> are those of the message.\<close>

definition rendered :: "netlib \<Rightarrow> raw_message \<Rightarrow> bytes \<Rightarrow> bool" where
  "rendered L msg raw \<longleftrightarrow>
    (case msg of
       MsgRaw m \<Rightarrow> \<exists>R now mid m' n. MessageID L R now m 0 = (mid, m', n) \<and> fst (Message_Bytes L R now m' n) = Inr raw
     | _ \<Rightarrow> raw_Bytes msg = Inr raw)"

lemma NewSentMessage_rendered:
  assumes "NewSentMessage S msg env w = (Inr sm, w')"
  shows "rendered (sys_lib S) msg (sm_raw sm)"
proof (cases msg)
  case (MsgRaw m)
  obtain mid m' n where mid: "MessageID (sys_lib S) (rand_stream S w) (Now S w) m 0 = (mid, m', n)"
    by (metis prod_cases3)
  obtain r m2 n2 where r: "Message_Bytes (sys_lib S) (rand_stream S w) (Now S w) m' n = (r, m2, n2)"
    by (metis prod_cases3)
  with assms MsgRaw mid have "r = Inr (sm_raw sm)"
    by (auto simp: NewSentMessage_def Let_def isNilRawMessage_def split: option.splits sum.splits)
  with MsgRaw mid r show ?thesis unfolding rendered_def by (auto intro!: exI)
qed (use assms in \<open>auto simp: NewSentMessage_def rendered_def isNilRawMessage_def split: sum.splits if_splits\<close>)

text \<open>A send that succeeds has delivered the message to the recipients of its envelope.\<close>

definition delivered :: "netlib \<Rightarrow> raw_message \<Rightarrow> envelope option \<Rightarrow> sent \<Rightarrow> bytes list \<Rightarrow> bool" where
  "delivered L msg envelope sm ws \<longleftrightarrow> (\<exists>env s rs pre post. sm_envelope sm = Some env
     \<and> (case envelope of Some e \<Rightarrow> env = e | None \<Rightarrow> EnvelopeFromMessage L msg = Inr env)
     \<and> rendered L msg (sm_raw sm) \<and> spelled L env s rs
     \<and> ws = pre @ delivery s rs (AnyAddressHasUnicodeLocalPart env) (sm_raw sm) @ post)"

lemma delivered_append: "delivered L msg envelope sm ws \<Longrightarrow> delivered L msg envelope sm (ws @ post)"
  unfolding delivered_def by (metis append.assoc)

lemma base_Send_delivered:
  assumes "base_Send (smtp_sys P) b msg env t = Some (Inr r, b', t')" "bt_DoSend b = Some (doSend P)"
  shows "\<exists>sm. r = Some sm \<and> delivered (p_lib P) msg env sm (writes (s_trace t'))"
proof -
  from assms(1) obtain sm sm' e w1 w2 DoSend where
    b: "r = Some sm'" "bt_DoSend b = Some DoSend" "DoSend sm w2 = Some (None, sm', t')"
    "NewSentMessage (smtp_sys P) msg (Some e) t = (Inr sm, w1)"
    "sm_envelope sm = Some e" "case env of Some x \<Rightarrow> e = x | None \<Rightarrow> EnvelopeFromMessage (sys_lib (smtp_sys P)) msg = Inr e"
    by (rule base_Send_Inr)
  have lib: "sys_lib (smtp_sys P) = p_lib P" by (simp add: smtp_sys_def)
  from b(2,3) assms(2) have "doSend P sm w2 = Some (None, sm', t')" by simp
  then obtain env' s rs pre where d: "sm_envelope sm = Some env'" "spelled (p_lib P) env' s rs"
    "writes (s_trace t') = pre @ delivery s rs (AnyAddressHasUnicodeLocalPart env') (sm_raw sm)"
    "sm_raw sm' = sm_raw sm" "sm_envelope sm' = sm_envelope sm"
    by (rule doSend_Inr)
  have "rendered (p_lib P) msg (sm_raw sm')" using NewSentMessage_rendered [OF b(4)] d(4) lib by simp
  moreover have "env' = e" using b(5) d(1) by simp
  moreover have "writes (s_trace t') = pre @ delivery s rs (AnyAddressHasUnicodeLocalPart env') (sm_raw sm') @ []"
    using d(3,4) by simp
  ultimately have "delivered (p_lib P) msg env sm' (writes (s_trace t'))"
    unfolding delivered_def using b(6) d(1,2,5) lib by metis
  with b(1) show ?thesis by blast
qed

lemma base_Send_hook:
  assumes "base_Send S b msg env w = Some (r, b', w')" "bt_DoSend b = Some hook"
  shows "bt_DoSend b' = Some hook"
proof -
  have "delivery_hook S hook (\<lambda>_. True)" by unfold_locales simp_all
  from delivery_hook.send_keeps [OF this assms] show ?thesis by simp
qed

lemma base_Send_restart_delivered:
  assumes "base_Send (smtp_sys P) b msg env t = Some (Inr r, b', t1)" "bt_DoSend b = Some (doSend P)"
  shows "\<exists>sm. r = Some sm \<and> delivered (p_lib P) msg env sm (writes (s_trace (checkRestartThreshold P t1)))"
  using base_Send_delivered [OF assms] checkRestartThreshold_writes [of P t1] delivered_append by metis

lemma send_loop_delivered:
  assumes "send_loop P left msg env b t = Some (Inr r, b', t')" "bt_DoSend b = Some (doSend P)"
  shows "\<exists>sm. r = Some sm \<and> delivered (p_lib P) msg env sm (writes (s_trace t'))"
  using assms
proof (induction left arbitrary: b t)
  case 0
  from 0(1) show ?case by (cases rule: send_loop_cases) (use base_Send_restart_delivered 0(2) in auto)
next
  case (Suc left)
  from Suc.prems(1) show ?case
  proof (cases rule: send_loop_cases)
    case (1 sm t1)
    with base_Send_restart_delivered Suc.prems(2) show ?thesis by auto
  next
    case (3 err b1 t1 t2 k)
    with Suc.IH [of b1 t2] base_Send_hook [OF 3(1) Suc.prems(2)] show ?thesis by simp
  qed simp
qed

section \<open>Sessions\<close>

text \<open>
  A transport in use: created by \<^verbatim>\<open>NewTransport\<close>, configured by its setters at any time (but
  never with \<^verbatim>\<open>SetAllowPlaintextAuth(true)\<close>), and sent through or closed any number of times.
\<close>

inductive smtp_run :: "peer \<Rightarrow> smtp base_transport \<Rightarrow> smtp \<Rightarrow> bool" for P where
  run_new: "t = NewTransport host port tls \<Longrightarrow> smtp_run P (smtp_base P t) t"
| run_username: "smtp_run P b t \<Longrightarrow> smtp_run P b (SetUsername t u)"
| run_password: "smtp_run P b t \<Longrightarrow> smtp_run P b (SetPassword t u)"
| run_autoTLS: "smtp_run P b t \<Longrightarrow> smtp_run P b (SetAutoTLS t v)"
| run_requireTLS: "smtp_run P b t \<Longrightarrow> smtp_run P b (SetRequireTLS t v)"
| run_noPlaintext: "smtp_run P b t \<Longrightarrow> smtp_run P b (SetAllowPlaintextAuth t False)"
| run_sourceIP: "smtp_run P b t \<Longrightarrow> smtp_run P b (SetSourceIP t ip)"
| run_tlsConfig: "smtp_run P b t \<Longrightarrow> smtp_run P b (SetTLSConfig t c)"
| run_timeout: "smtp_run P b t \<Longrightarrow> smtp_run P b (SetTimeout t d)"
| run_retry: "smtp_run P b t \<Longrightarrow> smtp_run P b (SetRetry t n d)"
| run_authenticators: "smtp_run P b t \<Longrightarrow> smtp_run P b (SetAuthenticators t as)"
| run_restart: "smtp_run P b t \<Longrightarrow> smtp_run P b (SetRestartThreshold t n d)"
| run_ping: "smtp_run P b t \<Longrightarrow> smtp_run P b (SetPingThreshold t n)"
| run_localDomain: "smtp_run P b t \<Longrightarrow> smtp_run P b (SetLocalDomain parseIP t d)"
| run_throttle: "smtp_run P b t \<Longrightarrow> smtp_run P (SetMaxPerSecond b rate) t"
| run_send: "smtp_run P b t \<Longrightarrow> smtp_Send P msg env b t = Some (r, b', t') \<Longrightarrow> smtp_run P b' t'"
| run_close: "smtp_run P b t \<Longrightarrow> smtp_Close P t = (r, t') \<Longrightarrow> smtp_run P b t'"

lemma NewTransport_ok: "smtp_ok (NewTransport host port tls)"
  by (simp add: smtp_ok_def smtp_inv_def level_def NewTransport_def)

lemma smtp_run_ok: "smtp_run P b t \<Longrightarrow> smtp_ok t \<and> bt_DoSend b = Some (doSend P)"
proof (induction rule: smtp_run.induct)
  case (run_new t host port tls)
  then show ?case by (simp add: NewTransport_ok smtp_base_def)
next
  case (run_send b t msg env r b' t')
  then have "session_ok (cfg t) t" by (simp add: session_ok_def)
  with send_loop_ok run_send show ?case unfolding smtp_Send_def session_ok_def by blast
next
  case (run_close b t r t')
  then show ?case using steps_ok [OF stop_conn_steps [of t P]] by (auto simp: smtp_Close_def)
next
  case (run_localDomain b t parseIP d)
  then show ?case by (auto simp: SetLocalDomain_def smtp_ok_def smtp_inv_def level_def)
qed (auto simp: smtp_ok_def smtp_inv_def level_def SetUsername_def SetPassword_def SetAutoTLS_def
      SetRequireTLS_def SetAllowPlaintextAuth_def SetTimeout_def SetSourceIP_def SetTLSConfig_def SetRetry_def SetAuthenticators_def SetRestartThreshold_def
      SetPingThreshold_def SetMaxPerSecond_def Let_def)

section \<open>RequireTLS\<close>


text \<open>Whatever the peer does, the parts of \<^verbatim>\<open>helo\<close> that authenticate do not lower the protection.\<close>

lemma handleAuth_tls:
  assumes "helo_policy P tls t = (None, t')" "s_conn t'" "tls \<Longrightarrow> guarded t" "\<not> s_allowPlaintextAuth t"
  shows "s_usingTLS t' = s_usingTLS t"
  using helo_policy_steps [OF assms(1,3,4)] assms(2) by (simp add: steps_def)

lemma helo_starttls_tls:
  assumes "helo_starttls P t = (None, t')" "\<not> s_allowPlaintextAuth t"
  shows "s_usingTLS t'"
proof -
  obtain x t3 where x: "execute P (''STARTTLS'' @ CRLF) [220] False t = (x, t3)" by fastforce
  obtain y where y: "x = Inr y" using assms(1) x by (cases x) (simp_all add: helo_starttls_def)
  obtain z t4 where z: "startTLS P t3 = (z, t4)" by fastforce
  have zN: "z = None" using assms(1) x y z by (cases z) (simp_all add: helo_starttls_def)
  have conn: "s_conn t3" "s_usingTLS t4" "keeps t3 t4"
    using execute_Inr(2) x y startTLS_keeps z zN by blast+
  obtain v t5 where v: "ehlo P t4 = (v, t5)" by fastforce
  obtain resp where w: "v = Inr resp" using assms(1) x y z zN v by (cases v) (simp_all add: helo_starttls_def)
  let ?u = "t5\<lparr>s_capabilities := parseCapabilities (p_unicode P) resp\<rparr>"
  have pol: "helo_policy P True ?u = (None, t')" using assms(1) x y z zN v w by (simp add: helo_starttls_def)
  have tls: "s_conn ?u" "s_usingTLS ?u" using ehlo_Inr v w conn(2) by auto
  have "keeps t t5"
    using keeps_trans steps_keeps [OF steps_execute_plain [OF x]] conn(3) steps_keeps [OF ehlo_steps [OF v]] by blast
  then have plain: "\<not> s_allowPlaintextAuth ?u" using keeps_plain assms(2) by fastforce
  have "s_usingTLS t' = s_usingTLS ?u"
    by (rule handleAuth_tls [OF pol helo_policy_conn [OF pol tls(1)] _ plain]) (simp add: guarded_def tls)
  with tls show ?thesis by simp
qed

text \<open>
  With \<^verbatim>\<open>SetRequireTLS(true)\<close> a greeting that succeeds has protected the connection, unless the
  server refused EHLO: the HELO fallback does not look at the requirement.
\<close>

lemma helo_requireTLS:
  assumes "helo P t = (None, t')" "s_requireTLS t" "\<not> s_allowPlaintextAuth t"
  shows "s_usingTLS t' \<or> (\<exists>err t1. ehlo P t = (Inl err, t1) \<and> s_capabilities t' = [])"
proof -
  obtain q t1 where e: "ehlo P t = (q, t1)" by fastforce
  have k1: "keeps t t1" using steps_keeps [OF ehlo_steps [OF e]] .
  show ?thesis
  proof (cases q)
    case (Inl err)
    obtain h t2 where h: "execute P (''HELO '' @ s_localDomain t1 @ CRLF) [250] False t1 = (h, t2)" by fastforce
    have "s_capabilities t' = []" using assms(1) e Inl h by (cases h) (auto simp: helo_split)
    with e Inl show ?thesis by blast
  next
    case (Inr resp)
    let ?t = "t1\<lparr>s_capabilities := parseCapabilities (p_unicode P) resp\<rparr>"
    have c: "s_requireTLS ?t" "\<not> s_allowPlaintextAuth ?t" using k1 assms(2,3) by (auto simp: keeps_def cfg_def)
    have conn: "s_conn ?t" using ehlo_Inr e Inr by auto
    have "helo_ehlo P ?t = (None, t')" using assms(1) e Inr by (simp add: helo_split)
    moreover have "s_usingTLS t'" if pol: "helo_policy P (s_usingTLS ?t) ?t = (None, t')"
    proof -
      have up: "s_usingTLS ?t" using pol c(1) by (auto simp: helo_policy_def split: if_splits)
      have "s_usingTLS t' = s_usingTLS ?t"
        by (rule handleAuth_tls [OF pol helo_policy_conn [OF pol conn] _ c(2)]) (simp add: guarded_def)
      with up show ?thesis by simp
    qed
    moreover have "helo_starttls P ?t = (None, t') \<Longrightarrow> s_usingTLS t'" by (rule helo_starttls_tls [OF _ c(2)])
    ultimately show ?thesis unfolding helo_ehlo_def by (metis (full_types))
  qed
qed

end
