(* ===== verification/Smtp_Secrecy.thy ===== *)
theory Smtp_Secrecy
  imports Smtp_Props
begin

text \<open>
  The password and the transcript (\<^verbatim>\<open>transport/smtp/smtp.go\<close>): two runs that differ in the password
  only, against a peer that behaves the same way in both, give the same results, the same
  transcripts and the same errors. The proof relates the two states step by step: they
  are equal up to the password and the contents of the secret writes.
\<close>

section \<open>Two states that differ in the password\<close>

text \<open>What an observer of the trace sees when the contents of secret writes are hidden.\<close>

definition public :: "event list \<Rightarrow> event list" where
  "public = map (\<lambda>ev. case ev of EvWrite s c \<Rightarrow> EvWrite s (if s then [] else c) | _ \<Rightarrow> ev)"

definition vary :: "smtp \<Rightarrow> bytes \<Rightarrow> event list \<Rightarrow> smtp" where
  "vary t pw tr = t\<lparr>s_password := pw, s_trace := tr\<rparr>"

definition twin :: "smtp \<Rightarrow> bytes \<Rightarrow> event list \<Rightarrow> bool" where
  "twin t pw tr \<longleftrightarrow> public tr = public (s_trace t) \<and> (pw = [] \<longleftrightarrow> s_password t = [])"

definition agrees :: "'a \<times> smtp \<Rightarrow> 'a \<times> smtp \<Rightarrow> bool" where
  "agrees p q \<longleftrightarrow> (\<exists>pw tr. q = (fst p, vary (snd p) pw tr) \<and> twin (snd p) pw tr)"

text \<open>
  A peer that behaves the same whatever secrets are written: its answers depend on the public
  part of what happened, and whether a write fails does not depend on what is written.
\<close>

definition blind :: "peer \<Rightarrow> bool" where
  "blind P \<longleftrightarrow> (\<forall>tr tr'. public tr = public tr' \<longrightarrow>
     p_dial P tr = p_dial P tr' \<and> p_tls P tr = p_tls P tr' \<and> (\<forall>c c'. p_write P tr c = p_write P tr' c')
     \<and> p_read P tr = p_read P tr' \<and> p_ctx P tr = p_ctx P tr' \<and> p_ctxDeadline P tr = p_ctxDeadline P tr'
     \<and> p_now P tr = p_now P tr' \<and> p_stamp P tr = p_stamp P tr' \<and> p_sleep P tr = p_sleep P tr' \<and> p_rand P tr = p_rand P tr')"

lemma vary_fields [simp]:
  "s_host (vary t pw tr) = s_host t" "s_port (vary t pw tr) = s_port t" "s_tls (vary t pw tr) = s_tls t"
  "s_username (vary t pw tr) = s_username t" "s_autoTLS (vary t pw tr) = s_autoTLS t"
  "s_requireTLS (vary t pw tr) = s_requireTLS t" "s_allowPlaintextAuth (vary t pw tr) = s_allowPlaintextAuth t"
  "s_localDomain (vary t pw tr) = s_localDomain t" "s_sourceIP (vary t pw tr) = s_sourceIP t" "s_tlsConfig (vary t pw tr) = s_tlsConfig t"
  "s_authenticators (vary t pw tr) = s_authenticators t"
  "s_restartThreshold (vary t pw tr) = s_restartThreshold t" "s_restartThresholdSleep (vary t pw tr) = s_restartThresholdSleep t"
  "s_restartCounter (vary t pw tr) = s_restartCounter t" "s_pingThreshold (vary t pw tr) = s_pingThreshold t"
  "s_retryAttempts (vary t pw tr) = s_retryAttempts t" "s_retryDelay (vary t pw tr) = s_retryDelay t"
  "s_conn (vary t pw tr) = s_conn t" "s_started (vary t pw tr) = s_started t" "s_usingTLS (vary t pw tr) = s_usingTLS t"
  "s_capabilities (vary t pw tr) = s_capabilities t" "s_lastMessageTime (vary t pw tr) = s_lastMessageTime t"
  "s_ioTimeout (vary t pw tr) = s_ioTimeout t" "s_ctxHasDeadline (vary t pw tr) = s_ctxHasDeadline t"
  "s_debug (vary t pw tr) = s_debug t" "s_password (vary t pw tr) = pw"
  by (simp_all add: vary_def)

lemma vary_targets [simp]: "dial_event (vary t pw tr) = dial_event t" "effectiveTLSConfig (vary t pw tr) = effectiveTLSConfig t"
  by (simp_all add: dial_event_def effectiveTLSConfig_def split: option.split)

lemma vary_updates [simp]:
  "(vary t pw tr)\<lparr>s_debug := d\<rparr> = vary (t\<lparr>s_debug := d\<rparr>) pw tr"
  "(vary t pw tr)\<lparr>s_conn := v\<rparr> = vary (t\<lparr>s_conn := v\<rparr>) pw tr"
  "(vary t pw tr)\<lparr>s_started := v\<rparr> = vary (t\<lparr>s_started := v\<rparr>) pw tr"
  "(vary t pw tr)\<lparr>s_usingTLS := v\<rparr> = vary (t\<lparr>s_usingTLS := v\<rparr>) pw tr"
  "(vary t pw tr)\<lparr>s_capabilities := cs\<rparr> = vary (t\<lparr>s_capabilities := cs\<rparr>) pw tr"
  "(vary t pw tr)\<lparr>s_lastMessageTime := tm\<rparr> = vary (t\<lparr>s_lastMessageTime := tm\<rparr>) pw tr"
  "(vary t pw tr)\<lparr>s_ctxHasDeadline := v\<rparr> = vary (t\<lparr>s_ctxHasDeadline := v\<rparr>) pw tr"
  "(vary t pw tr)\<lparr>s_restartCounter := n\<rparr> = vary (t\<lparr>s_restartCounter := n\<rparr>) pw tr"
  "happen ev (vary t pw tr) = vary (happen ev t) pw (tr @ [ev])"
  by (simp_all add: vary_def happen_def)

lemma twin_updates [simp]:
  "twin (t\<lparr>s_debug := d\<rparr>) pw tr = twin t pw tr" "twin (t\<lparr>s_conn := v\<rparr>) pw tr = twin t pw tr"
  "twin (t\<lparr>s_started := v\<rparr>) pw tr = twin t pw tr" "twin (t\<lparr>s_usingTLS := v\<rparr>) pw tr = twin t pw tr"
  "twin (t\<lparr>s_capabilities := cs\<rparr>) pw tr = twin t pw tr" "twin (t\<lparr>s_lastMessageTime := tm\<rparr>) pw tr = twin t pw tr"
  "twin (t\<lparr>s_restartCounter := n\<rparr>) pw tr = twin t pw tr" "twin (t\<lparr>s_ctxHasDeadline := v\<rparr>) pw tr = twin t pw tr"
  by (simp_all add: twin_def)

lemma twin_happen [simp]: "twin t pw tr \<Longrightarrow> twin (happen ev t) pw (tr @ [ev])"
  by (simp add: twin_def happen_def public_def)

lemma twin_happen2 [simp]: "twin t pw tr \<Longrightarrow> twin (happen e2 (happen e1 t)) pw (tr @ [e1, e2])"
  using twin_happen [OF twin_happen, of t pw tr e2 e1] by simp

lemma blind_peer:
  assumes "blind P" "twin t pw tr"
  shows "p_dial P (s_trace (vary t pw tr)) = p_dial P (s_trace t)" "p_tls P (s_trace (vary t pw tr)) = p_tls P (s_trace t)"
    "p_read P (s_trace (vary t pw tr)) = p_read P (s_trace t)" "p_ctx P (s_trace (vary t pw tr)) = p_ctx P (s_trace t)"
    "p_ctxDeadline P (s_trace (vary t pw tr)) = p_ctxDeadline P (s_trace t)" "p_now P (s_trace (vary t pw tr)) = p_now P (s_trace t)"
    "p_stamp P (s_trace (vary t pw tr)) = p_stamp P (s_trace t)" "p_sleep P (s_trace (vary t pw tr)) = p_sleep P (s_trace t)"
    "p_rand P (s_trace (vary t pw tr)) = p_rand P (s_trace t)" "p_write P (s_trace (vary t pw tr)) c = p_write P (s_trace t) c'"
proof -
  have "public (s_trace (vary t pw tr)) = public (s_trace t)" using assms(2) by (simp add: twin_def vary_def)
  then have all: "p_dial P (s_trace (vary t pw tr)) = p_dial P (s_trace t) \<and> p_tls P (s_trace (vary t pw tr)) = p_tls P (s_trace t)
     \<and> (\<forall>c c'. p_write P (s_trace (vary t pw tr)) c = p_write P (s_trace t) c')
     \<and> p_read P (s_trace (vary t pw tr)) = p_read P (s_trace t) \<and> p_ctx P (s_trace (vary t pw tr)) = p_ctx P (s_trace t)
     \<and> p_ctxDeadline P (s_trace (vary t pw tr)) = p_ctxDeadline P (s_trace t) \<and> p_now P (s_trace (vary t pw tr)) = p_now P (s_trace t)
     \<and> p_stamp P (s_trace (vary t pw tr)) = p_stamp P (s_trace t) \<and> p_sleep P (s_trace (vary t pw tr)) = p_sleep P (s_trace t)
     \<and> p_rand P (s_trace (vary t pw tr)) = p_rand P (s_trace t)"
    using assms(1) unfolding blind_def by blast
  then show "p_dial P (s_trace (vary t pw tr)) = p_dial P (s_trace t)" "p_tls P (s_trace (vary t pw tr)) = p_tls P (s_trace t)"
    "p_read P (s_trace (vary t pw tr)) = p_read P (s_trace t)" "p_ctx P (s_trace (vary t pw tr)) = p_ctx P (s_trace t)"
    "p_ctxDeadline P (s_trace (vary t pw tr)) = p_ctxDeadline P (s_trace t)" "p_now P (s_trace (vary t pw tr)) = p_now P (s_trace t)"
    "p_stamp P (s_trace (vary t pw tr)) = p_stamp P (s_trace t)" "p_sleep P (s_trace (vary t pw tr)) = p_sleep P (s_trace t)"
    "p_rand P (s_trace (vary t pw tr)) = p_rand P (s_trace t)" "p_write P (s_trace (vary t pw tr)) c = p_write P (s_trace t) c'"
    by blast+
qed

lemmas blind_facts [simp] = blind_peer(1-9) blind_peer(10) [where c' = c and c = c for c]

section \<open>Composing agreements\<close>

lemma agreesI [intro]: "twin t pw tr \<Longrightarrow> agrees (x, t) (x, vary t pw tr)"
  by (auto simp: agrees_def)

lemma agrees_bind:
  assumes "agrees p q" "\<And>x u pw tr. twin u pw tr \<Longrightarrow> agrees (f x u) (g x (vary u pw tr))"
  shows "agrees (case p of (x, u) \<Rightarrow> f x u) (case q of (x, u) \<Rightarrow> g x u)"
  using assms by (auto simp: agrees_def split: prod.split)

lemma agrees_sum:
  "(\<And>e. agrees (f e) (f' e)) \<Longrightarrow> (\<And>r. agrees (g r) (g' r)) \<Longrightarrow>
    agrees (case x of Inl e \<Rightarrow> f e | Inr r \<Rightarrow> g r) (case x of Inl e \<Rightarrow> f' e | Inr r \<Rightarrow> g' r)"
  by (cases x) auto

lemma agrees_option:
  "agrees a a' \<Longrightarrow> (\<And>r. agrees (g r) (g' r)) \<Longrightarrow>
    agrees (case x of None \<Rightarrow> a | Some r \<Rightarrow> g r) (case x of None \<Rightarrow> a' | Some r \<Rightarrow> g' r)"
  by (cases x) auto

lemma agrees_if: "agrees a a' \<Longrightarrow> agrees b b' \<Longrightarrow> agrees (if c then a else b) (if c then a' else b')"
  by simp

text \<open>Operations that give a state only.\<close>

definition same_state :: "smtp \<Rightarrow> smtp \<Rightarrow> bool" where
  "same_state u v \<longleftrightarrow> (\<exists>pw tr. v = vary u pw tr \<and> twin u pw tr)"

lemma same_stateI [intro]: "twin t pw tr \<Longrightarrow> same_state t (vary t pw tr)"
  by (auto simp: same_state_def)

lemma agrees_same: "agrees p q \<Longrightarrow> same_state (snd p) (snd q)"
  unfolding agrees_def by (elim exE conjE) (simp add: same_stateI)

lemma same_stateE: "same_state u v \<Longrightarrow> (\<And>pw tr. v = vary u pw tr \<Longrightarrow> twin u pw tr \<Longrightarrow> R) \<Longrightarrow> R"
  by (auto simp: same_state_def)

lemma agrees_state: "same_state u v \<Longrightarrow> agrees (x, u) (x, v)"
  by (auto simp: agrees_def same_state_def)

lemma same_happen: "same_state u v \<Longrightarrow> same_state (happen ev u) (happen ev v)"
  by (erule same_stateE) (simp add: same_stateI)

lemma same_peer:
  assumes "blind P" "same_state u v"
  shows "p_dial P (s_trace v) = p_dial P (s_trace u)" "p_tls P (s_trace v) = p_tls P (s_trace u)" "p_ctx P (s_trace v) = p_ctx P (s_trace u)"
    "p_ctxDeadline P (s_trace v) = p_ctxDeadline P (s_trace u)" "now_plus P v = now_plus P u"
    "conn_number (s_trace v) = conn_number (s_trace u)" "s_ioTimeout v = s_ioTimeout u" "s_ctxHasDeadline v = s_ctxHasDeadline u"
    "s_conn v = s_conn u"
proof -
  obtain pw tr where v: "v = vary u pw tr" "twin u pw tr" using assms(2) by (auto simp: same_state_def)
  then show "p_dial P (s_trace v) = p_dial P (s_trace u)" "p_tls P (s_trace v) = p_tls P (s_trace u)" "p_ctx P (s_trace v) = p_ctx P (s_trace u)"
    "p_ctxDeadline P (s_trace v) = p_ctxDeadline P (s_trace u)" "now_plus P v = now_plus P u"
    "s_ioTimeout v = s_ioTimeout u" "s_ctxHasDeadline v = s_ctxHasDeadline u" "s_conn v = s_conn u"
    using assms(1) by (simp_all add: now_plus_def)
  have dials: "conn_number (public es) = conn_number es" for es
    by (induction es) (auto simp: public_def conn_number_def split: event.splits)
  have "public tr = public (s_trace u)" "s_trace v = tr" using v by (simp_all add: twin_def vary_def)
  then show "conn_number (s_trace v) = conn_number (s_trace u)" by (metis dials)
qed

lemma bindConnectionContext_same:
  assumes "blind P" "same_state u v"
  shows "same_state (bindConnectionContext P u) (bindConnectionContext P v)"
  unfolding bindConnectionContext_def Let_def same_peer [OF assms]
  by (auto intro!: same_happen assms(2) split: option.split)

lemma cleanupContext_same: "same_state u v \<Longrightarrow> same_state (cleanupContext c u) (cleanupContext c v)"
  by (auto simp: cleanupContext_def intro!: same_happen split: option.split)

lemma refreshIOTimeout_same:
  assumes "blind P" "same_state u v"
  shows "same_state (refreshIOTimeout P u) (refreshIOTimeout P v)"
  unfolding refreshIOTimeout_def same_peer [OF assms] by (auto intro!: same_happen assms(2))

lemma bind_agrees:
  assumes "blind P" "same_state u v"
  shows "agrees (bindCurrentConnectionContext P u) (bindCurrentConnectionContext P v)"
  unfolding bindCurrentConnectionContext_def same_peer [OF assms]
  using bindConnectionContext_same [OF assms] assms(2) by (auto intro!: agrees_state)

lemmas agrees_rules = agrees_bind agrees_sum agrees_option agrees_if agreesI

section \<open>The wire\<close>

lemma recordDebug_vary [simp]:
  "blind P \<Longrightarrow> twin t pw tr \<Longrightarrow> recordDebug P dir l (vary t pw tr) = vary (recordDebug P dir l t) pw tr"
  by (simp add: recordDebug_def)

lemma twin_recordDebug [simp]: "twin (recordDebug P dir l t) pw tr = twin t pw tr"
  by (simp add: recordDebug_def)

lemma terminate_vary:
  assumes "twin t pw tr"
  shows "\<exists>tr'. terminate (vary t pw tr) = vary (terminate t) pw tr' \<and> twin (terminate t) pw tr'"
  using assms by (intro exI [of _ "if s_conn t then tr @ [EvClose] else tr"]) (simp add: terminate_def)

lemma agrees_terminate: "twin t pw tr \<Longrightarrow> agrees (x, terminate t) (x, terminate (vary t pw tr))"
  using terminate_vary [of t pw tr] by (auto simp: agrees_def)

lemma contextErr_vary [simp]: "blind P \<Longrightarrow> twin t pw tr \<Longrightarrow> contextErr P (vary t pw tr) e = contextErr P t e"
  by (simp add: contextErr_def split: option.split)

lemma readResponse_agrees:
  "blind P \<Longrightarrow> twin t pw tr \<Longrightarrow> agrees (readResponse P acc t) (readResponse P acc (vary t pw tr))"
proof (induction P acc t arbitrary: pw tr rule: readResponse.induct)
  case (1 P acc t)
  obtain line err where r: "p_read P (s_trace t) = (line, err)" by fastforce
  define u where "u = (if line \<noteq> [] then recordDebug P ''<'' line (happen EvRead t) else happen EvRead t)"
  have u: "(if line \<noteq> [] then recordDebug P ''<'' line (happen EvRead (vary t pw tr)) else happen EvRead (vary t pw tr))
      = vary u pw (tr @ [EvRead])" "twin u pw (tr @ [EvRead])"
    using 1(2,3) by (simp_all add: u_def)
  have r': "p_read P (s_trace (vary t pw tr)) = (line, err)" using 1(2,3) r by simp
  let ?k = "\<lambda>u. if maxResponseSize < length (acc @ line) then
          (Inl (NewTransportError ''SMTP response exceeded the maximum allowed size''), u)
        else case err of
          Some e \<Rightarrow> (Inl (read_error_text e), u)
        | None \<Rightarrow>
            if length line < 4 \<or> line ! 3 \<noteq> CHR ''-'' then (Inr (acc @ line), u)
            else readResponse P (acc @ line) u"
  have k: "readResponse P acc t = ?k u" "readResponse P acc (vary t pw tr) = ?k (vary u pw (tr @ [EvRead]))"
    by (subst readResponse.simps, simp only: r r' prod.case Let_def u_def [symmetric] u(1))+
  show ?case unfolding k
  proof (cases "maxResponseSize < length (acc @ line)")
    case small: False
    show "agrees (?k u) (?k (vary u pw (tr @ [EvRead])))"
    proof (cases err)
      case None
      note err = this
      show ?thesis
      proof (cases "length line < 4 \<or> line ! 3 \<noteq> CHR ''-''")
        case False
        have "agrees (readResponse P (acc @ line) u) (readResponse P (acc @ line) (vary u pw (tr @ [EvRead])))"
          using 1(1) [OF r [symmetric] refl _ refl small err False, of u] 1(2) u(2) u_def by simp
        with small err False show ?thesis by simp
      qed (use small None u(2) in auto)
    qed (use small u(2) in auto)
  qed (use u(2) in auto)
qed

lemma execute_agrees:
  assumes "blind P" "twin t pw tr" "if redact then redactCommand (p_unicode P) c = redactCommand (p_unicode P) c' else c = c'"
  shows "agrees (execute P c codes redact t) (execute P c' codes redact (vary t pw tr))"
proof (cases "s_conn t")
  case True
  define shown where "shown = (if redact then redactCommand (p_unicode P) c else c)"
  have shown': "shown = (if redact then redactCommand (p_unicode P) c' else c')" using assms(3) by (simp add: shown_def split: if_splits)
  obtain pw2 tr2 where r2: "refreshIOTimeout P (vary t pw tr) = vary (refreshIOTimeout P t) pw2 tr2" "twin (refreshIOTimeout P t) pw2 tr2"
    using refreshIOTimeout_same [OF assms(1) same_stateI [OF assms(2)]] by (auto simp: same_state_def)
  define u where "u = recordDebug P ''>'' shown (refreshIOTimeout P t)"
  have rd: "recordDebug P ''>'' shown (refreshIOTimeout P (vary t pw tr)) = vary u pw2 tr2" and tu: "twin u pw2 tr2"
    using assms(1) r2(2) by (simp_all add: r2(1) u_def)
  define v where "v = happen (EvWrite redact c) u"
  have v: "happen (EvWrite redact c') (vary u pw2 tr2) = vary v pw2 (tr2 @ [EvWrite redact c'])" "twin v pw2 (tr2 @ [EvWrite redact c'])"
    using assms(3) tu by (auto simp: v_def twin_def happen_def public_def vary_def)
  have w: "p_write P (s_trace (vary u pw2 tr2)) c' = p_write P (s_trace u) c" by (rule blind_peer(10) [OF assms(1) tu])
  have e: "execute P c codes redact t =
      (case p_write P (s_trace u) c of
          Some e \<Rightarrow> (Inl (NewTransportError (''unable to write bytes on the wire: '' @ e)), terminate v)
        | None \<Rightarrow> (case readResponse P [] v of
               (Inl err, t) \<Rightarrow> (Inl err, terminate t)
             | (Inr resp, t) \<Rightarrow> (assertResponse2 (p_unicode P) resp codes, t)))"
    using True by (simp only: execute_def Let_def shown_def [symmetric] u_def [symmetric] v_def [symmetric] not_True_eq_False if_False)
  have e': "execute P c' codes redact (vary t pw tr) =
      (case p_write P (s_trace u) c of
          Some e \<Rightarrow> (Inl (NewTransportError (''unable to write bytes on the wire: '' @ e)), terminate (vary v pw2 (tr2 @ [EvWrite redact c'])))
        | None \<Rightarrow> (case readResponse P [] (vary v pw2 (tr2 @ [EvWrite redact c'])) of
               (Inl err, t) \<Rightarrow> (Inl err, terminate t)
             | (Inr resp, t) \<Rightarrow> (assertResponse2 (p_unicode P) resp codes, t)))"
    using True by (simp only: execute_def Let_def shown' [symmetric] rd v(1) w vary_fields not_True_eq_False if_False)
  show ?thesis unfolding e e'
    by (intro agrees_rules agrees_terminate readResponse_agrees v(2) assms(1))
qed (use assms(2) in \<open>simp add: execute_def agreesI\<close>)

lemma execute_same:
  "blind P \<Longrightarrow> twin t pw tr \<Longrightarrow> agrees (execute P c codes False t) (execute P c codes False (vary t pw tr))"
  by (rule execute_agrees) simp_all

section \<open>Session setup\<close>

lemma same_up: "same_state u v \<Longrightarrow> same_state (u\<lparr>s_conn := a, s_usingTLS := b\<rparr>) (v\<lparr>s_conn := a, s_usingTLS := b\<rparr>)"
  "same_state u v \<Longrightarrow> same_state (u\<lparr>s_usingTLS := b\<rparr>) (v\<lparr>s_usingTLS := b\<rparr>)"
  by (erule same_stateE, simp add: same_stateI)+

lemma connect_agrees: "blind P \<Longrightarrow> twin t pw tr \<Longrightarrow> agrees (connect P t) (connect P (vary t pw tr))"
proof -
  assume b: "blind P" "twin t pw tr"
  let ?v = "vary t pw tr"
  have d: "same_state (happen (dial_event t) t) (happen (dial_event t) ?v)" using b(2) by (auto intro: same_happen)
  note s = d bindConnectionContext_same [OF b(1) d] same_happen [OF bindConnectionContext_same [OF b(1) d], of "EvHandshake (effectiveTLSConfig t)"]
    same_happen [OF same_happen [OF bindConnectionContext_same [OF b(1) d], of "EvHandshake (effectiveTLSConfig t)"], of EvClose]
  note p = same_peer [OF b(1) same_stateI [OF b(2)]] same_peer [OF b(1) s(1)] same_peer [OF b(1) s(3)] same_peer [OF b(1) s(4)]
  show ?thesis unfolding connect_def Let_def vary_fields vary_targets p
    by (intro agrees_option agrees_if agrees_state cleanupContext_same same_up same_happen s)
qed

lemma startTLS_agrees: "blind P \<Longrightarrow> twin t pw tr \<Longrightarrow> agrees (startTLS P t) (startTLS P (vary t pw tr))"
proof -
  assume b: "blind P" "twin t pw tr"
  have step: "agrees
      (let t' = happen (EvHandshake (effectiveTLSConfig u)) u in case p_tls P (s_trace t') of
         Some e \<Rightarrow> (case p_ctx P (s_trace t') of Some err \<Rightarrow> (Some err, cleanupContext c t')
            | None \<Rightarrow> (Some (NewTransportError (''unable to connect with STARTTLS: '' @ e)), cleanupContext c t'))
       | None \<Rightarrow> (None, cleanupContext c ((happen EvTLS t')\<lparr>s_usingTLS := True\<rparr>)))
      (let t' = happen (EvHandshake (effectiveTLSConfig (vary u pw tr))) (vary u pw tr) in case p_tls P (s_trace t') of
         Some e \<Rightarrow> (case p_ctx P (s_trace t') of Some err \<Rightarrow> (Some err, cleanupContext c t')
            | None \<Rightarrow> (Some (NewTransportError (''unable to connect with STARTTLS: '' @ e)), cleanupContext c t'))
       | None \<Rightarrow> (None, cleanupContext c ((happen EvTLS t')\<lparr>s_usingTLS := True\<rparr>)))" if "twin u pw tr" for c u pw tr
  proof -
    have h: "same_state (happen (EvHandshake (effectiveTLSConfig u)) u) (happen (EvHandshake (effectiveTLSConfig u)) (vary u pw tr))" using that by (auto intro: same_happen)
    show ?thesis unfolding Let_def vary_targets same_peer [OF b(1) same_stateI [OF that]] same_peer [OF b(1) h]
      by (intro agrees_option agrees_state cleanupContext_same same_up same_happen h)
  qed
  show ?thesis unfolding startTLS_def
    by (rule agrees_bind [OF bind_agrees [OF b(1) same_stateI [OF b(2)]]]) (rule step)
qed

lemma EncodeToString_empty: "EncodeToString y = [] \<longleftrightarrow> y = []"
  by (cases y rule: EncodeToString.cases) auto

lemma redact_encoded: "redactCommand U (EncodeToString x @ CRLF) = redactedToken @ CRLF"
proof (cases "x = []")
  case True
  then show ?thesis by (simp add: redactCommand_def TrimRight_def ToUpper_def HasPrefix_def isASCII_def)
next
  case False
  then show ?thesis using EncodeToString_plain by (intro redact_line) (auto simp: EncodeToString_empty)
qed

lemma redact_plain_cred: "redactCommand U (''AUTH PLAIN '' @ plain_cred t @ CRLF) = ''AUTH PLAIN '' @ redactedToken @ CRLF"
  unfolding plain_cred_def by (rule redact_plain) (use EncodeToString_plain in \<open>auto simp: EncodeToString_empty\<close>)

lemma Authenticate_agrees: "blind P \<Longrightarrow> twin t pw tr \<Longrightarrow> agrees (Authenticate P a t) (Authenticate P a (vary t pw tr))"
proof (cases a)
  case PlainAuthenticator
  assume b: "blind P" "twin t pw tr"
  show ?thesis unfolding PlainAuthenticator Authenticate.simps
    by (intro agrees_rules execute_agrees b) (simp only: redact_plain_cred if_True)
next
  case LoginAuthenticator
  assume b: "blind P" "twin t pw tr"
  show ?thesis unfolding LoginAuthenticator Authenticate.simps
    by (intro agrees_rules execute_same execute_agrees b) (simp_all add: redact_encoded)
next
  case CramMD5Authenticator
  assume b: "blind P" "twin t pw tr"
  then have p: "pw = [] \<longleftrightarrow> s_password t = []" by (simp add: twin_def)
  show ?thesis unfolding CramMD5Authenticator Authenticate.simps vary_fields p Let_def
    by (intro agrees_rules execute_same execute_agrees b) (simp_all add: redact_encoded)
qed

lemma auth_loop_agrees:
  "blind P \<Longrightarrow> twin t pw tr \<Longrightarrow>
    agrees (auth_loop P advertised as lastCode names errs t) (auth_loop P advertised as lastCode names errs (vary t pw tr))"
proof (induction as arbitrary: lastCode names errs t pw tr)
  case (Cons a as)
  show ?case unfolding auth_loop.simps
    by (intro agrees_if agrees_bind agrees_option agreesI Cons.IH Authenticate_agrees execute_same Cons.prems(1) | rule Cons.prems(2) | assumption)+
qed (simp add: agreesI)

lemma handleAuth_agrees: "blind P \<Longrightarrow> twin t pw tr \<Longrightarrow> agrees (handleAuth P modes t) (handleAuth P modes (vary t pw tr))"
  unfolding handleAuth_def vary_fields
  by (intro agrees_rules auth_loop_agrees)

lemma ehlo_agrees: "blind P \<Longrightarrow> twin t pw tr \<Longrightarrow> agrees (ehlo P t) (ehlo P (vary t pw tr))"
  unfolding ehlo_def vary_fields by (rule execute_same)

lemma agrees_contextErr:
  "blind P \<Longrightarrow> twin t pw tr \<Longrightarrow> agrees (Some (contextErr P t e), t) (Some (contextErr P (vary t pw tr) e), vary t pw tr)"
  by (simp add: agreesI)

lemma helo_policy_agrees:
  "blind P \<Longrightarrow> twin t pw tr \<Longrightarrow> agrees (helo_policy P tls t) (helo_policy P tls (vary t pw tr))"
  unfolding helo_policy_def vary_fields
  by (intro agrees_if agrees_option agreesI agrees_bind handleAuth_agrees agrees_contextErr)

lemma helo_agrees: "blind P \<Longrightarrow> twin t pw tr \<Longrightarrow> agrees (helo P t) (helo P (vary t pw tr))"
  unfolding helo_def Let_def
  apply (rule agrees_bind, rule ehlo_agrees, assumption, assumption)
  apply (rule agrees_sum)
   apply (simp only: vary_fields vary_updates)
   apply (rule agrees_bind, rule execute_same, assumption, assumption)
   apply (rule agrees_sum, rule agrees_contextErr, assumption, assumption)
   apply (simp add: agreesI)
  apply (simp only: vary_fields vary_updates)
  apply (rule agrees_if)
   apply (rule agrees_bind, rule execute_same, assumption, simp)
   apply (rule agrees_sum, rule agrees_contextErr, assumption, assumption)
   apply (rule agrees_bind, rule startTLS_agrees, assumption, assumption)
   apply (rule agrees_option)
    apply (rule agrees_bind, rule ehlo_agrees, assumption, assumption)
    apply (rule agrees_sum, rule agrees_contextErr, assumption, assumption)
    apply (simp only: vary_updates)
    apply (rule helo_policy_agrees, assumption, simp)
   apply (rule agreesI, assumption)
  apply (rule helo_policy_agrees, assumption, simp)
  done

lemma greet_agrees: "blind P \<Longrightarrow> twin t pw tr \<Longrightarrow> agrees (greet P t) (greet P (vary t pw tr))"
proof -
  assume b: "blind P" "twin t pw tr"
  have fail: "agrees (Some (contextErr P (terminate u) e), terminate u)
      (Some (contextErr P (terminate (vary u pw tr)) e), terminate (vary u pw tr))" if "twin u pw tr" for u pw tr e
    using terminate_vary [OF that] b(1) by (auto simp: agreesI)
  have up: "agrees (None, u\<lparr>s_started := True, s_lastMessageTime := zero_time\<rparr>)
      (None, (vary u pw tr)\<lparr>s_started := True, s_lastMessageTime := zero_time\<rparr>)" if "twin u pw tr" for u pw tr
    using that by (simp add: agreesI)
  show ?thesis unfolding greet_def Let_def vary_fields
    by (intro agrees_bind agrees_sum agrees_option readResponse_agrees helo_agrees agreesI fail up b)
qed

lemma agrees_cleanup: "twin u pw tr \<Longrightarrow> agrees (x, cleanupContext c u) (x, cleanupContext c (vary u pw tr))"
  by (intro agrees_state cleanupContext_same same_stateI)

lemma start_agrees: "blind P \<Longrightarrow> twin t pw tr \<Longrightarrow> agrees (start P t) (start P (vary t pw tr))"
  unfolding start_def vary_fields
  by (intro agrees_if agrees_bind agrees_option connect_agrees bind_agrees greet_agrees agrees_cleanup agreesI same_stateI)

section \<open>Transactions\<close>

lemma mailFrom_agrees: "blind P \<Longrightarrow> twin t pw tr \<Longrightarrow> agrees (mailFrom P a utf8 t) (mailFrom P a utf8 (vary t pw tr))"
  unfolding mailFrom_def vary_fields by (intro agrees_rules execute_same)

lemma rcptTo_agrees: "blind P \<Longrightarrow> twin t pw tr \<Longrightarrow> agrees (rcptTo P a t) (rcptTo P a (vary t pw tr))"
  unfolding rcptTo_def vary_fields by (intro agrees_rules execute_same)

lemma rcpt_loop_agrees: "blind P \<Longrightarrow> twin t pw tr \<Longrightarrow> agrees (rcpt_loop P rs t) (rcpt_loop P rs (vary t pw tr))"
proof (induction rs arbitrary: t pw tr)
  case (Cons r rs)
  then show ?case unfolding rcpt_loop.simps by (intro agrees_rules rcptTo_agrees Cons.IH)
qed (simp add: agreesI)

lemma writeData_agrees: "blind P \<Longrightarrow> twin t pw tr \<Longrightarrow> agrees (writeData P d t) (writeData P d (vary t pw tr))"
  using agrees_terminate [OF twin_happen] unfolding writeData_def Let_def by (auto intro!: agreesI split: option.split)

lemma transaction_agrees:
  "blind P \<Longrightarrow> twin t pw tr \<Longrightarrow> agrees (transaction P env raw t) (transaction P env raw (vary t pw tr))"
  unfolding transaction_def
  by (intro agrees_rules mailFrom_agrees rcpt_loop_agrees execute_same writeData_agrees)

lemma same_terminate: "same_state u v \<Longrightarrow> same_state (terminate u) (terminate v)"
  unfolding same_state_def using terminate_vary by blast

lemma stop_conn_same: "blind P \<Longrightarrow> same_state u v \<Longrightarrow> same_state (stop_conn P u) (stop_conn P v)"
  unfolding same_state_def [of u v] stop_conn_def
  using same_terminate [OF agrees_same [OF execute_same]] by auto

lemma ping_same: "blind P \<Longrightarrow> same_state u v \<Longrightarrow> same_state (ping P u) (ping P v)"
proof -
  assume b: "blind P" "same_state u v"
  then obtain pw tr where v: "v = vary u pw tr" "twin u pw tr" by (auto simp: same_state_def)
  obtain r u1 pw1 tr1 where "execute P (''NOOP'' @ CRLF) [250] False u = (r, u1)"
    "execute P (''NOOP'' @ CRLF) [250] False v = (r, vary u1 pw1 tr1)" "twin u1 pw1 tr1"
    using execute_same [OF b(1) v(2), of "''NOOP'' @ CRLF" "[250]"] v(1) by (auto simp: agrees_def) (metis prod.collapse)
  then show ?thesis using v stop_conn_same [OF b(1) same_stateI] by (cases r) (auto simp: ping_def)
qed

section \<open>Sending\<close>

text \<open>The same for results that may be missing (a panic) and carry a second value.\<close>

definition agrees3 :: "('a \<times> 'b \<times> smtp) option \<Rightarrow> ('a \<times> 'b \<times> smtp) option \<Rightarrow> bool" where
  "agrees3 p q \<longleftrightarrow> (case p of None \<Rightarrow> q = None
     | Some (x, y, u) \<Rightarrow> \<exists>pw tr. q = Some (x, y, vary u pw tr) \<and> twin u pw tr)"

lemma agrees3_None [simp]: "agrees3 None None"
  by (simp add: agrees3_def)

lemma agrees3I: "same_state u v \<Longrightarrow> agrees3 (Some (x, y, u)) (Some (x, y, v))"
  by (auto simp: agrees3_def same_state_def)

lemma agrees3_cases:
  assumes "agrees3 p q"
  obtains "p = None" "q = None"
  | x y u pw tr where "p = Some (x, y, u)" "q = Some (x, y, vary u pw tr)" "twin u pw tr"
  using assms by (auto simp: agrees3_def split: option.splits)

lemma agrees3_bind:
  assumes "agrees p q" "\<And>x u pw tr. twin u pw tr \<Longrightarrow> agrees3 (f x u) (g x (vary u pw tr))"
  shows "agrees3 (case p of (x, u) \<Rightarrow> f x u) (case q of (x, u) \<Rightarrow> g x u)"
  using assms by (auto simp: agrees_def split: prod.split)

lemma agrees3_sum:
  "(\<And>e. agrees3 (f e) (f' e)) \<Longrightarrow> (\<And>r. agrees3 (g r) (g' r)) \<Longrightarrow>
    agrees3 (case x of Inl e \<Rightarrow> f e | Inr r \<Rightarrow> g r) (case x of Inl e \<Rightarrow> f' e | Inr r \<Rightarrow> g' r)"
  by (cases x) auto

lemma agrees3_option:
  "agrees3 a a' \<Longrightarrow> (\<And>r. agrees3 (g r) (g' r)) \<Longrightarrow>
    agrees3 (case x of None \<Rightarrow> a | Some r \<Rightarrow> g r) (case x of None \<Rightarrow> a' | Some r \<Rightarrow> g' r)"
  by (cases x) auto

lemma fail_send_agrees: "blind P \<Longrightarrow> twin t pw tr \<Longrightarrow> agrees (fail_send P err t) (fail_send P err (vary t pw tr))"
  by (auto simp: fail_send_def appendErrDebug_def Let_def intro!: agreesI)

lemma drainDebug_agrees: "twin t pw tr \<Longrightarrow> agrees (drainDebug t) (drainDebug (vary t pw tr))"
  by (simp add: drainDebug_def agreesI)

lemma ping_idle_same:
  assumes "blind P" "twin t pw tr"
  shows "same_state (ping_idle P t) (ping_idle P (vary t pw tr))"
  using assms ping_same [OF assms(1) same_stateI [OF assms(2)]] by (auto simp: ping_idle_def)

lemma mail_agrees:
  assumes b: "blind P" "twin t pw tr"
  shows "agrees3 (mail P sm t) (mail P sm (vary t pw tr))"
proof -
  have stamp: "agrees3 (Some (x, y, u\<lparr>s_lastMessageTime := p_now P (s_trace u)\<rparr>))
      (Some (x, y, (vary u pw tr)\<lparr>s_lastMessageTime := p_now P (s_trace (vary u pw tr))\<rparr>))" if "twin u pw tr" for x y u pw tr
    using that b(1) by (intro agrees3I) (simp add: same_stateI)
  show ?thesis unfolding mail_def Let_def
    by (intro agrees3_bind agrees3_sum agrees3_option transaction_agrees fail_send_agrees drainDebug_agrees
        agrees3I same_stateI stamp agrees3_None b)
qed

lemma agrees3_cleanup:
  assumes "agrees3 p q"
  shows "agrees3 (map_option (\<lambda>(r, sm, t). (r, sm, cleanupContext c t)) p) (map_option (\<lambda>(r, sm, t). (r, sm, cleanupContext c t)) q)"
  using assms by (cases rule: agrees3_cases) (auto intro!: agrees3I cleanupContext_same same_stateI)

lemma start_idle_agrees:
  assumes "blind P" "twin t pw tr"
  shows "agrees (start P (ping_idle P t)) (start P (ping_idle P (vary t pw tr)))"
  using ping_idle_same [OF assms] start_agrees [OF assms(1)] unfolding same_state_def by force

lemma doSend_agrees:
  assumes b: "blind P" "twin t pw tr"
  shows "agrees3 (doSend P sm t) (doSend P sm (vary t pw tr))"
proof -
  let ?t = "t\<lparr>s_debug := [], s_ctxHasDeadline := p_ctxDeadline P (s_trace t) \<noteq> None\<rparr>"
  have c: "agrees (bindCurrentConnectionContext P ?t) (bindCurrentConnectionContext P (vary ?t pw tr))"
    using b by (intro bind_agrees same_stateI) simp_all
  have rest: "agrees3
      (case bindCurrentConnectionContext P (cleanupContext c u) of
         (c, t) \<Rightarrow> map_option (\<lambda>(r, sm, t). (r, sm, cleanupContext c t)) (mail P sm t))
      (case bindCurrentConnectionContext P (cleanupContext c (vary u pw tr)) of
         (c, t) \<Rightarrow> map_option (\<lambda>(r, sm, t). (r, sm, cleanupContext c t)) (mail P sm t))" if "twin u pw tr" for c u pw tr
    by (rule agrees3_bind [OF bind_agrees [OF b(1) cleanupContext_same [OF same_stateI [OF that]]]])
       (intro agrees3_cleanup mail_agrees b(1))
  have eq: "doSend P sm u = (case bindCurrentConnectionContext P (u\<lparr>s_debug := [], s_ctxHasDeadline := p_ctxDeadline P (s_trace u) \<noteq> None\<rparr>) of
      (c, t) \<Rightarrow> (case start P (ping_idle P t) of
            (Some err, t) \<Rightarrow> Some (Some err, sm, cleanupContext c t)
          | (None, t) \<Rightarrow>
              (case bindCurrentConnectionContext P (cleanupContext c t) of
                 (c, t) \<Rightarrow> map_option (\<lambda>(r, sm, t). (r, sm, cleanupContext c t)) (mail P sm t))))" for u
    by (simp add: doSend_def)
  have v: "(vary t pw tr)\<lparr>s_debug := [], s_ctxHasDeadline := p_ctxDeadline P (s_trace (vary t pw tr)) \<noteq> None\<rparr> = vary ?t pw tr"
    using b by simp
  show ?thesis unfolding eq v
    by (rule agrees3_bind [OF c], rule agrees3_bind [OF start_idle_agrees [OF b(1)]], assumption, rule agrees3_option [OF rest])
       (auto intro!: agrees3I cleanupContext_same same_stateI)
qed

text \<open>The base transport over the conversation.\<close>

lemma NewSentMessage_agrees:
  assumes "blind P" "twin t pw tr"
  shows "agrees (NewSentMessage (smtp_sys P) msg env t) (NewSentMessage (smtp_sys P) msg env (vary t pw tr))"
proof -
  have sys: "rand_stream (smtp_sys P) (vary t pw tr) = rand_stream (smtp_sys P) t" "Now (smtp_sys P) (vary t pw tr) = Now (smtp_sys P) t"
    "sys_lib (smtp_sys P) = p_lib P" using assms by (simp_all add: smtp_sys_def)
  have used: "agrees (x, rand_used (smtp_sys P) n t) (x, rand_used (smtp_sys P) n (vary t pw tr))" for x n
    using assms(2) by (simp add: smtp_sys_def agreesI)
  show ?thesis unfolding NewSentMessage_def Let_def sys
    using assms(2) used by (auto split: raw_message.split option.split prod.split sum.split intro!: agreesI)
qed

lemma checkThrottling_agrees:
  assumes "blind P" "twin t pw tr"
  shows "agrees3 (Some (checkThrottling (smtp_sys P) b t)) (Some (checkThrottling (smtp_sys P) b (vary t pw tr)))"
  using assms
  by (auto simp: checkThrottling_def smtp_sys_def now_nanos_def Let_def intro!: agrees3I same_stateI split: option.split)

lemma base_Send_agrees:
  assumes b: "blind P" "twin t pw tr" and d: "bt_DoSend b = Some (doSend P)"
  shows "agrees3 (base_Send (smtp_sys P) b msg env t) (base_Send (smtp_sys P) b msg env (vary t pw tr))"
proof -
  have sys: "ctx_Err (smtp_sys P) (vary t pw tr) = ctx_Err (smtp_sys P) t" using b by (simp add: smtp_sys_def)
  have hook: "agrees3
      (case doSend P sm u of None \<Rightarrow> None
         | Some (Some err, sm, w) \<Rightarrow> Some (Inl (wrapTransportError err), b1, w) | Some (None, sm, w) \<Rightarrow> Some (Inr (Some sm), b1, w))
      (case doSend P sm (vary u pw tr) of None \<Rightarrow> None
         | Some (Some err, sm, w) \<Rightarrow> Some (Inl (wrapTransportError err), b1, w) | Some (None, sm, w) \<Rightarrow> Some (Inr (Some sm), b1, w))"
    if "twin u pw tr" for sm u pw tr b1
  proof (cases rule: agrees3_cases [OF doSend_agrees [OF b(1) that, of sm]])
    case (2 e y v pw1 tr1)
    then show ?thesis by (cases e) (simp_all add: agrees3I same_stateI)
  qed simp
  have throttled: "agrees3
      (case checkThrottling (smtp_sys P) b u of
          (Some err, b, w) \<Rightarrow> Some (Inl err, b, w)
        | (None, b, w) \<Rightarrow> (case doSend P sm w of None \<Rightarrow> None
            | Some (Some err, sm, w) \<Rightarrow> Some (Inl (wrapTransportError err), b, w) | Some (None, sm, w) \<Rightarrow> Some (Inr (Some sm), b, w)))
      (case checkThrottling (smtp_sys P) b (vary u pw tr) of
          (Some err, b, w) \<Rightarrow> Some (Inl err, b, w)
        | (None, b, w) \<Rightarrow> (case doSend P sm w of None \<Rightarrow> None
            | Some (Some err, sm, w) \<Rightarrow> Some (Inl (wrapTransportError err), b, w) | Some (None, sm, w) \<Rightarrow> Some (Inr (Some sm), b, w)))"
    if "twin u pw tr" for sm u pw tr
  proof -
    obtain e b1 u1 where c: "checkThrottling (smtp_sys P) b u = (e, b1, u1)" by (metis prod_cases3)
    with checkThrottling_agrees [OF b(1) that, of b] obtain pw1 tr1
      where c': "checkThrottling (smtp_sys P) b (vary u pw tr) = (e, b1, vary u1 pw1 tr1)" "twin u1 pw1 tr1" by (auto simp: agrees3_def)
    show ?thesis
    proof (cases e)
      case None
      with c c' hook [OF c'(2)] show ?thesis by simp
    next
      case (Some err)
      with c c' show ?thesis by (simp add: agrees3I same_stateI)
    qed
  qed
  show ?thesis unfolding base_Send_def Let_def sys d option.case
    by (rule agrees3_option [OF _ agrees3I])
       (auto intro!: agrees3I same_stateI agrees3_sum agrees3_bind NewSentMessage_agrees throttled b split: option.split)
qed

lemma waitForRetry_agrees: "blind P \<Longrightarrow> twin t pw tr \<Longrightarrow> agrees (waitForRetry P d t) (waitForRetry P d (vary t pw tr))"
  unfolding waitForRetry_def Let_def by (auto intro!: agreesI split: option.split)

lemma after_failure_same:
  "blind P \<Longrightarrow> twin t pw tr \<Longrightarrow> same_state (after_failure P err retry t) (after_failure P err retry (vary t pw tr))"
proof -
  assume b: "blind P" "twin t pw tr"
  obtain r u1 pw1 tr1 where "execute P (''RSET'' @ CRLF) [250] False t = (r, u1)"
    "execute P (''RSET'' @ CRLF) [250] False (vary t pw tr) = (r, vary u1 pw1 tr1)" "twin u1 pw1 tr1"
    using execute_same [OF b, of "''RSET'' @ CRLF" "[250]"] by (auto simp: agrees_def) (metis prod.collapse)
  then show ?thesis using b same_terminate [OF same_stateI] by (cases r) (auto simp: after_failure_def)
qed

lemma checkRestartThreshold_same:
  assumes b: "blind P" "twin t pw tr"
  shows "same_state (checkRestartThreshold P t) (checkRestartThreshold P (vary t pw tr))"
proof -
  let ?c = "t\<lparr>s_restartCounter := s_restartCounter t + 1\<rparr>"
  have "same_state (stop_conn P ?c) (stop_conn P (vary ?c pw tr))" using b by (intro stop_conn_same) auto
  then obtain pw' tr' where "stop_conn P (vary ?c pw tr) = vary (stop_conn P ?c) pw' tr'" "twin (stop_conn P ?c) pw' tr'"
    unfolding same_state_def by blast
  then show ?thesis using b by (auto simp: checkRestartThreshold_def Let_def intro!: same_stateI)
qed

text \<open>Up to the password, two runs of \<^verbatim>\<open>Send\<close> are the same run.\<close>

lemma send_loop_agrees:
  assumes "blind P" "twin t pw tr" "bt_DoSend b = Some (doSend P)"
  shows "agrees3 (send_loop P left msg env b t) (send_loop P left msg env b (vary t pw tr))"
  using assms(2,3)
proof (induction left arbitrary: b t pw tr rule: less_induct)
  case (less left)
  show ?case
  proof (cases rule: agrees3_cases [OF base_Send_agrees [OF assms(1) less.prems, of msg env]])
    case 1
    then show ?thesis by (subst (1 2) send_loop.simps) simp
  next
    case (2 r b1 u pw1 tr1)
    show ?thesis
    proof (cases r)
      case (Inr sm)
      with 2 show ?thesis
        using checkRestartThreshold_same [OF assms(1) 2(3)] by (subst (1 2) send_loop.simps) (simp add: agrees3I)
    next
      case (Inl err)
      let ?retry = "isTransientSMTPError err \<and> 0 < left"
      obtain v pw2 tr2 where v: "after_failure P err ?retry u = v" "after_failure P err ?retry (vary u pw1 tr1) = vary v pw2 tr2"
        "twin v pw2 tr2" using after_failure_same [OF assms(1) 2(3)] unfolding same_state_def by blast
      have hook: "bt_DoSend b1 = Some (doSend P)" by (rule base_Send_hook [OF 2(1) less.prems(2)])
      have "agrees3
          (case waitForRetry P (s_retryDelay v) v of (Some err, t) \<Rightarrow> Some (Inl err, b1, t)
            | (None, t) \<Rightarrow> (case left of 0 \<Rightarrow> None | Suc k \<Rightarrow> send_loop P k msg env b1 t))
          (case waitForRetry P (s_retryDelay v) (vary v pw2 tr2) of (Some err, t) \<Rightarrow> Some (Inl err, b1, t)
            | (None, t) \<Rightarrow> (case left of 0 \<Rightarrow> None | Suc k \<Rightarrow> send_loop P k msg env b1 t))"
        using waitForRetry_agrees [OF assms(1) v(3)] less.IH [OF _ _ hook]
        by (intro agrees3_bind agrees3_option) (auto intro!: agrees3I same_stateI split: nat.split)
      then show ?thesis using 2 Inl v agrees3I [OF same_stateI [OF v(3)]]
        by (subst (1 2) send_loop.simps) (auto simp: Let_def)
    qed
  qed
qed

text \<open>
  What the caller sees of a send: the result (a sent message carries its transcript, an error
  its debug text), the base transport and the public part of the transport's state.
\<close>

definition caller_view :: "('a \<times> 'b \<times> smtp) option \<Rightarrow> ('a \<times> 'b \<times> smtp) option" where
  "caller_view r = map_option (\<lambda>(x, y, t). (x, y, vary t [] (public (s_trace t)))) r"

lemma caller_view_agrees: "agrees3 p q \<Longrightarrow> caller_view p = caller_view q"
  by (auto simp: agrees3_def caller_view_def vary_def twin_def split: option.splits)

lemma password_hidden:
  assumes "blind P" "bt_DoSend b = Some (doSend P)" "pw \<noteq> []" "s_password t \<noteq> []"
  shows "caller_view (smtp_Send P msg env b (SetPassword t pw)) = caller_view (smtp_Send P msg env b t)"
proof -
  have "SetPassword t pw = vary t pw (s_trace t)" by (simp add: SetPassword_def vary_def)
  moreover have "twin t pw (s_trace t)" using assms(3,4) by (simp add: twin_def)
  ultimately show ?thesis
    using caller_view_agrees [OF send_loop_agrees [OF assms(1) _ assms(2)]] by (simp add: smtp_Send_def)
qed

end
