(* ===== verification/Smtp_Conversation.thy ===== *)
theory Smtp_Conversation
  imports Smtp_Props
begin

text \<open>
  Relations between the state before and after a step of the SMTP conversation. A relation that is
  reflexive and transitive and holds of the primitive steps (a command, the TLS upgrade, closing
  the connection, the bookkeeping) holds of session setup and of the commands of a
  transaction, which are built from them.
\<close>

locale step_relation =
  fixes R :: "smtp \<Rightarrow> smtp \<Rightarrow> bool"
  assumes refl: "R t t" and trans: "R t u \<Longrightarrow> R u v \<Longrightarrow> R t v"
begin

lemma return: "R t u \<Longrightarrow> R t (snd (x, u))"
  by simp

lemma bind:
  assumes "R t (snd p)" "\<And>x u. p = (x, u) \<Longrightarrow> R u (snd (f x u))"
  shows "R t (snd (case p of (x, u) \<Rightarrow> f x u))"
  using assms(1) assms(2) [of "fst p" "snd p"] trans by (cases p) auto

lemma on_sum:
  "(\<And>e. x = Inl e \<Longrightarrow> R t (snd (f e))) \<Longrightarrow> (\<And>r. x = Inr r \<Longrightarrow> R t (snd (g r))) \<Longrightarrow> R t (snd (case x of Inl e \<Rightarrow> f e | Inr r \<Rightarrow> g r))"
  by (cases x) auto

lemma on_option:
  "(x = None \<Longrightarrow> R t (snd a)) \<Longrightarrow> (\<And>r. x = Some r \<Longrightarrow> R t (snd (g r))) \<Longrightarrow> R t (snd (case x of None \<Rightarrow> a | Some r \<Rightarrow> g r))"
  by (cases x) auto

lemma on_if: "R t (snd a) \<Longrightarrow> R t (snd b) \<Longrightarrow> R t (snd (if c then a else b))"
  by simp

lemmas control = bind on_sum on_option on_if return refl

end

locale conversation = step_relation R for R :: "smtp \<Rightarrow> smtp \<Rightarrow> bool" +
  fixes P :: peer
  assumes debug: "R t (t\<lparr>s_debug := d\<rparr>)"
    and capabilities: "R t (t\<lparr>s_capabilities := cs\<rparr>)"
    and lastMessageTime: "R t (t\<lparr>s_lastMessageTime := tm\<rparr>)"
    and started: "R t (t\<lparr>s_started := v\<rparr>)"
    and terminate: "R t (terminate t)"
    and execute: "R t (snd (execute P c codes redact t))"
    and startTLS: "s_conn t \<Longrightarrow> R t (snd (startTLS P t))"
begin

lemma then_capabilities: "R (t\<lparr>s_capabilities := cs\<rparr>) u \<Longrightarrow> R t u"
  using trans capabilities by blast

lemma Authenticate: "R t (snd (Authenticate P a t))"
  by (cases a) (simp_all only: Authenticate.simps Let_def, (intro control execute)+)

lemma auth_loop: "R t (snd (auth_loop P adv as c ns es t))"
proof (induction as arbitrary: c ns es t)
  case (Cons a as)
  show ?case unfolding auth_loop.simps by (intro control Authenticate execute Cons.IH)
qed (simp add: refl)

lemma helo_policy: "R t (snd (helo_policy P tls t))"
proof -
  have "R u (snd (handleAuth P modes u))" for u modes unfolding handleAuth_def by (intro control auth_loop)
  then show ?thesis unfolding helo_policy_def by (intro control)
qed

lemma ehlo: "R t (snd (ehlo P t))"
  unfolding ehlo_def by (rule execute)

lemma helo_starttls: "R t (snd (helo_starttls P t))"
proof -
  have tls: "R u (snd (startTLS P u))" if "execute P c codes redact t = (Inr y, u)" for c codes redact y u
    using startTLS execute_Inr(2) that by blast
  have policy: "R u (snd (helo_policy P True (u\<lparr>s_capabilities := cs\<rparr>)))" for u cs
    by (rule then_capabilities) (rule helo_policy)
  show ?thesis unfolding helo_starttls_def
    by (intro bind on_sum on_option execute ehlo return refl policy) (simp_all add: tls)
qed

lemma helo: "R t (snd (helo P t))"
proof -
  have "R u (snd (helo_ehlo P (u\<lparr>s_capabilities := cs\<rparr>)))" for u cs
    by (rule then_capabilities [where cs = cs]) (unfold helo_ehlo_def, intro on_if helo_starttls helo_policy)
  then show ?thesis unfolding helo_split by (intro bind on_sum execute ehlo return refl capabilities)
qed

lemma mailFrom: "R t (snd (mailFrom P a utf8 t))"
  unfolding mailFrom_def by (intro control execute)

lemma rcpt_loop: "R t (snd (rcpt_loop P rs t))"
proof (induction rs arbitrary: t)
  case (Cons r rs)
  have r: "R t (snd (rcptTo P (Email r) t))" unfolding rcptTo_def by (intro control execute)
  show ?case unfolding rcpt_loop.simps by (intro control r Cons.IH)
qed (simp add: refl)

lemma fail_send: "R t (snd (fail_send P err t))"
  using trans [OF debug lastMessageTime] lastMessageTime by (simp add: fail_send_def appendErrDebug_def Let_def)

lemma session_up: "R t (t\<lparr>s_started := v, s_lastMessageTime := tm\<rparr>)"
  by (rule trans [OF started lastMessageTime])

lemma stop_conn: "R t (stop_conn P t)"
  unfolding stop_conn_def using refl trans [OF execute terminate] by simp

lemma ping_idle: "R t (ping_idle P t)"
proof -
  obtain r u where n: "execute P (''NOOP'' @ CRLF) [250] False t = (r, u)" by fastforce
  have "R t u" using execute [of t "''NOOP'' @ CRLF" "[250]" False] n by simp
  then have "R t (ping P t)" using n trans stop_conn refl by (auto simp: ping_def split: sum.splits)
  then show ?thesis by (simp add: ping_idle_def refl)
qed

text \<open>The end of a transaction, given the transaction.\<close>

lemma mail:
  assumes "mail P sm t = Some (r, sm', t')" "\<And>env raw. R t (snd (transaction P env raw t))"
  shows "R t t'"
proof -
  obtain env where env: "sm_envelope sm = Some env" using assms(1) by (auto simp: mail_def split: option.splits)
  obtain q x where q: "transaction P env (sm_raw sm) t = (q, x)" by fastforce
  have x: "R t x" using assms(2) [of env "sm_raw sm"] q by simp
  have "R x t'"
  proof (cases q)
    case (Inl err)
    with assms(1) env q have "t' = snd (fail_send P err x)" by (auto simp: mail_def split: prod.splits)
    then show ?thesis by (simp add: fail_send)
  next
    case (Inr resp)
    with assms(1) env q have "\<exists>d. t' = x\<lparr>s_debug := [], s_lastMessageTime := d\<rparr>"
      by (auto simp: mail_def drainDebug_def Let_def split: option.splits)
    then show ?thesis using trans [OF debug lastMessageTime] by auto
  qed
  with x show ?thesis by (rule trans)
qed

end

end
