(* ===== verification/Smtp_Deadlines.thy ===== *)
theory Smtp_Deadlines
  imports Smtp_Conversation
begin

text \<open>
  Socket deadlines of the SMTP transport (\<^verbatim>\<open>bindConnectionContext\<close>, \<^verbatim>\<open>refreshIOTimeout\<close> in
  \<^verbatim>\<open>transport/smtp/smtp.go\<close>): which deadline and how many cancellation hooks are in force on the
  current connection is read off the trace. The delivery hook never reads, writes or
  negotiates TLS without one of them, whatever the peer does.
\<close>

section \<open>What is in force\<close>

record guard =
  g_conn :: nat
  g_deadline :: "int option"
  g_hooks :: nat

fun guard_after :: "guard \<Rightarrow> event \<Rightarrow> guard" where
  "guard_after g (EvDial addr src) = \<lparr>g_conn = Suc (g_conn g), g_deadline = None, g_hooks = 0\<rparr>"
| "guard_after g (EvDeadline n d) = (if n = g_conn g then g\<lparr>g_deadline := d\<rparr> else g)"
| "guard_after g (EvWatch n) = (if n = g_conn g then g\<lparr>g_hooks := Suc (g_hooks g)\<rparr> else g)"
| "guard_after g (EvUnwatch n) = (if n = g_conn g then g\<lparr>g_hooks := g_hooks g - 1\<rparr> else g)"
| "guard_after g _ = g"

definition guard_of :: "event list \<Rightarrow> guard" where
  "guard_of tr = foldl guard_after \<lparr>g_conn = 0, g_deadline = None, g_hooks = 0\<rparr> tr"

lemma guard_append: "guard_of (tr @ evs) = foldl guard_after (guard_of tr) evs"
  by (simp add: guard_of_def)

lemma guard_snoc [simp]: "guard_of (tr @ [ev]) = guard_after (guard_of tr) ev" "guard_of (tr @ [e1, e2]) = guard_after (guard_after (guard_of tr) e1) e2"
  by (simp_all add: guard_append)

lemma guard_conn [simp]: "g_conn (guard_of tr) = conn_number tr"
proof (induction tr rule: rev_induct)
  case (snoc ev tr)
  then show ?case by (cases ev) (simp_all add: conn_number_def)
qed (simp add: guard_of_def conn_number_def)

text \<open>The steps that can block on the peer.\<close>

fun io :: "event \<Rightarrow> bool" where
  "io EvRead = True"
| "io (EvWrite s c) = True"
| "io (EvHandshake c) = True"
| "io ev = False"

lemma guard_dial [simp]:
  "guard_after g (dial_event t) = \<lparr>g_conn = Suc (g_conn g), g_deadline = None, g_hooks = 0\<rparr>" "\<not> io (dial_event t)"
  by (simp_all add: dial_event_def)

text \<open>
  With the context's deadline \<open>D\<close>, a step is limited by that deadline on the socket or by the
  hook that closes the connection when the context is done; without one, by a deadline.
\<close>

definition timed :: "int option \<Rightarrow> guard \<Rightarrow> bool" where
  "timed D g = (case D of Some d \<Rightarrow> g_deadline g = Some d \<or> 0 < g_hooks g | None \<Rightarrow> g_deadline g \<noteq> None)"

fun all_timed :: "int option \<Rightarrow> event list \<Rightarrow> event list \<Rightarrow> bool" where
  "all_timed D tr [] = True"
| "all_timed D tr (ev # evs) = ((io ev \<longrightarrow> timed D (guard_of tr)) \<and> all_timed D (tr @ [ev]) evs)"

lemma all_timed_append [simp]: "all_timed D tr (a @ b) \<longleftrightarrow> all_timed D tr a \<and> all_timed D (tr @ a) b"
  by (induction a arbitrary: tr) auto

lemma all_timed_reads: "timed D (guard_of tr) \<Longrightarrow> all_timed D tr (replicate k EvRead) \<and> guard_of (tr @ replicate k EvRead) = guard_of tr"
proof (induction k arbitrary: tr)
  case (Suc k)
  from Suc.IH [of "tr @ [EvRead]"] Suc.prems show ?case by simp
qed simp

lemma guard_reads: "guard_of (tr @ replicate k EvRead) = guard_of tr"
proof (induction k arbitrary: tr)
  case (Suc k)
  from Suc.IH [of "tr @ [EvRead]"] show ?case by simp
qed simp

section \<open>Steps\<close>

text \<open>The context's deadline does not change while the hook runs.\<close>

definition ctx_deadline :: "peer \<Rightarrow> int option \<Rightarrow> bool" where
  "ctx_deadline P D \<longleftrightarrow> (\<forall>tr. map_option t_nanos (p_ctxDeadline P tr) = D)"

definition settled :: "int option \<Rightarrow> smtp \<Rightarrow> bool" where
  "settled D t \<longleftrightarrow> s_ctxHasDeadline t = (D \<noteq> None) \<and> (D = None \<longrightarrow> 0 < s_ioTimeout t)"

definition hooked :: "int option \<Rightarrow> smtp \<Rightarrow> bool" where
  "hooked D t \<longleftrightarrow> settled D t \<and> (s_conn t \<and> D \<noteq> None \<longrightarrow> 0 < g_hooks (guard_of (s_trace t)))"

text \<open>A step that is limited throughout: always, and when it starts under a hook.\<close>

definition calm :: "int option \<Rightarrow> smtp \<Rightarrow> smtp \<Rightarrow> bool" where
  "calm D t t' \<longleftrightarrow> (\<exists>later. s_trace t' = s_trace t @ later \<and> all_timed D (s_trace t) later)
     \<and> (settled D t \<longrightarrow> settled D t')"

definition limited :: "int option \<Rightarrow> smtp \<Rightarrow> smtp \<Rightarrow> bool" where
  "limited D t t' \<longleftrightarrow> (hooked D t \<longrightarrow> calm D t t' \<and> hooked D t')"

lemma calm_refl [simp]: "calm D t t"
  by (auto simp: calm_def)

lemma calm_trans [trans]: "calm D t u \<Longrightarrow> calm D u v \<Longrightarrow> calm D t v"
  unfolding calm_def by (elim conjE exE) auto

lemma limited_refl [simp]: "limited D t t"
  by (simp add: limited_def)

lemma limited_trans [trans]: "limited D t u \<Longrightarrow> limited D u v \<Longrightarrow> limited D t v"
  unfolding limited_def using calm_trans by blast

lemma limited_fields [simp]:
  "limited D t (t\<lparr>s_debug := d\<rparr>)" "limited D t (t\<lparr>s_capabilities := cs\<rparr>)" "limited D t (t\<lparr>s_lastMessageTime := tm\<rparr>)"
  "limited D t (t\<lparr>s_started := v, s_lastMessageTime := tm\<rparr>)" "limited D t (t\<lparr>s_debug := d, s_lastMessageTime := tm\<rparr>)"
  "limited D t (recordDebug P dir l t)" "limited D t (t\<lparr>s_started := v\<rparr>)"
  by (auto simp: limited_def calm_def hooked_def settled_def recordDebug_def)

lemma limited_terminate [simp]: "limited D t (terminate t)"
  by (auto simp: limited_def calm_def hooked_def settled_def terminate_def happen_def)

lemma calm_terminate [simp]: "calm D t (terminate t)"
  by (auto simp: calm_def settled_def terminate_def happen_def)

lemma calm_timer: "timer ev \<Longrightarrow> calm D t (happen ev t)"
  by (cases ev) (auto simp: calm_def settled_def happen_def timer_def)

lemma quiet_calm:
  assumes "quiet t t'"
  shows "calm D t t'"
proof -
  have "all_timed D tr evs" if "\<forall>ev\<in>set evs. timer ev" for tr evs
    using that by (induction evs arbitrary: tr) (auto simp: timer_def split: event.splits)
  with assms show ?thesis unfolding quiet_def calm_def by (auto simp: settled_def)
qed

lemma quiet_conn_number:
  assumes "quiet t t'"
  shows "conn_number (s_trace t') = conn_number (s_trace t)"
proof -
  have "timer ev \<Longrightarrow> \<not> (case ev of EvDial addr src \<Rightarrow> True | _ \<Rightarrow> False)" for ev by (cases ev) (simp_all add: timer_def)
  with assms show ?thesis by (auto simp: quiet_def conn_number_def filter_empty_conv)
qed

lemma readResponse_limited:
  assumes "readResponse P acc t = (r, t')" "timed D (guard_of (s_trace t))"
  shows "calm D t t' \<and> guard_of (s_trace t') = guard_of (s_trace t) \<and> s_conn t' = s_conn t \<and> (settled D t \<longrightarrow> settled D t')"
proof -
  obtain d k where "t' = t\<lparr>s_debug := d, s_trace := s_trace t @ replicate k EvRead\<rparr>"
    using readResponse_frame [OF assms(1)] by blast
  with all_timed_reads [OF assms(2), of k] show ?thesis by (auto simp: calm_def settled_def)
qed

lemma refresh_timed:
  assumes "hooked D t" "s_conn t"
  shows "timed D (guard_of (s_trace (refreshIOTimeout P t))) \<and> hooked D (refreshIOTimeout P t)"
proof (cases D)
  case None
  with assms show ?thesis by (auto simp: refreshIOTimeout_def hooked_def settled_def timed_def happen_def)
next
  case (Some d)
  with assms show ?thesis by (auto simp: refreshIOTimeout_def hooked_def settled_def timed_def happen_def)
qed

text \<open>A command arms its own deadline or runs under the hook, and leaves it so.\<close>

lemma execute_limited:
  assumes "execute P c codes redact t = (r, t')" "hooked D t"
  shows "calm D t t' \<and> hooked D t' \<and> (\<forall>x. r = Inr x \<longrightarrow> timed D (guard_of (s_trace t')))"
proof (cases "s_conn t")
  case True
  define u where "u = recordDebug P ''>'' (if redact then redactCommand (p_unicode P) c else c) (refreshIOTimeout P t)"
  define w where "w = happen (EvWrite redact c) u"
  have u: "timed D (guard_of (s_trace u))" "hooked D u" "s_conn u" "calm D t u"
    using refresh_timed [OF assms(2) True, of P] quiet_calm [OF quiet_refreshIOTimeout, of D t P] True
    by (auto simp: u_def recordDebug_def hooked_def settled_def calm_def)
  then have w: "timed D (guard_of (s_trace w))" "hooked D w" "s_conn w" "calm D t w"
    by (auto simp: w_def happen_def hooked_def settled_def calm_def)
  show ?thesis
  proof (cases "p_write P (s_trace u) c")
    case None
    obtain q v where q: "readResponse P [] w = (q, v)" by fastforce
    have v: "calm D t v" "hooked D v" "timed D (guard_of (s_trace v))"
      using readResponse_limited [OF q w(1)] w calm_trans [OF w(4)] by (auto simp: hooked_def)
    have "t' = v \<and> r = assertResponse2 (p_unicode P) (projr q) codes \<and> q = Inr (projr q) \<or> t' = terminate v \<and> isl r"
      using assms(1) True None q by (auto simp: execute_def Let_def u_def w_def split: sum.splits)
    with v limited_terminate [of D v] show ?thesis unfolding limited_def by (auto intro: calm_trans)
  next
    case (Some e)
    then have "t' = terminate w" "isl r" using assms(1) True by (auto simp: execute_def Let_def u_def w_def)
    with w limited_terminate [of D w] show ?thesis unfolding limited_def by (auto intro: calm_trans)
  qed
qed (use assms in \<open>auto simp: execute_def\<close>)

lemma limited_execute: "execute P c codes redact t = (r, t') \<Longrightarrow> limited D t t'"
  unfolding limited_def using execute_limited by blast

section \<open>Binding the context\<close>

lemma bind_guard:
  assumes "ctx_deadline P D" "settled D t"
  shows "\<exists>d. guard_of (s_trace (bindConnectionContext P t))
      = (guard_of (s_trace t))\<lparr>g_deadline := Some d, g_hooks := Suc (g_hooks (guard_of (s_trace t)))\<rparr> \<and> (\<forall>x. D = Some x \<longrightarrow> d = x)"
proof (cases "p_ctxDeadline P (s_trace t)")
  case None
  with assms have "0 < s_ioTimeout t" "D = None" by (metis (no_types) ctx_deadline_def settled_def option.simps(8))+
  with None show ?thesis by (auto simp: bindConnectionContext_def happen_def Let_def conn_number_def)
next
  case (Some x)
  with assms(1) have "D = Some (t_nanos x)" by (metis ctx_deadline_def option.simps(9))
  with Some show ?thesis by (auto simp: bindConnectionContext_def happen_def Let_def conn_number_def)
qed

lemma cleanup_guard:
  "guard_of (s_trace (cleanupContext (Some n) t)) =
    (if n = conn_number (s_trace t)
     then (guard_of (s_trace t))\<lparr>g_deadline := None, g_hooks := g_hooks (guard_of (s_trace t)) - 1\<rparr> else guard_of (s_trace t))"
  by (simp add: cleanupContext_def happen_def)

lemma bound_timed:
  assumes "ctx_deadline P D" "settled D t"
  shows "timed D (guard_of (s_trace (bindConnectionContext P t))) \<and> hooked D (bindConnectionContext P t)"
  using bind_guard [OF assms] assms(2) by (auto simp: timed_def hooked_def settled_def split: option.split)

lemma startTLS_limited:
  assumes "startTLS P t = (r, t')" "s_conn t" "ctx_deadline P D"
  shows "limited D t t'"
  unfolding limited_def
proof
  assume h: "hooked D t"
  let ?b = "bindConnectionContext P t" and ?c = "cleanupContext (Some (conn_number (s_trace t)))"
  have s: "settled D t" using h by (simp add: hooked_def)
  define u where "u = (if r = None then (happen EvTLS (happen (EvHandshake (effectiveTLSConfig t)) ?b))\<lparr>s_usingTLS := True\<rparr> else happen (EvHandshake (effectiveTLSConfig t)) ?b)"
  have t': "t' = ?c u"
    using assms(1,2) by (auto simp: startTLS_def bindCurrentConnectionContext_def Let_def u_def split: option.splits)
  have n: "conn_number (s_trace ?b) = conn_number (s_trace t)"
    by (rule quiet_conn_number) simp
  have "calm D t ?b" by (rule quiet_calm) simp
  moreover have "calm D ?b u" using bound_timed [OF assms(3) s] by (auto simp: calm_def u_def happen_def settled_def)
  moreover have "calm D u (?c u)" by (rule quiet_calm) simp
  ultimately have "calm D t t'" unfolding t' by (blast intro: calm_trans)
  moreover have "g_hooks (guard_of (s_trace t')) = g_hooks (guard_of (s_trace t))"
    using bind_guard [OF assms(3) s] n by (auto simp: t' cleanup_guard u_def happen_def conn_number_def)
  moreover have "settled D t'" using s \<open>calm D t t'\<close> by (simp add: calm_def)
  moreover have "s_conn t' = s_conn t" by (simp add: t' u_def)
  ultimately show "calm D t t' \<and> hooked D t'" using h by (simp add: hooked_def)
qed

text \<open>The conversation is limited while a hook is in place.\<close>

interpretation lim: conversation "\<lambda>t t'. ctx_deadline P D \<longrightarrow> limited D t t'" P for P D
proof
  show "ctx_deadline P D \<longrightarrow> limited D t (snd (execute P c codes redact t))" for t c codes redact
    by (intro impI limited_execute) (rule prod.collapse [symmetric])
  show "s_conn t \<Longrightarrow> ctx_deadline P D \<longrightarrow> limited D t (snd (startTLS P t))" for t
    by (intro impI startTLS_limited) (rule prod.collapse [symmetric])
qed (auto intro: limited_trans simp: limited_fields)

section \<open>Sessions\<close>

text \<open>The greeting is read under the deadline that \<^verbatim>\<open>start\<close> set.\<close>

lemma greet_calm:
  assumes "greet P t = (r, t')" "ctx_deadline P D" "hooked D t" "timed D (guard_of (s_trace t))"
  shows "calm D t t'"
proof -
  obtain q u where q: "readResponse P [] t = (q, u)" by fastforce
  have u: "calm D t u" "hooked D u" using readResponse_limited [OF q assms(4)] assms(3) by (auto simp: hooked_def)
  obtain h v where h: "helo P u = (h, v)" by fastforce
  have v: "limited D u v" using lim.helo [of P D u] assms(2) h by simp
  consider "t' = terminate u" | "t' = terminate v" | "t' = v\<lparr>s_started := True, s_lastMessageTime := zero_time\<rparr>"
    using assms(1) q h by (cases q; cases h) (auto simp: greet_def Let_def split: sum.splits)
  then have "limited D u t'"
  proof cases
    case 2
    with limited_trans [OF v limited_terminate] show ?thesis by simp
  next
    case 3
    with limited_trans [OF v limited_fields(4)] show ?thesis by simp
  qed simp
  with u show ?thesis unfolding limited_def by (auto intro: calm_trans)
qed

lemma calm_settled: "calm D t t' \<Longrightarrow> settled D t \<Longrightarrow> settled D t'"
  by (simp add: calm_def)

lemma calm_unwired: "\<not> io ev \<Longrightarrow> calm D t (happen ev t)"
  by (auto simp: calm_def happen_def settled_def)

lemma calm_handshake: "timed D (guard_of (s_trace t)) \<Longrightarrow> calm D t (happen (EvHandshake c) t)"
  by (auto simp: calm_def happen_def settled_def)

lemma calm_fields [simp]: "calm D t (u\<lparr>s_conn := a, s_usingTLS := b\<rparr>) = calm D t u" "calm D t (u\<lparr>s_usingTLS := b\<rparr>) = calm D t u"
  "calm D t (u\<lparr>s_conn := a\<rparr>) = calm D t u"
  by (simp_all add: calm_def settled_def)

lemma connect_calm:
  assumes "connect P t = (r, t')" "ctx_deadline P D" "settled D t"
  shows "calm D t t'"
proof -
  let ?d = "happen (dial_event t) t" and ?c = "cleanupContext (Some (conn_number (s_trace (happen (dial_event t) t))))"
  let ?b = "bindConnectionContext P (happen (dial_event t) t)"
  have d: "calm D t ?d" by (simp add: calm_unwired)
  have "timed D (guard_of (s_trace ?b))" using bound_timed [OF assms(2) calm_settled [OF d assms(3)]] ..
  then have h: "calm D t (happen (EvHandshake (effectiveTLSConfig t)) ?b)"
    using calm_trans [OF d calm_trans [OF quiet_calm [OF quiet_bindConnectionContext] calm_handshake]] by blast
  have c: "calm D t (happen EvClose (happen (EvHandshake (effectiveTLSConfig t)) ?b))" "calm D t ((happen EvTLS (happen (EvHandshake (effectiveTLSConfig t)) ?b))\<lparr>s_conn := True, s_usingTLS := True\<rparr>)"
    using calm_trans [OF h calm_unwired] by simp_all
  then have "calm D t (?c (happen EvClose (happen (EvHandshake (effectiveTLSConfig t)) ?b)))"
    "calm D t (?c ((happen EvTLS (happen (EvHandshake (effectiveTLSConfig t)) ?b))\<lparr>s_conn := True, s_usingTLS := True\<rparr>))"
    using calm_trans quiet_calm quiet_cleanupContext by blast+
  moreover have "t' = snd (connect P t)" using assms(1) by simp
  ultimately show ?thesis using d
    by (cases "s_tls t"; cases "p_dial P (s_trace ?d)"; cases "p_tls P (s_trace (happen (EvHandshake (effectiveTLSConfig t)) ?b))"; cases "p_ctx P (s_trace ?d)";
        cases "p_ctx P (s_trace (happen EvClose (happen (EvHandshake (effectiveTLSConfig t)) ?b)))") (simp_all add: connect_def Let_def)
qed

lemma bound_hooked:
  assumes "bindCurrentConnectionContext P t = (c, t')" "ctx_deadline P D" "settled D t"
  shows "hooked D t' \<and> calm D t t' \<and> (s_conn t \<longrightarrow> timed D (guard_of (s_trace t')))"
proof (cases "s_conn t")
  case True
  with assms(1) have "t' = bindConnectionContext P t" by (simp add: bindCurrentConnectionContext_def)
  with bound_timed [OF assms(2,3)] quiet_calm [OF quiet_bindConnectionContext] show ?thesis by simp
next
  case False
  with assms(1,3) have "t' = t" by (simp add: bindCurrentConnectionContext_def)
  with False assms(3) show ?thesis by (simp add: hooked_def)
qed

lemma connect_conn: "connect P t = (None, t') \<Longrightarrow> s_conn t'"
  by (auto elim: connect_cases simp: quiet_fields)

lemma start_calm:
  assumes "start P t = (r, t')" "ctx_deadline P D" "settled D t"
  shows "calm D t t'"
proof (cases "s_started t")
  case False
  obtain q u where q: "connect P t = (q, u)" by fastforce
  have u: "calm D t u" "settled D u" using connect_calm [OF q assms(2,3)] assms(3) calm_settled by blast+
  show ?thesis
  proof (cases q)
    case None
    obtain c v where c: "bindCurrentConnectionContext P u = (c, v)" by fastforce
    obtain g w where g: "greet P v = (g, w)" by fastforce
    have "s_conn u" using connect_conn q None by blast
    then have "calm D v w" using greet_calm [OF g assms(2)] bound_hooked [OF c assms(2) u(2)] by blast
    moreover have "t' = cleanupContext c w" using assms(1) False q None c g by (simp add: start_def)
    ultimately show ?thesis
      using u(1) bound_hooked [OF c assms(2) u(2)] quiet_calm [OF quiet_cleanupContext] by (blast intro: calm_trans)
  qed (use assms(1) False q u in \<open>simp add: start_def\<close>)
qed (use assms in \<open>simp add: start_def\<close>)

section \<open>Transactions\<close>

text \<open>The message is written under what the DATA command left in force.\<close>

lemma writeData_limited:
  assumes "timed D (guard_of (s_trace t))"
  shows "limited D t (snd (writeData P data t))"
proof -
  have "limited D t (happen (EvWrite False (data_text data)) t)"
    using assms by (auto simp: limited_def calm_def hooked_def settled_def happen_def)
  then show ?thesis using limited_trans [OF _ limited_terminate] by (simp add: writeData_def Let_def split: option.split)
qed

text \<open>The transaction from DATA on.\<close>

definition send_data :: "peer \<Rightarrow> bytes \<Rightarrow> smtp \<Rightarrow> (goerr + bytes) \<times> smtp" where
  "send_data P raw t =
    (case execute P (''DATA'' @ CRLF) [354] False t of
       (Inl err, t) \<Rightarrow> (Inl err, t)
     | (Inr _, t) \<Rightarrow> (case writeData P raw t of (Inl err, t) \<Rightarrow> (Inl err, t) | (Inr terminator, t) \<Rightarrow> execute P terminator [250] False t))"

lemma send_data_limited:
  assumes "ctx_deadline P D"
  shows "limited D t (snd (send_data P raw t))"
  unfolding limited_def
proof
  assume h: "hooked D t"
  obtain r u where e: "execute P (''DATA'' @ CRLF) [354] False t = (r, u)" by fastforce
  have u: "calm D t u" "hooked D u" "\<And>x. r = Inr x \<Longrightarrow> timed D (guard_of (s_trace u))"
    using execute_limited [OF e h] by blast+
  have w: "limited D u (snd (case writeData P raw u of (Inl err, t) \<Rightarrow> (Inl err, t) | (Inr terminator, t) \<Rightarrow> execute P terminator [250] False t))"
    if "r = Inr x" for x
  proof -
    obtain q v where q: "writeData P raw u = (q, v)" by fastforce
    have "limited D u v" using writeData_limited [OF u(3) [OF that], of P raw] q by simp
    then show ?thesis using lim.execute [of P D v] limited_trans assms q by (cases q) auto
  qed
  show "calm D t (snd (send_data P raw t)) \<and> hooked D (snd (send_data P raw t))"
  proof (cases r)
    case (Inr x)
    with w [OF Inr] u e show ?thesis by (auto simp: send_data_def limited_def intro: calm_trans)
  qed (use u e in \<open>simp add: send_data_def\<close>)
qed

lemma transaction_limited: "ctx_deadline P D \<longrightarrow> limited D t (snd (transaction P env raw t))"
proof -
  have "ctx_deadline P D \<longrightarrow> limited D u (snd (send_data P raw u))" for u using send_data_limited by blast
  then show ?thesis unfolding transaction_def send_data_def [symmetric]
    by (intro lim.bind lim.on_option lim.mailFrom lim.rcpt_loop lim.return lim.refl)
qed

text \<open>Every read, write and handshake of the delivery hook is limited.\<close>

lemma doSend_timed:
  assumes "doSend P sm t = Some (r, sm', t')" "ctx_deadline P D" "D \<noteq> None \<or> 0 < s_ioTimeout t"
  shows "\<exists>later. s_trace t' = s_trace t @ later \<and> all_timed D (s_trace t) later"
proof -
  let ?t = "t\<lparr>s_debug := [], s_ctxHasDeadline := p_ctxDeadline P (s_trace t) \<noteq> None\<rparr>"
  have "p_ctxDeadline P (s_trace t) \<noteq> None \<longleftrightarrow> D \<noteq> None" using assms(2) by (metis ctx_deadline_def map_option_is_None)
  then have s: "settled D ?t" using assms(3) by (auto simp: settled_def)
  have up: "calm D ?t v \<and> settled D v" if "bindCurrentConnectionContext P ?t = (c, u)" "start P (ping_idle P u) = (q, v)" for c u q v
  proof -
    have u: "calm D ?t u" "hooked D u" using bound_hooked [OF that(1) assms(2) s] by simp_all
    then have i: "calm D u (ping_idle P u)" "settled D (ping_idle P u)"
      using lim.ping_idle [of P D u] assms(2) by (auto simp: limited_def hooked_def)
    with start_calm [OF that(2) assms(2)] u(1) have "calm D ?t v" by (blast intro: calm_trans)
    with calm_settled s show ?thesis by blast
  qed
  from assms(1) have "calm D ?t t'"
  proof (cases rule: doSend_cases)
    case (1 err c u v)
    with up [OF 1(3,4)] quiet_calm [OF quiet_cleanupContext] show ?thesis by (blast intro: calm_trans)
  next
    case (2 c u v c2 w x)
    have v: "calm D ?t (cleanupContext c v)" using up [OF 2(1,2)] quiet_calm [OF quiet_cleanupContext] by (blast intro: calm_trans)
    then have "settled D (cleanupContext c v)" using calm_settled s by blast
    from bound_hooked [OF 2(3) assms(2) this] have w: "hooked D w" "calm D (cleanupContext c v) w" by simp_all
    then have "calm D w x" using lim.mail [OF 2(4) transaction_limited] assms(2) by (simp add: limited_def)
    with v w(2) 2(5) quiet_calm [OF quiet_cleanupContext] show ?thesis by (blast intro: calm_trans)
  qed
  then show ?thesis by (auto simp: calm_def)
qed

text \<open>The commands of a trace that were written with no deadline and no hook in force.\<close>

fun unguarded :: "guard \<Rightarrow> event list \<Rightarrow> bytes list" where
  "unguarded g [] = []"
| "unguarded g (ev # evs) =
    (case ev of EvWrite s c \<Rightarrow> if g_deadline g = None \<and> g_hooks g = 0 then [c] else [] | _ \<Rightarrow> [])
    @ unguarded (guard_after g ev) evs"

end
