(* ===== verification/Smtp_Targets.thy ===== *)
theory Smtp_Targets
  imports Smtp_Conversation
begin

text \<open>
  Where the SMTP transport connects to and how it negotiates TLS (\<^verbatim>\<open>connect\<close>, \<^verbatim>\<open>startTLS\<close>,
  \<^verbatim>\<open>effectiveTLSConfig\<close> in \<^verbatim>\<open>transport/smtp/smtp.go\<close>): every dial and every handshake of any
  sequence of sends and closes is the one its configuration names.
\<close>

definition target :: "smtp \<Rightarrow> bytes \<times> int \<times> bytes \<times> tls_config option" where
  "target t = (s_host t, s_port t, s_sourceIP t, s_tlsConfig t)"

definition aimed :: "smtp \<Rightarrow> event \<Rightarrow> bool" where
  "aimed t ev \<longleftrightarrow> (case ev of EvDial addr src \<Rightarrow> ev = dial_event t | EvHandshake c \<Rightarrow> c = effectiveTLSConfig t | _ \<Rightarrow> True)"

text \<open>A step that keeps the target and only dials it.\<close>

definition aims :: "smtp \<Rightarrow> smtp \<Rightarrow> bool" where
  "aims t t' \<longleftrightarrow> target t' = target t \<and> (\<exists>later. s_trace t' = s_trace t @ later \<and> (\<forall>ev\<in>set later. aimed t ev))"

lemma target_aimed: "target u = target t \<Longrightarrow> aimed u = aimed t"
  by (auto simp: target_def aimed_def dial_event_def effectiveTLSConfig_def fun_eq_iff split: event.split option.split)

lemma aims_refl [simp]: "aims t t"
  by (simp add: aims_def)

lemma aims_trans [trans]: "aims t u \<Longrightarrow> aims u v \<Longrightarrow> aims t v"
  unfolding aims_def using target_aimed [of u t] by (elim conjE exE) auto

lemma aims_happen: "aimed t ev \<Longrightarrow> aims t (happen ev t)"
  by (simp add: aims_def happen_def target_def)

lemma aims_plain [simp]:
  "aims t (happen EvRead t)" "aims t (happen (EvWrite s c) t)" "aims t (happen EvClose t)" "aims t (happen EvTLS t)"
  "aims t (happen (EvSleep d) t)" "aims t (happen (EvRand n) t)" "aims t (happen (dial_event t) t)"
  "aims t (happen (EvHandshake (effectiveTLSConfig t)) t)"
  by (auto intro!: aims_happen simp: aimed_def dial_event_def)

lemma aims_fields [simp]:
  "aims t (t\<lparr>s_debug := d\<rparr>)" "aims t (t\<lparr>s_capabilities := cs\<rparr>)" "aims t (t\<lparr>s_lastMessageTime := tm\<rparr>)" "aims t (t\<lparr>s_started := v\<rparr>)"
  "aims t (t\<lparr>s_conn := a, s_usingTLS := b\<rparr>)" "aims t (t\<lparr>s_usingTLS := b\<rparr>)" "aims t (t\<lparr>s_restartCounter := n\<rparr>)"
  "aims t (t\<lparr>s_debug := d, s_ctxHasDeadline := v\<rparr>)" "aims t (t\<lparr>s_conn := a, s_started := v, s_usingTLS := b\<rparr>)" "aims t (recordDebug P dir l t)"
  by (simp_all add: aims_def target_def recordDebug_def)

lemma aims_quiet:
  assumes "quiet t t'"
  shows "aims t t'"
proof -
  have "timer ev \<Longrightarrow> aimed t ev" for ev by (cases ev) (simp_all add: timer_def aimed_def)
  with assms show ?thesis unfolding quiet_def aims_def by (auto simp: target_def)
qed

lemma aims_terminate [simp]: "aims t (terminate t)"
proof (cases "s_conn t")
  case True
  then show ?thesis using aims_trans [OF aims_plain(3) aims_fields(9)] by (simp add: terminate_def)
qed (simp add: terminate_def)

lemma readResponse_aims: "readResponse P acc t = (r, t') \<Longrightarrow> aims t t'"
  using readResponse_frame [of P acc t r t'] by (auto simp: aims_def target_def aimed_def)

lemma execute_aims:
  assumes "execute P c codes redact t = (r, t')"
  shows "aims t t'"
proof (cases "s_conn t")
  case True
  define u where "u = recordDebug P ''>'' (if redact then redactCommand (p_unicode P) c else c) (refreshIOTimeout P t)"
  have w: "aims t (happen (EvWrite redact c) u)"
    unfolding u_def using aims_trans [OF aims_trans [OF aims_quiet [OF quiet_refreshIOTimeout] aims_fields(10)] aims_plain(2)] .
  obtain q v where q: "readResponse P [] (happen (EvWrite redact c) u) = (q, v)" by fastforce
  have "t' = terminate (happen (EvWrite redact c) u) \<or> t' = v \<or> t' = terminate v"
    using assms True q by (auto simp: execute_def Let_def u_def split: option.splits sum.splits)
  with w readResponse_aims [OF q] show ?thesis by (blast intro: aims_trans aims_terminate)
qed (use assms in \<open>simp add: execute_def\<close>)

lemma startTLS_aims:
  assumes "startTLS P t = (r, t')"
  shows "aims t t'"
proof -
  obtain c u where c: "bindCurrentConnectionContext P t = (c, u)" by fastforce
  let ?h = "happen (EvHandshake (effectiveTLSConfig u)) u"
  have h: "aims t ?h" using aims_trans [OF aims_quiet [OF quiet_bind [OF c]] aims_plain(8)] .
  then have "aims t ((happen EvTLS ?h)\<lparr>s_usingTLS := True\<rparr>)" using aims_trans [OF h aims_trans [OF aims_plain(4) aims_fields(6)]] by simp
  moreover have "t' = cleanupContext c ?h \<or> t' = cleanupContext c ((happen EvTLS ?h)\<lparr>s_usingTLS := True\<rparr>)"
    using assms c by (auto simp: startTLS_def Let_def split: option.splits)
  ultimately show ?thesis using h aims_trans [OF _ aims_quiet [OF quiet_cleanupContext]] by blast
qed

interpretation aims: conversation aims P for P
proof
  show "aims t (snd (execute P c codes redact t))" for t c codes redact by (rule execute_aims) (rule prod.collapse [symmetric])
  show "s_conn t \<Longrightarrow> aims t (snd (startTLS P t))" for t by (rule startTLS_aims) (rule prod.collapse [symmetric])
qed (auto intro: aims_trans)

section \<open>Sends\<close>

lemma connect_aims:
  assumes "connect P t = (r, t')"
  shows "aims t t'"
proof -
  have h: "aims t (happen (EvHandshake (effectiveTLSConfig t)) u)" if "quiet (happen (dial_event t) t) u" for u
  proof -
    have e: "effectiveTLSConfig t = effectiveTLSConfig u" using quiet_fields(15,18) [OF that] by (simp add: effectiveTLSConfig_def happen_def split: option.split)
    show ?thesis unfolding e by (rule aims_trans [OF aims_trans [OF aims_plain(7) aims_quiet [OF that]] aims_plain(8)])
  qed
  from assms show ?thesis
  proof (cases rule: connect_cases)
    case (2 u)
    with aims_trans [OF aims_trans [OF h aims_plain(3)] aims_quiet] show ?thesis by blast
  next
    case (3 u)
    with aims_trans [OF aims_trans [OF aims_trans [OF h aims_plain(4)] aims_fields(5)] aims_quiet] show ?thesis by blast
  next
    case 4
    with aims_trans [OF aims_plain(7) aims_fields(5)] show ?thesis by simp
  qed simp
qed

lemma greet_aims:
  assumes "greet P t = (r, t')"
  shows "aims t t'"
proof -
  obtain q u where q: "readResponse P [] t = (q, u)" by fastforce
  obtain h v where h: "helo P u = (h, v)" by fastforce
  have "aims t u" "aims t v" using readResponse_aims [OF q] aims.helo [of u P] h aims_trans by auto
  moreover have "t' = terminate u \<or> t' = terminate v \<or> t' = v\<lparr>s_started := True, s_lastMessageTime := zero_time\<rparr>"
    using assms q h by (cases q; cases h) (auto simp: greet_def Let_def split: sum.splits)
  ultimately show ?thesis using aims_trans [OF _ aims_terminate] aims_trans [OF _ aims.session_up] by blast
qed

lemma start_aims:
  assumes "start P t = (r, t')"
  shows "aims t t'"
proof -
  obtain q u where q: "connect P t = (q, u)" by fastforce
  obtain c v where c: "bindCurrentConnectionContext P u = (c, v)" by fastforce
  obtain g w where g: "greet P v = (g, w)" by fastforce
  have "aims t u" "aims t w"
    using connect_aims [OF q] aims_trans [OF connect_aims [OF q] aims_trans [OF aims_quiet [OF quiet_bind [OF c]] greet_aims [OF g]]] .
  moreover have "t' = t \<or> t' = u \<or> t' = cleanupContext c w"
    using assms q c g by (auto simp: start_def split: if_splits option.splits)
  ultimately show ?thesis using aims_trans [OF _ aims_quiet [OF quiet_cleanupContext]] by auto
qed

lemma transaction_aims: "aims t (snd (transaction P env raw t))"
proof -
  have w: "aims u (snd (writeData P raw u))" for u
    using aims_trans [OF aims_plain(2) aims_terminate] by (simp add: writeData_def Let_def split: option.split)
  show ?thesis unfolding transaction_def
    by (intro aims.control aims.mailFrom aims.rcpt_loop aims.execute w)
qed

lemma doSend_aims:
  assumes "doSend P sm t = Some (r, sm', t')"
  shows "aims t t'"
  using assms
proof (cases rule: doSend_cases)
  case (1 err c u v)
  have "aims t v" using aims_trans [OF aims_fields(8) aims_trans [OF aims_quiet [OF quiet_bind [OF 1(3)]]
        aims_trans [OF aims.ping_idle start_aims [OF 1(4)]]]] .
  with 1(5) aims_trans [OF _ aims_quiet [OF quiet_cleanupContext]] show ?thesis by blast
next
  case (2 c u v c2 w x)
  have "aims t v" using aims_trans [OF aims_fields(8) aims_trans [OF aims_quiet [OF quiet_bind [OF 2(1)]]
        aims_trans [OF aims.ping_idle start_aims [OF 2(2)]]]] .
  then have "aims t w" using aims_trans [OF _ aims_trans [OF aims_quiet [OF quiet_cleanupContext] aims_quiet [OF quiet_bind [OF 2(3)]]]] by blast
  then have "aims t x" using aims_trans aims.mail [OF 2(4) transaction_aims] by blast
  with 2(5) aims_trans [OF _ aims_quiet [OF quiet_cleanupContext]] show ?thesis by blast
qed

interpretation aims_hook: delivery_hook "smtp_sys P" "doSend P" "aims t0" for P t0
proof
  fix w n d e w' sm r sm'
  assume I: "aims t0 w"
  show "aims t0 (rand_used (smtp_sys P) n w)" using aims_trans [OF I aims_plain(6)] by (simp add: smtp_sys_def)
  show "sleep_or_done (smtp_sys P) d w = (e, w') \<Longrightarrow> aims t0 w'" using aims_trans [OF I aims_plain(5)] by (auto simp: smtp_sys_def)
  show "doSend P sm w = Some (r, sm', w') \<Longrightarrow> aims t0 w'" using aims_trans [OF I doSend_aims] by blast
qed

lemma after_failure_aims: "aims t (after_failure P e b t)"
proof -
  obtain r u where u: "execute P (''RSET'' @ CRLF) [250] False t = (r, u)" by fastforce
  with execute_aims [OF u] aims_trans [OF execute_aims [OF u] aims_terminate] show ?thesis
    by (auto simp: after_failure_def split: sum.splits)
qed

lemma waitForRetry_aims: "waitForRetry P d t = (r, t') \<Longrightarrow> aims t t'"
  by (auto simp: waitForRetry_def Let_def split: option.splits if_splits)

lemma checkRestartThreshold_aims: "aims t (checkRestartThreshold P t)"
proof -
  let ?t = "t\<lparr>s_restartCounter := s_restartCounter t + 1\<rparr>"
  let ?u = "(stop_conn P ?t)\<lparr>s_restartCounter := 0\<rparr>"
  have u: "aims t ?u" using aims_trans [OF aims_fields(7) aims_trans [OF aims.stop_conn aims_fields(7)]] .
  have "aims t (happen (EvSleep d) ?u)" for d using aims_trans [OF u aims_plain(5)] .
  with u show ?thesis unfolding checkRestartThreshold_def Let_def by auto
qed

lemma send_loop_aims:
  assumes "send_loop P left msg env b t = Some (r, b', t')" "bt_DoSend b = Some (doSend P)"
  shows "aims t t' \<and> bt_DoSend b' = Some (doSend P)"
  using assms
proof (induction left arbitrary: b t rule: less_induct)
  case (less left)
  obtain q b1 t1 where q: "base_Send (smtp_sys P) b msg env t = Some (q, b1, t1)"
    using less.prems(1) by (subst (asm) send_loop.simps) (auto split: option.splits)
  have t1: "aims t t1" "bt_DoSend b1 = Some (doSend P)" using aims_hook.send_keeps [OF q less.prems(2) aims_refl] by auto
  show ?case
  proof (cases q)
    case (Inr sm)
    with less.prems q have "t' = checkRestartThreshold P t1" "b' = b1" by (simp_all add: send_loop.simps [of _ left])
    with t1 aims_trans [OF t1(1) checkRestartThreshold_aims] show ?thesis by simp
  next
    case (Inl err)
    define retry where "retry = (isTransientSMTPError err \<and> 0 < left)"
    let ?u = "after_failure P err retry t1"
    have u: "aims t ?u" using aims_trans [OF t1(1) after_failure_aims] .
    obtain y v where y: "waitForRetry P (s_retryDelay ?u) ?u = (y, v)" by fastforce
    have v: "aims t v" using aims_trans [OF u waitForRetry_aims [OF y]] .
    have eq: "Some (r, b', t') = (if \<not> retry then Some (Inl err, b1, ?u)
        else case y of Some err \<Rightarrow> Some (Inl err, b1, v)
          | None \<Rightarrow> (case left of 0 \<Rightarrow> None | Suc k \<Rightarrow> send_loop P k msg env b1 v))"
      using y unfolding less.prems(1) [symmetric]
      by (subst send_loop.simps) (cases retry; cases y; simp add: q Inl Let_def retry_def [symmetric])
    show ?thesis
    proof (cases "retry \<and> y = None")
      case True
      with eq obtain k where k: "left = Suc k" "send_loop P k msg env b1 v = Some (r, b', t')" by (cases left) auto
      from less.IH [OF _ k(2) t1(2)] k(1) have "aims v t'" "bt_DoSend b' = Some (doSend P)" by simp_all
      with aims_trans [OF v] show ?thesis by blast
    next
      case False
      with eq have "b' = b1" "t' = ?u \<or> t' = v" by (auto split: option.splits if_splits)
      with u v t1(2) show ?thesis by auto
    qed
  qed
qed

text \<open>A transport in use, without a change of its configuration.\<close>

inductive smtp_uses :: "peer \<Rightarrow> smtp base_transport \<Rightarrow> smtp \<Rightarrow> smtp base_transport \<Rightarrow> smtp \<Rightarrow> bool" for P b t where
  uses_none: "smtp_uses P b t b t"
| uses_send: "smtp_uses P b t b1 t1 \<Longrightarrow> smtp_Send P msg env b1 t1 = Some (r, b2, t2) \<Longrightarrow> smtp_uses P b t b2 t2"
| uses_close: "smtp_uses P b t b1 t1 \<Longrightarrow> smtp_Close P t1 = (r, t2) \<Longrightarrow> smtp_uses P b t b1 t2"

lemma smtp_uses_aims: "smtp_uses P b t b' t' \<Longrightarrow> bt_DoSend b = Some (doSend P) \<Longrightarrow> aims t t' \<and> bt_DoSend b' = Some (doSend P)"
proof (induction rule: smtp_uses.induct)
  case (uses_send b1 t1 msg env r b2 t2)
  then show ?case using send_loop_aims [of P _ msg env b1 t1 r b2 t2] aims_trans unfolding smtp_Send_def by blast
next
  case (uses_close b1 t1 r t2)
  then show ?case using aims_trans [OF _ aims.stop_conn] by (auto simp: smtp_Close_def)
qed simp

end
