(* ===== verification/Smtp_Concurrent.thy ===== *)
theory Smtp_Concurrent
  imports Smtp_Targets
begin

text \<open>
  Concurrent senders on one SMTP transport (\<^verbatim>\<open>Transport.Send\<close> in \<^verbatim>\<open>transport/smtp/smtp.go\<close>,
  \<^verbatim>\<open>BaseTransport.Send\<close> in \<^verbatim>\<open>transport.go\<close>). The code protects its state by two mutexes: the throttle
  runs under one of them, the delivery hook and the clean-up after an attempt each under the
  other. A send is therefore a sequence of atomic steps, one per critical section, and steps of
  different senders interleave in any order. Each sender has its own context, so its own peer.
\<close>

section \<open>A send, step by step\<close>

text \<open>\<^verbatim>\<open>BaseTransport.Send\<close> up to the throttle: it takes no lock.\<close>

definition base_prepare :: "'w sys \<Rightarrow> raw_message \<Rightarrow> envelope option \<Rightarrow> 'w \<Rightarrow> (goerr + sent) \<times> 'w" where
  "base_prepare S msg envelope w =
    (case ctx_Err S w of
       Some err \<Rightarrow> (Inl err, w)
     | None \<Rightarrow>
     if isNilRawMessage msg then
       (Inl (Errorf ''%w: message must not be nil'' [OErr (Sentinel ErrInvalidArgument)]), w)
     else
       (let msg = (case msg of MsgRaw m \<Rightarrow> MsgRaw (Message_Clone m) | _ \<Rightarrow> msg) in
        case (case envelope of None \<Rightarrow> EnvelopeFromMessage (sys_lib S) msg | Some e \<Rightarrow> Inr (Envelope_Clone e)) of
          Inl err \<Rightarrow> (Inl err, w)
        | Inr envelope \<Rightarrow> NewSentMessage S msg (Some envelope) w))"

lemma base_Send_steps:
  assumes "bt_DoSend b = Some DoSend"
  shows "base_Send S b msg envelope w =
    (case base_prepare S msg envelope w of
       (Inl err, w) \<Rightarrow> Some (Inl err, b, w)
     | (Inr sm, w) \<Rightarrow>
         (case checkThrottling S b w of
            (Some err, b, w) \<Rightarrow> Some (Inl err, b, w)
          | (None, b, w) \<Rightarrow>
              (case DoSend sm w of
                 None \<Rightarrow> None
               | Some (Some err, sm, w) \<Rightarrow> Some (Inl (wrapTransportError err), b, w)
               | Some (None, sm, w) \<Rightarrow> Some (Inr (Some sm), b, w))))"
  unfolding base_Send_def base_prepare_def assms option.case Let_def
  by (simp split: option.split sum.split)

text \<open>Where a sender is in \<^verbatim>\<open>Send\<close>; the numbers are the retries it has left.\<close>

datatype phase =
  Ready nat
| Checked sent nat
| Admitted sent nat
| Accepted sent
| Refused goerr nat
| Backoff nat
| Done outcome

record sender =
  sd_peer :: peer
  sd_msg :: raw_message
  sd_env :: "envelope option"
  sd_phase :: phase

text \<open>The next critical section of a sender; \<open>None\<close> when it is done or panics.\<close>

definition advance ::
  "peer \<Rightarrow> raw_message \<Rightarrow> envelope option \<Rightarrow> phase \<Rightarrow> smtp base_transport \<Rightarrow> smtp \<Rightarrow> (phase \<times> smtp base_transport \<times> smtp) option" where
  "advance P msg env ph b t =
    (case ph of
       Ready left \<Rightarrow>
         (case base_prepare (smtp_sys P) msg env t of
            (Inl err, t) \<Rightarrow> Some (Refused err left, b, t)
          | (Inr sm, t) \<Rightarrow> Some (Checked sm left, b, t))
     | Checked sm left \<Rightarrow>
         (case checkThrottling (smtp_sys P) b t of
            (Some err, b, t) \<Rightarrow> Some (Refused err left, b, t)
          | (None, b, t) \<Rightarrow> Some (Admitted sm left, b, t))
     | Admitted sm left \<Rightarrow>
         (case doSend P sm t of
            None \<Rightarrow> None
          | Some (Some err, sm, t) \<Rightarrow> Some (Refused (wrapTransportError err) left, b, t)
          | Some (None, sm, t) \<Rightarrow> Some (Accepted sm, b, t))
     | Accepted sm \<Rightarrow> Some (Done (Inr (Some sm)), b, checkRestartThreshold P t)
     | Refused err left \<Rightarrow>
         (let retry = (isTransientSMTPError err \<and> 0 < left); t = after_failure P err retry t in
          Some (if retry then Backoff (left - 1) else Done (Inl err), b, t))
     | Backoff left \<Rightarrow>
         (case waitForRetry P (s_retryDelay t) t of
            (Some err, t) \<Rightarrow> Some (Done (Inl err), b, t)
          | (None, t) \<Rightarrow> Some (Ready left, b, t))
     | Done r \<Rightarrow> None)"

text \<open>A sender alone: its steps, in a row, are \<^verbatim>\<open>Send\<close>.\<close>

inductive alone :: "peer \<Rightarrow> raw_message \<Rightarrow> envelope option \<Rightarrow> phase \<times> smtp base_transport \<times> smtp \<Rightarrow> phase \<times> smtp base_transport \<times> smtp \<Rightarrow> bool"
  for P msg env where
  alone_refl: "alone P msg env c c"
| alone_step: "advance P msg env ph b t = Some c \<Longrightarrow> alone P msg env c d \<Longrightarrow> alone P msg env (ph, b, t) d"

lemma alone_Send:
  assumes "send_loop P left msg env b t = Some (r, b', t')" "bt_DoSend b = Some (doSend P)"
  shows "alone P msg env (Ready left, b, t) (Done r, b', t')"
  using assms
proof (induction left arbitrary: b t rule: less_induct)
  case (less left)
  obtain q b1 t1 where q: "base_Send (smtp_sys P) b msg env t = Some (q, b1, t1)"
    using less.prems(1) by (subst (asm) send_loop.simps) (auto split: option.splits)
  obtain p u where p: "base_prepare (smtp_sys P) msg env t = (p, u)" by fastforce
  obtain e b2 v where e: "checkThrottling (smtp_sys P) b u = (e, b2, v)" by (metis prod_cases3)
  have failed: "alone P msg env (Refused err left, b1, t1) (Done r, b', t')" if err: "q = Inl err" for err
  proof -
    define retry where "retry = (isTransientSMTPError err \<and> 0 < left)"
    let ?u = "after_failure P err retry t1"
    obtain y w where y: "waitForRetry P (s_retryDelay ?u) ?u = (y, w)" by fastforce
    have eq: "Some (r, b', t') = (if \<not> retry then Some (Inl err, b1, ?u)
        else case y of Some err \<Rightarrow> Some (Inl err, b1, w)
          | None \<Rightarrow> (case left of 0 \<Rightarrow> None | Suc k \<Rightarrow> send_loop P k msg env b1 w))"
      using y unfolding less.prems(1) [symmetric]
      by (subst send_loop.simps) (cases retry; cases y; simp add: q err Let_def retry_def [symmetric])
    have a: "advance P msg env (Refused err left) b1 t1 = Some (if retry then Backoff (left - 1) else Done (Inl err), b1, ?u)"
      by (simp add: advance_def retry_def Let_def)
    show ?thesis
    proof (cases retry)
      case True
      have w: "advance P msg env (Backoff (left - 1)) b1 ?u = Some (case y of Some e \<Rightarrow> Done (Inl e) | None \<Rightarrow> Ready (left - 1), b1, w)"
        using y by (simp add: advance_def split: option.split)
      have "alone P msg env (case y of Some e \<Rightarrow> Done (Inl e) | None \<Rightarrow> Ready (left - 1), b1, w) (Done r, b', t')"
      proof (cases y)
        case None
        with eq True obtain k where k: "left = Suc k" "send_loop P k msg env b1 w = Some (r, b', t')" by (cases left) auto
        have "bt_DoSend b1 = Some (doSend P)" by (rule base_Send_hook [OF q less.prems(2)])
        from less.IH [OF _ k(2) this] k(1) None show ?thesis by simp
      qed (use eq True in \<open>simp add: alone_refl\<close>)
      with a w True show ?thesis by (auto intro: alone_step)
    qed (use eq a in \<open>auto intro: alone_step alone_refl\<close>)
  qed
  show ?case
  proof (cases p)
    case (Inl err)
    then have "q = Inl err" "b1 = b" "t1 = u" using q unfolding base_Send_steps [OF less.prems(2)] by (simp_all add: p)
    with failed [OF this(1)] show ?thesis by (intro alone_step [of P msg env "Ready left" b t "(Refused err left, b, u)"]) (simp_all add: advance_def p Inl)
  next
    case (Inr sm)
    have r: "advance P msg env (Ready left) b t = Some (Checked sm left, b, u)" by (simp add: advance_def p Inr)
    show ?thesis
    proof (cases e)
      case (Some err)
      then have "q = Inl err" "b1 = b2" "t1 = v" using q unfolding base_Send_steps [OF less.prems(2)] by (simp_all add: p Inr e)
      with failed [OF this(1)] r show ?thesis
        by (intro alone_step [OF r] alone_step [of P msg env "Checked sm left" b u "(Refused err left, b2, v)"]) (simp_all add: advance_def e Some)
    next
      case None
      have c: "advance P msg env (Checked sm left) b u = Some (Admitted sm left, b2, v)" by (simp add: advance_def e None)
      obtain x sm' w where d: "doSend P sm v = Some (x, sm', w)"
        using q unfolding base_Send_steps [OF less.prems(2)] by (simp add: p Inr e None split: option.splits) (metis prod_cases3)
      show ?thesis
      proof (cases x)
        case (Some err)
        then have "q = Inl (wrapTransportError err)" "b1 = b2" "t1 = w"
          using q unfolding base_Send_steps [OF less.prems(2)] by (simp_all add: p Inr e None d)
        with failed [OF this(1)] show ?thesis
          by (intro alone_step [OF r] alone_step [OF c] alone_step [of P msg env "Admitted sm left" b2 v "(Refused (wrapTransportError err) left, b2, w)"])
             (simp_all add: advance_def d Some)
      next
        case x: None
        then have "q = Inr (Some sm')" "b1 = b2" "t1 = w"
          using q unfolding base_Send_steps [OF less.prems(2)] by (simp_all add: p Inr e None d)
        then have fin: "r = Inr (Some sm')" "b' = b2" "t' = checkRestartThreshold P w"
          using less.prems(1) q by (simp_all add: send_loop.simps [of _ left])
        have "advance P msg env (Admitted sm left) b2 v = Some (Accepted sm', b2, w)" by (simp add: advance_def d x)
        moreover have "advance P msg env (Accepted sm') b2 w = Some (Done r, b', t')" by (simp add: advance_def fin)
        ultimately show ?thesis using r c alone_refl alone_step by metis
      qed
    qed
  qed
qed

section \<open>Interleaving\<close>

text \<open>
  A transport in shared use: it was created and configured (and maybe used) by one goroutine;
  then senders arrive, each with its own context, take their steps in any order, and the
  transport may be closed in between.
\<close>

inductive shared_use :: "sender list \<Rightarrow> smtp base_transport \<Rightarrow> smtp \<Rightarrow> bool" where
  shared_start: "smtp_run P b t \<Longrightarrow> shared_use [] b t"
| shared_join: "shared_use ss b t \<Longrightarrow> sd_phase sd = Ready (nat (s_retryAttempts t)) \<Longrightarrow> shared_use (ss @ [sd]) b t"
| shared_step: "shared_use ss b t \<Longrightarrow> i < length ss \<Longrightarrow>
    advance (sd_peer (ss ! i)) (sd_msg (ss ! i)) (sd_env (ss ! i)) (sd_phase (ss ! i)) b t = Some (ph, b', t') \<Longrightarrow>
    shared_use (ss[i := (ss ! i)\<lparr>sd_phase := ph\<rparr>]) b' t'"
| shared_close: "shared_use ss b t \<Longrightarrow> smtp_Close P t = (r, t') \<Longrightarrow> shared_use ss b t'"

text \<open>What a sender has achieved, given what was written so far.\<close>

definition prepared :: "peer \<Rightarrow> raw_message \<Rightarrow> envelope option \<Rightarrow> sent \<Rightarrow> bool" where
  "prepared P msg env sm \<longleftrightarrow> rendered (p_lib P) msg (sm_raw sm) \<and>
    (\<exists>e. sm_envelope sm = Some e \<and> (case env of Some x \<Rightarrow> e = x | None \<Rightarrow> EnvelopeFromMessage (p_lib P) msg = Inr e))"

definition achieved :: "event list \<Rightarrow> peer \<Rightarrow> raw_message \<Rightarrow> envelope option \<Rightarrow> phase \<Rightarrow> bool" where
  "achieved tr P msg env ph \<longleftrightarrow>
    (case ph of
       Checked sm left \<Rightarrow> prepared P msg env sm
     | Admitted sm left \<Rightarrow> prepared P msg env sm
     | Accepted sm \<Rightarrow> delivered (p_lib P) msg env sm (writes tr)
     | Done (Inr r) \<Rightarrow> \<exists>sm. r = Some sm \<and> delivered (p_lib P) msg env sm (writes tr)
     | _ \<Rightarrow> True)"

lemma achieved_later: "achieved tr P msg env ph \<Longrightarrow> achieved (tr @ later) P msg env ph"
  by (auto simp: achieved_def intro: delivered_append split: phase.splits sum.splits)

text \<open>Every step keeps the invariant and only adds to the trace.\<close>

definition grows :: "smtp \<Rightarrow> smtp \<Rightarrow> bool" where
  "grows t t' \<longleftrightarrow> (smtp_ok t \<longrightarrow> smtp_ok t') \<and> (\<exists>later. s_trace t' = s_trace t @ later)"

lemma growsI: "steps t t' \<Longrightarrow> aims t t' \<Longrightarrow> grows t t'"
  using steps_ok by (auto simp: grows_def aims_def)

lemma prepare_grows:
  assumes "base_prepare (smtp_sys P) msg env t = (r, t')"
  shows "grows t t'"
proof -
  have "t' = t \<or> (\<exists>n. t' = happen (EvRand n) t)"
    using assms unfolding base_prepare_def NewSentMessage_def Let_def
    by (auto simp: smtp_sys_def split: option.splits if_splits sum.splits raw_message.splits prod.splits)
  then show ?thesis by (auto intro: growsI)
qed

lemma throttle_grows: "checkThrottling (smtp_sys P) b t = (r, b', t') \<Longrightarrow> grows t t'"
  by (auto simp: checkThrottling_def smtp_sys_def Let_def intro!: growsI split: if_splits option.splits)

lemma prepare_prepared:
  assumes "base_prepare (smtp_sys P) msg env t = (Inr sm, t')"
  shows "prepared P msg env sm"
proof -
  have clone: "(case msg of MsgRaw m \<Rightarrow> MsgRaw (Message_Clone m) | _ \<Rightarrow> msg) = msg" by (cases msg) auto
  have lib: "sys_lib (smtp_sys P) = p_lib P" by (simp add: smtp_sys_def)
  from assms obtain e where e: "(case env of None \<Rightarrow> EnvelopeFromMessage (p_lib P) msg | Some e \<Rightarrow> Inr e) = Inr e"
    "NewSentMessage (smtp_sys P) msg (Some e) t = (Inr sm, t')"
    unfolding base_prepare_def clone Let_def lib by (auto split: option.splits sum.splits if_splits)
  with NewSentMessage_Inr [OF e(2)] NewSentMessage_rendered [OF e(2)] show ?thesis
    unfolding prepared_def lib by (auto split: option.splits)
qed

lemma prepared_delivered:
  assumes "doSend P sm t = Some (None, sm', t')" "prepared P msg env sm"
  shows "delivered (p_lib P) msg env sm' (writes (s_trace t'))"
proof -
  obtain e s rs pre where d: "sm_envelope sm = Some e" "spelled (p_lib P) e s rs"
    "writes (s_trace t') = pre @ delivery s rs (AnyAddressHasUnicodeLocalPart e) (sm_raw sm)"
    "sm_raw sm' = sm_raw sm" "sm_envelope sm' = sm_envelope sm"
    using doSend_Inr [OF assms(1)] by blast
  then have "writes (s_trace t') = pre @ delivery s rs (AnyAddressHasUnicodeLocalPart e) (sm_raw sm') @ []" by simp
  with d assms(2) show ?thesis unfolding delivered_def prepared_def by (metis option.inject)
qed

lemma advance_step:
  assumes "advance P msg env ph b t = Some (ph', b', t')"
  shows "grows t t' \<and> (achieved (s_trace t) P msg env ph \<longrightarrow> achieved (s_trace t') P msg env ph')"
proof (cases ph)
  case (Ready left)
  obtain r u where r: "base_prepare (smtp_sys P) msg env t = (r, u)" by fastforce
  with assms Ready prepare_grows [OF r] prepare_prepared show ?thesis
    by (cases r) (auto simp: advance_def achieved_def)
next
  case (Checked sm left)
  obtain r b1 u where r: "checkThrottling (smtp_sys P) b t = (r, b1, u)" by (metis prod_cases3)
  with assms Checked throttle_grows [OF r] show ?thesis by (cases r) (auto simp: advance_def achieved_def)
next
  case (Admitted sm left)
  with assms obtain r sm' u where r: "doSend P sm t = Some (r, sm', u)"
    by (simp add: advance_def split: option.splits) (metis prod_cases3)
  have "grows t u" using doSend_ok [OF r] doSend_aims [OF r] by (auto simp: grows_def aims_def)
  with assms Admitted r prepared_delivered show ?thesis by (cases r) (auto simp: advance_def achieved_def)
next
  case (Accepted sm)
  with assms have "t' = checkRestartThreshold P t" "ph' = Done (Inr (Some sm))" by (simp_all add: advance_def)
  moreover have g: "grows t (checkRestartThreshold P t)" by (intro growsI checkRestartThreshold_steps checkRestartThreshold_aims)
  moreover obtain later where "s_trace (checkRestartThreshold P t) = s_trace t @ later" using g by (auto simp: grows_def)
  ultimately show ?thesis using Accepted by (auto simp: achieved_def intro: delivered_append)
next
  case (Refused err left)
  with assms have "t' = after_failure P err (isTransientSMTPError err \<and> 0 < left) t" "(\<exists>k. ph' = Backoff k) \<or> ph' = Done (Inl err)"
    by (auto simp: advance_def Let_def split: if_splits)
  then show ?thesis using growsI [OF after_failure_steps after_failure_aims] by (auto simp: achieved_def)
next
  case (Backoff left)
  obtain r u where r: "waitForRetry P (s_retryDelay t) t = (r, u)" by fastforce
  with assms Backoff growsI [OF waitForRetry_steps [OF r] waitForRetry_aims [OF r]] show ?thesis
    by (cases r) (auto simp: advance_def achieved_def)
qed (use assms in \<open>simp add: advance_def\<close>)

lemma shared_use_safe:
  "shared_use ss b t \<Longrightarrow> smtp_ok t \<and> (\<forall>sd\<in>set ss. achieved (s_trace t) (sd_peer sd) (sd_msg sd) (sd_env sd) (sd_phase sd))"
proof (induction rule: shared_use.induct)
  case (shared_start P b t)
  then show ?case using smtp_run_ok by auto
next
  case (shared_join ss b t sd)
  then show ?case by (auto simp: achieved_def)
next
  case (shared_step ss b t i ph b' t')
  let ?sd = "ss ! i"
  have a: "grows t t'" "achieved (s_trace t') (sd_peer ?sd) (sd_msg ?sd) (sd_env ?sd) ph"
    using advance_step [OF shared_step(3)] shared_step by auto
  then obtain later where l: "s_trace t' = s_trace t @ later" by (auto simp: grows_def)
  have "achieved (s_trace t') (sd_peer sd) (sd_msg sd) (sd_env sd) (sd_phase sd)"
    if "sd \<in> set (ss[i := ?sd\<lparr>sd_phase := ph\<rparr>])" for sd
    using set_update_subset_insert [of ss i "?sd\<lparr>sd_phase := ph\<rparr>"] that a(2) shared_step.IH achieved_later unfolding l by auto
  then show ?case using a(1) shared_step.IH by (auto simp: grows_def)
next
  case (shared_close ss b t P r t')
  have "grows t (stop_conn P t)" by (intro growsI stop_conn_steps aims.stop_conn)
  then show ?case using shared_close achieved_later by (auto simp: smtp_Close_def grows_def)
qed

text \<open>A schedule: the senders whose steps are taken, in order.\<close>

fun run_schedule :: "nat list \<Rightarrow> sender list \<Rightarrow> smtp base_transport \<Rightarrow> smtp \<Rightarrow> (sender list \<times> smtp base_transport \<times> smtp) option" where
  "run_schedule [] ss b t = Some (ss, b, t)"
| "run_schedule (i # is) ss b t =
    (if length ss \<le> i then None
     else case advance (sd_peer (ss ! i)) (sd_msg (ss ! i)) (sd_env (ss ! i)) (sd_phase (ss ! i)) b t of
       None \<Rightarrow> None
     | Some (ph, b, t) \<Rightarrow> run_schedule is (ss[i := (ss ! i)\<lparr>sd_phase := ph\<rparr>]) b t)"

lemma run_schedule_shared:
  "run_schedule is ss b t = Some (ss', b', t') \<Longrightarrow> shared_use ss b t \<Longrightarrow> shared_use ss' b' t'"
proof (induction "is" ss b t rule: run_schedule.induct)
  case (2 i "is" ss b t)
  from 2(2) obtain ph b1 t1 where a: "i < length ss"
    "advance (sd_peer (ss ! i)) (sd_msg (ss ! i)) (sd_env (ss ! i)) (sd_phase (ss ! i)) b t = Some (ph, b1, t1)"
    by (auto split: if_splits option.splits)
  with 2(2) have "run_schedule is (ss[i := (ss ! i)\<lparr>sd_phase := ph\<rparr>]) b1 t1 = Some (ss', b', t')" by simp
  moreover have "shared_use (ss[i := (ss ! i)\<lparr>sd_phase := ph\<rparr>]) b1 t1" by (rule shared_step [OF 2(3) a])
  ultimately show ?case using 2(1) [OF _ a(2) refl refl] a(1) by simp
qed simp

end
