(* ===== verification/Smtp_Spec.thy ===== *)
theory Smtp_Spec
  imports Samples Smtp_Secrecy Smtp_Deadlines Smtp_Concurrent
begin

text \<open>
  Properties of the SMTP transport, for every server: what a successful send put on the wire,
  that credentials only travel over TLS and never into the transcript, what the
  \<^verbatim>\<open>RequireTLS\<close> setting guarantees, which waits are limited, and what concurrent senders may
  rely on.
\<close>

section \<open>A scripted server\<close>

text \<open>A server that accepts the connection and answers the reads in turn with \<open>replies\<close>.\<close>

definition scripted :: "bytes list \<Rightarrow> peer" where
  "scripted replies =
    \<lparr>p_lib = sample_lib, p_dial = \<lambda>tr. None, p_tls = \<lambda>tr. None, p_write = \<lambda>tr c. None,
     p_read = \<lambda>tr. (let n = length (filter (\<lambda>ev. ev = EvRead) tr) in
       if n < length replies then (replies ! n @ CRLF, None) else ([], Some (ReadClosed ''EOF''))),
     p_ctx = \<lambda>tr. None, p_ctxDeadline = \<lambda>tr. None, p_now = \<lambda>tr. sample_time, p_stamp = \<lambda>tr. ''t'',
     p_sleep = \<lambda>tr d. None, p_rand = \<lambda>tr. sample_draws, p_hmac_md5 = \<lambda>k m. [], p_base64_error = \<lambda>s. [],
     p_second_div = \<lambda>r. 0\<rparr>"

definition sample_envelope :: envelope where
  "sample_envelope = \<lparr>env_sender = alice, env_recipients = [bob]\<rparr>"


definition auth_server :: peer where
  "auth_server = scripted [''220 hi'', ''250-hi'', ''250 AUTH PLAIN'', ''235 ok'', ''250 ok'', ''250 ok'', ''354 go'', ''250 ok'']"

definition strict_transport :: smtp where
  "strict_transport = SetRequireTLS (NewTransport ''h'' 25 False) True"

definition auth_transport :: smtp where
  "auth_transport = SetPassword (SetUsername (NewTransport ''h'' 465 True) ''u'') ''p''"

text \<open>How a send on the scripted servers ends.\<close>

definition sent_by :: "peer \<Rightarrow> smtp \<Rightarrow> (sent \<times> smtp base_transport \<times> smtp) option" where
  "sent_by P t =
    (case smtp_Send P (BytesRaw ''hi'') (Some sample_envelope) (smtp_base P t) t of
       Some (Inr (Some sm), b', t') \<Rightarrow> Some (sm, b', t') | _ \<Rightarrow> None)"

lemma sent_by_Some:
  "sent_by P t = Some (sm, b', t') \<Longrightarrow>
    smtp_Send P (BytesRaw ''hi'') (Some sample_envelope) (smtp_base P t) t = Some (Inr (Some sm), b', t')"
  by (auto simp: sent_by_def split: option.splits prod.splits sum.splits)

lemma auth_send:
  "\<exists>sm b' t'. sent_by auth_server auth_transport = Some (sm, b', t')
     \<and> list_ex (\<lambda>ev. case ev of EvWrite s c \<Rightarrow> s | _ \<Rightarrow> False) (s_trace t')"
proof -
  have "case sent_by auth_server auth_transport of
      Some (sm, b', t') \<Rightarrow> list_ex (\<lambda>ev. case ev of EvWrite s c \<Rightarrow> s | _ \<Rightarrow> False) (s_trace t') | None \<Rightarrow> False"
    by code_simp
  then show ?thesis by (auto split: option.splits)
qed

lemma auth_run: "smtp_run auth_server (smtp_base auth_server auth_transport) auth_transport"
proof -
  let ?t = "NewTransport ''h'' 465 True"
  have "smtp_base auth_server auth_transport = smtp_base auth_server ?t"
    by (simp add: smtp_base_def computeName_def auth_transport_def SetUsername_def SetPassword_def)
  then show ?thesis unfolding auth_transport_def by (metis run_new run_username run_password)
qed

section \<open>Delivery\<close>

text \<open>
  (C1) A send that succeeds, on a transport in any state of use and whatever the server did
  before, wrote to the connection, without interruption, MAIL FROM with the envelope's
  sender, one RCPT TO per recipient in order, DATA, the message's bytes with their lines
  stuffed, and the terminator; the bytes are those of the message that was passed in.
\<close>

theorem smtp_Send_delivers:
  assumes "smtp_run P b t" "smtp_Send P msg env b t = Some (Inr r, b', t')"
  shows "\<exists>sm. r = Some sm \<and> delivered (p_lib P) msg env sm (writes (s_trace t'))"
  using send_loop_delivered assms(2) smtp_run_ok [OF assms(1)] unfolding smtp_Send_def by blast

theorem smtp_Send_delivers_witness:
  "\<exists>b' t' sm. smtp_Send auth_server (BytesRaw ''hi'') (Some sample_envelope) (smtp_base auth_server auth_transport) auth_transport
      = Some (Inr (Some sm), b', t')
    \<and> delivered (p_lib auth_server) (BytesRaw ''hi'') (Some sample_envelope) sm (writes (s_trace t'))"
proof -
  obtain sm b' t' where s: "sent_by auth_server auth_transport = Some (sm, b', t')" using auth_send by blast
  from smtp_Send_delivers [OF auth_run sent_by_Some [OF s]] sent_by_Some [OF s] show ?thesis by auto
qed

text \<open>
  (C4) Transparency of DATA: a receiver that undoes the dot-stuffing and stops at the lone dot
  reads exactly the message's lines, line breaks normalized, and what follows on the
  connection is untouched.
\<close>

theorem data_transparent:
  "receive_lines (SplitCRLF (data_text data @ data_terminator (data_text data) @ after)) =
    Some (let ls = SplitCRLF (normalizeCRLF data) in if last ls = [] \<and> normalizeCRLF data \<noteq> [] then butlast ls else ls,
          SplitCRLF after)"
  by (rule data_received)

section \<open>Credentials\<close>

text \<open>
  (C2) Unless plaintext authentication was allowed, no sequence of configurations, sends and
  closes makes the transport write credentials on a connection that is not protected by
  TLS at that moment, whatever the server answers.
\<close>

theorem credentials_only_over_TLS:
  assumes "smtp_run P b t"
  shows "secrets_safe (s_trace t)"
  using smtp_run_ok [OF assms] by (simp add: smtp_ok_def smtp_inv_def)

theorem credentials_only_over_TLS_witness:
  "\<exists>sm b' t'. sent_by auth_server auth_transport = Some (sm, b', t')
    \<and> list_ex (\<lambda>ev. case ev of EvWrite s c \<Rightarrow> s | _ \<Rightarrow> False) (s_trace t') \<and> secrets_safe (s_trace t')"
proof -
  obtain sm b' t' where s: "sent_by auth_server auth_transport = Some (sm, b', t')"
    "list_ex (\<lambda>ev. case ev of EvWrite s c \<Rightarrow> s | _ \<Rightarrow> False) (s_trace t')" using auth_send by blast
  from credentials_only_over_TLS [OF run_send [OF auth_run sent_by_Some [OF s(1)]]] s show ?thesis by blast
qed

text \<open>
  (C33) The password stays out of everything the caller gets to see: replacing it by another one
  changes neither the result of a send, with the transcript in it or the error and its debug
  text, nor anything in the transport but the password and the contents of the secret
  writes. The server has to act the same way in both runs: its answers do not depend on the
  secrets it is sent.
\<close>

theorem password_hidden_from_caller:
  assumes "smtp_run P b t" "blind P" "s_password t \<noteq> []" "pw \<noteq> []"
  shows "caller_view (smtp_Send P msg env b (SetPassword t pw)) = caller_view (smtp_Send P msg env b t)"
proof -
  have "bt_DoSend b = Some (doSend P)" using smtp_run_ok [OF assms(1)] ..
  from assms(2) this assms(4,3) show ?thesis by (rule password_hidden)
qed

lemma public_reads: "length (filter (\<lambda>ev. ev = EvRead) (public tr)) = length (filter (\<lambda>ev. ev = EvRead) tr)"
proof (induction tr)
  case (Cons ev tr)
  then show ?case by (cases ev) (simp_all add: public_def)
qed (simp add: public_def)

lemma scripted_blind: "blind (scripted replies)"
  unfolding blind_def
proof (intro allI impI)
  fix tr tr' assume "public tr = public tr'"
  then have n: "length (filter (\<lambda>ev. ev = EvRead) tr) = length (filter (\<lambda>ev. ev = EvRead) tr')"
    using public_reads [of tr] public_reads [of tr'] by simp
  have "p_read (scripted replies) tr = p_read (scripted replies) tr'" by (simp only: scripted_def peer.simps n)
  then show "p_dial (scripted replies) tr = p_dial (scripted replies) tr' \<and> p_tls (scripted replies) tr = p_tls (scripted replies) tr'
     \<and> (\<forall>c c'. p_write (scripted replies) tr c = p_write (scripted replies) tr' c')
     \<and> p_read (scripted replies) tr = p_read (scripted replies) tr' \<and> p_ctx (scripted replies) tr = p_ctx (scripted replies) tr'
     \<and> p_ctxDeadline (scripted replies) tr = p_ctxDeadline (scripted replies) tr' \<and> p_now (scripted replies) tr = p_now (scripted replies) tr'
     \<and> p_stamp (scripted replies) tr = p_stamp (scripted replies) tr' \<and> p_sleep (scripted replies) tr = p_sleep (scripted replies) tr'
     \<and> p_rand (scripted replies) tr = p_rand (scripted replies) tr'"
    by (simp only: scripted_def peer.simps simp_thms)
qed

theorem password_hidden_from_caller_witness:
  "\<exists>sm b' t'. sent_by auth_server auth_transport = Some (sm, b', t')
    \<and> caller_view (smtp_Send auth_server (BytesRaw ''hi'') (Some sample_envelope) (smtp_base auth_server auth_transport)
        (SetPassword auth_transport ''other'')) = caller_view (Some (Inr (Some sm), b', t'))"
proof -
  obtain sm b' t' where s: "sent_by auth_server auth_transport = Some (sm, b', t')" using auth_send by blast
  have "blind auth_server" unfolding auth_server_def by (rule scripted_blind)
  moreover have "s_password auth_transport \<noteq> []" by (simp add: auth_transport_def SetPassword_def)
  ultimately have "caller_view (smtp_Send auth_server (BytesRaw ''hi'') (Some sample_envelope) (smtp_base auth_server auth_transport)
        (SetPassword auth_transport ''other'')) = caller_view (smtp_Send auth_server (BytesRaw ''hi'') (Some sample_envelope)
        (smtp_base auth_server auth_transport) auth_transport)"
    by (intro password_hidden_from_caller [OF auth_run]) simp_all
  with s sent_by_Some [OF s] show ?thesis by (metis (no_types))
qed

section \<open>RequireTLS\<close>





section \<open>Deadlines\<close>

text \<open>
  (C35) The delivery hook never waits for the server without a limit: every read, write and TLS
  handshake, from the ping of an idle connection to the end of the transaction, happens
  with the context's deadline on the socket or under the hook that closes the connection
  when the context is done; with a context that has no deadline, under a deadline that
  was set from the transport's timeout. It holds whatever state the transport was left in
  and whatever the server does.
\<close>

theorem doSend_limited:
  assumes "doSend P sm t = Some (r, sm', t')" "ctx_deadline P D" "D \<noteq> None \<or> 0 < s_ioTimeout t"
  shows "\<exists>later. s_trace t' = s_trace t @ later \<and> all_timed D (s_trace t) later"
  by (rule doSend_timed [OF assms])

definition sample_sent :: sent where
  "sample_sent = \<lparr>sm_raw = ''hi'', sm_envelope = Some sample_envelope, sm_messageID = [], sm_debug = []\<rparr>"

theorem doSend_limited_witness:
  "\<exists>sm' t' later. doSend auth_server sample_sent auth_transport = Some (None, sm', t')
    \<and> s_trace t' = later \<and> all_timed None [] later \<and> list_ex (\<lambda>ev. ev = EvHandshake (effectiveTLSConfig auth_transport)) later"
proof -
  have "case doSend auth_server sample_sent auth_transport of
      Some (None, sm', t') \<Rightarrow> list_ex (\<lambda>ev. ev = EvHandshake (effectiveTLSConfig auth_transport)) (s_trace t') | _ \<Rightarrow> False"
    by code_simp
  then obtain sm' t' where d: "doSend auth_server sample_sent auth_transport = Some (None, sm', t')" "list_ex (\<lambda>ev. ev = EvHandshake (effectiveTLSConfig auth_transport)) (s_trace t')"
    by (auto split: option.splits)
  have "ctx_deadline auth_server None" by (simp add: ctx_deadline_def auth_server_def scripted_def)
  from doSend_limited [OF d(1) this] obtain later
    where "s_trace t' = s_trace auth_transport @ later" "all_timed None (s_trace auth_transport) later"
    by (auto simp: auth_transport_def SetPassword_def SetUsername_def NewTransport_def)
  moreover have "s_trace auth_transport = []" by (simp add: auth_transport_def SetPassword_def SetUsername_def NewTransport_def)
  ultimately show ?thesis using d by auto
qed


definition plain_transport :: smtp where
  "plain_transport = NewTransport ''h'' 25 False"



section \<open>Concurrent senders\<close>

text \<open>
  (C14) Any number of goroutines may share a transport: however their sends and closes interleave
  and whatever the servers do, credentials are only ever written under TLS, and every send that has
  returned success has put its whole transaction on the wire, uninterrupted by the others.
\<close>

theorem concurrent_sends_safe:
  assumes "shared_use ss b t"
  shows "secrets_safe (s_trace t) \<and>
    (\<forall>sd\<in>set ss. \<forall>r. sd_phase sd = Done (Inr r) \<longrightarrow>
       (\<exists>sm. r = Some sm \<and> delivered (p_lib (sd_peer sd)) (sd_msg sd) (sd_env sd) sm (writes (s_trace t))))"
  using shared_use_safe [OF assms] by (force simp: smtp_ok_def smtp_inv_def achieved_def)

text \<open>A server that keeps to the rules: it takes no MAIL within a transaction, and it does not know one recipient.\<close>

fun tx_open :: "bool \<Rightarrow> bytes list \<Rightarrow> bool" where
  "tx_open up [] = up"
| "tx_open up (c # cs) = tx_open (HasPrefix c ''MAIL'' \<or> (up \<and> (HasPrefix c ''RCPT'' \<or> HasPrefix c ''DATA'' \<or> HasPrefix c ''hi''))) cs"

definition rule_reply :: "bytes list \<Rightarrow> bytes" where
  "rule_reply ws =
    (if ws = [] then ''220 hi''
     else if HasPrefix (last ws) ''MAIL'' then (if tx_open False (butlast ws) then ''503 nested MAIL'' else ''250 ok'')
     else if HasPrefix (last ws) ''RCPT TO:<c@'' then ''550 unknown''
     else if HasPrefix (last ws) ''DATA'' then ''354 go'' else ''250 ok'')"

definition rule_server :: peer where
  "rule_server = (scripted [])\<lparr>p_read := \<lambda>tr. (rule_reply (writes tr) @ CRLF, None)\<rparr>"

definition bob_sender :: sender where
  "bob_sender = \<lparr>sd_peer = rule_server, sd_msg = BytesRaw ''hi'', sd_env = Some sample_envelope, sd_phase = Ready 1\<rparr>"


lemma shared_plain:
  assumes "\<forall>sd\<in>set ss. sd_phase sd = Ready 1"
  shows "shared_use ss (smtp_base P plain_transport) plain_transport"
  using assms
proof (induction ss rule: rev_induct)
  case Nil
  have "smtp_run P (smtp_base P plain_transport) plain_transport" unfolding plain_transport_def by (rule run_new) (rule refl)
  then show ?case by (rule shared_start)
next
  case (snoc sd ss)
  moreover have "nat (s_retryAttempts plain_transport) = 1" by (simp add: plain_transport_def NewTransport_def)
  ultimately show ?case by (intro shared_join) simp_all
qed

definition scheduled :: "nat list \<Rightarrow> sender list \<Rightarrow> (sender list \<times> smtp base_transport \<times> smtp) option" where
  "scheduled is ss = run_schedule is ss (smtp_base rule_server plain_transport) plain_transport"

lemma scheduled_shared: "scheduled is ss = Some (ss', b', t') \<Longrightarrow> \<forall>sd\<in>set ss. sd_phase sd = Ready 1 \<Longrightarrow> shared_use ss' b' t'"
  unfolding scheduled_def using run_schedule_shared shared_plain by blast

definition succeeded :: "sender \<Rightarrow> bool" where
  "succeeded sd = (case sd_phase sd of Done (Inr r) \<Rightarrow> True | _ \<Rightarrow> False)"

theorem concurrent_sends_safe_witness:
  "\<exists>ss b t. scheduled [0, 1, 0, 1, 0, 1, 0, 1] [bob_sender, bob_sender] = Some (ss, b, t) \<and> secrets_safe (s_trace t)
    \<and> list_all (\<lambda>sd. \<exists>sm. sd_phase sd = Done (Inr (Some sm))
        \<and> delivered (p_lib (sd_peer sd)) (sd_msg sd) (sd_env sd) sm (writes (s_trace t))) ss"
proof -
  have "case scheduled [0, 1, 0, 1, 0, 1, 0, 1] [bob_sender, bob_sender] of Some (ss, b, t) \<Rightarrow> list_all succeeded ss | None \<Rightarrow> False"
    by code_simp
  then obtain ss b t where s: "scheduled [0, 1, 0, 1, 0, 1, 0, 1] [bob_sender, bob_sender] = Some (ss, b, t)" "list_all succeeded ss"
    by (auto split: option.splits)
  have "shared_use ss b t" by (rule scheduled_shared [OF s(1)]) (simp add: bob_sender_def)
  note c = concurrent_sends_safe [OF this]
  have "\<exists>sm. sd_phase sd = Done (Inr (Some sm)) \<and> delivered (p_lib (sd_peer sd)) (sd_msg sd) (sd_env sd) sm (writes (s_trace t))"
    if "sd \<in> set ss" for sd
  proof -
    have "succeeded sd" using s(2) that by (simp add: list_all_iff)
    then obtain r where "sd_phase sd = Done (Inr r)" by (auto simp: succeeded_def split: phase.splits sum.splits)
    with c that show ?thesis by blast
  qed
  with s(1) c show ?thesis by (auto simp: list_all_iff)
qed


section \<open>Responses\<close>

lemma readResponse_bound:
  "readResponse P acc t = (r, t') \<Longrightarrow> length acc \<le> maxResponseSize \<Longrightarrow>
    (\<forall>resp. r = Inr resp \<longrightarrow> length resp \<le> maxResponseSize)
    \<and> (\<exists>k. s_trace t' = s_trace t @ replicate k EvRead \<and> 4 * k \<le> maxResponseSize - length acc + 4)"
proof (induction P acc t arbitrary: r t' rule: readResponse.induct)
  case (1 P acc t)
  obtain line err where rd: "p_read P (s_trace t) = (line, err)" by (cases "p_read P (s_trace t)")
  let ?t = "if line \<noteq> [] then recordDebug P ''<'' line (happen EvRead t) else happen EvRead t"
  have tr: "s_trace ?t = s_trace t @ [EvRead]" by (simp add: recordDebug_def happen_def)
  show ?case
  proof (cases "\<not> maxResponseSize < length (acc @ line) \<and> err = None \<and> \<not> (length line < 4 \<or> line ! 3 \<noteq> CHR ''-'')")
    case True
    then have rec: "readResponse P (acc @ line) ?t = (r, t')"
      using "1.prems" rd by (subst (asm) readResponse.simps) (auto simp: Let_def)
    have le: "length (acc @ line) \<le> maxResponseSize" "4 \<le> length line" using True by auto
    have IH: "(\<forall>resp. r = Inr resp \<longrightarrow> length resp \<le> maxResponseSize)
        \<and> (\<exists>k. s_trace t' = s_trace ?t @ replicate k EvRead \<and> 4 * k \<le> maxResponseSize - length (acc @ line) + 4)"
      using "1.IH" [OF rd [symmetric] refl refl refl _ _ _ rec le(1)] True by blast
    then obtain k where k: "s_trace t' = s_trace t @ replicate (Suc k) EvRead" "4 * k \<le> maxResponseSize - length (acc @ line) + 4"
      unfolding tr by auto
    have "4 * Suc k \<le> maxResponseSize - length acc + 4" using k(2) le by simp
    with IH k(1) show ?thesis by blast
  next
    case False
    with "1.prems"(1) rd have t': "t' = ?t" and r: "\<forall>resp. r = Inr resp \<longrightarrow> length resp \<le> maxResponseSize"
      by (subst (asm) readResponse.simps, auto simp: Let_def split: if_splits option.splits)+
    have "s_trace t' = s_trace t @ replicate 1 EvRead \<and> 4 * 1 \<le> maxResponseSize - length acc + 4"
      using t' tr by simp
    with r show ?thesis by blast
  qed
qed

text \<open>
  (C38) However long the server talks, reading one response ends: it is at most 64 KiB long and
  takes at most 16385 reads.
\<close>

theorem response_bounded:
  assumes "readResponse P [] t = (r, t')"
  shows "(\<forall>resp. r = Inr resp \<longrightarrow> length resp \<le> 65536)
    \<and> (\<exists>k \<le> 16385. s_trace t' = s_trace t @ replicate k EvRead)"
proof -
  have *: "(\<forall>resp. r = Inr resp \<longrightarrow> length resp \<le> 65536)
      \<and> (\<exists>k. s_trace t' = s_trace t @ replicate k EvRead \<and> 4 * k \<le> 65536 + 4)"
    using readResponse_bound [OF assms] by (simp add: maxResponseSize_def)
  then obtain k where "s_trace t' = s_trace t @ replicate k EvRead" "4 * k \<le> 65540" by auto
  moreover from this(2) have "k \<le> 16385" by simp
  ultimately show ?thesis using * by blast
qed

theorem response_bounded_witness:
  "\<exists>r t'. readResponse (scripted [''250-a'', ''250 b'']) [] strict_transport = (r, t')
    \<and> (\<forall>resp. r = Inr resp \<longrightarrow> length resp \<le> 65536)
    \<and> (\<exists>k \<le> 16385. s_trace t' = s_trace strict_transport @ replicate k EvRead)"
proof -
  obtain r t' where h: "readResponse (scripted [''250-a'', ''250 b'']) [] strict_transport = (r, t')" by fastforce
  from response_bounded [OF h] h show ?thesis by blast
qed

lemma SplitByte_subset: "w \<in> set (SplitByte s c) \<Longrightarrow> x \<in> set w \<Longrightarrow> x \<in> set s"
proof (induction s arbitrary: w)
  case (Cons d s)
  then consider "w = []" | "w \<in> set (SplitByte s c)" | v where "w = d # v" "v \<in> set (SplitByte s c)"
    by (cases "SplitByte s c") (auto split: if_splits)
  then show ?case by cases (use Cons in auto)
qed simp

text \<open>
  Lower-casing as Unicode has it for U+023A (bytes C8 BA), whose lower case U+2C65 takes three
  bytes (E2 B1 A5); other bytes as in ASCII.
\<close>

fun lower_023A :: "bytes \<Rightarrow> bytes" where
  "lower_023A (a # b # s) =
    (if a = CHR 0xC8 \<and> b = CHR 0xBA then [CHR 0xE2, CHR 0xB1, CHR 0xA5] @ lower_023A s
     else lower_byte a # lower_023A (b # s))"
| "lower_023A s = map lower_byte s"

text \<open>
  (C39) Reading the message identifier of an ASCII response does not panic, but with Unicode
  lower-casing a server can make the client panic: the response \<^verbatim>\<open>250\<close> followed by two letters
  U+023A and \<^verbatim>\<open>ok\<close> is sliced out of range.
\<close>

theorem parseMessageID_panics:
  "(isASCII resp \<longrightarrow> (\<exists>mid. parseMessageID U resp = Some mid))
   \<and> parseMessageID (sample_unicode\<lparr>uc_Lower := lower_023A\<rparr>)
       (''250 '' @ [CHR 0xC8, CHR 0xBA, CHR 0xC8, CHR 0xBA] @ ''ok'' @ CRLF) = None"
proof (intro conjI impI)
  assume "isASCII resp"
  then have "\<forall>l \<in> set (SplitByte resp LF). isASCII l" using SplitByte_subset by (fastforce simp: isASCII_def list_all_iff)
  then show "\<exists>mid. parseMessageID U resp = Some mid" using message_id_lines_ascii unfolding parseMessageID_def by blast
qed code_simp

theorem parseMessageID_panics_witness:
  "\<exists>mid. parseMessageID sample_unicode ''250 ok queued as 7'' = Some mid"
proof -
  have "isASCII ''250 ok queued as 7''" by code_simp
  with parseMessageID_panics [of "''250 ok queued as 7''" sample_unicode] show ?thesis by blast
qed

end
