(* ===== verification/Smtp_Factory.thy ===== *)
theory Smtp_Factory
  imports Smtp_Targets Registry_Props
begin

text \<open>
  The SMTP factory (\<^verbatim>\<open>transport/smtp/factory.go\<close>): a transport from a DSN. A transport here
  is the conversation's state with its embedded base. \<^verbatim>\<open>strconv.ParseFloat\<close>, \<^verbatim>\<open>time.ParseDuration\<close>, \<^verbatim>\<open>net.ParseIP\<close> and
  SHA-256 are parameters.
\<close>

section \<open>TLS settings\<close>

definition newTLS :: tls_config where
  "newTLS = \<lparr>tc_ServerName = [], tc_MinVersion = VersionTLS12, tc_InsecureSkipVerify = False, tc_pin = None\<rparr>"

definition getTLS :: "tls_config option \<Rightarrow> tls_config" where
  "getTLS tc = (case tc of None \<Rightarrow> newTLS | Some c \<Rightarrow> c)"

definition is_hex :: "char \<Rightarrow> bool" where
  "is_hex c \<longleftrightarrow> is_digit c \<or> (97 \<le> byte c \<and> byte c \<le> 102) \<or> (65 \<le> byte c \<and> byte c \<le> 70)"

text \<open>\<^verbatim>\<open>hex.DecodeString\<close> succeeds on an even number of hexadecimal digits.\<close>

definition hex_valid :: "bytes \<Rightarrow> bool" where
  "hex_valid s \<longleftrightarrow> even (length s) \<and> list_all is_hex s"

definition normalizeFingerprint :: "unicode \<Rightarrow> bytes \<Rightarrow> goerr + bytes" where
  "normalizeFingerprint U fp =
    (let cleaned = ReplaceAll (ReplaceAll (ToLower U fp) '':'' []) '' '' [] in
     if \<not> hex_valid cleaned \<or> length cleaned \<noteq> 64 then
       Inl (Errorf ''%w: invalid peer_fingerprint %q (expected a SHA-256 hex digest)''
         [OErr (Sentinel ErrInvalidArgument), OStr fp])
     else Inr cleaned)"

text \<open>\<^verbatim>\<open>hex.EncodeToString\<close>.\<close>

definition hex_encode :: "bytes \<Rightarrow> bytes" where
  "hex_encode s = concat (map (\<lambda>c. hex_digits 2 (byte c)) s)"

fun verifyPeerCertificate :: "(bytes \<Rightarrow> bytes) \<Rightarrow> bytes \<times> bytes \<Rightarrow> bytes list \<Rightarrow> goerr option" where
  "verifyPeerCertificate sha256 (want, fp) [] =
    Some (Errorf ''%w: peer certificate fingerprint does not match %q'' [OErr (Sentinel ErrTransport), OStr fp])"
| "verifyPeerCertificate sha256 (want, fp) (raw # rest) =
    (if hex_encode (sha256 raw) = want then None else verifyPeerCertificate sha256 (want, fp) rest)"

section \<open>The transport a DSN describes\<close>

record esmtp =
  es_smtp :: smtp
  es_base :: "smtp base_transport"

record esmtp_lib =
  el_parseFloat :: "bytes \<Rightarrow> bytes + rat"
  el_parseDuration :: "bytes \<Rightarrow> duration option"
  el_parseIP :: "bytes \<Rightarrow> bool option"
  el_unicode :: unicode

definition isRemoteHost :: "unicode \<Rightarrow> bytes \<Rightarrow> bool" where
  "isRemoteHost U host \<longleftrightarrow> ToLower U (Trim host ''[]'') \<notin> {''localhost'', ''127.0.0.1'', ''::1''}"

definition esmtp_Supports :: "dsn \<Rightarrow> bool" where
  "esmtp_Supports d \<longleftrightarrow> dsn_scheme d = ''smtp'' \<or> dsn_scheme d = ''smtps''"

definition auto_tls_of :: "unicode \<Rightarrow> dsn \<Rightarrow> bool" where
  "auto_tls_of U d \<longleftrightarrow> dsn_Option d ''auto_tls'' [] = [] \<or> dsn_BoolOption U d ''auto_tls'' True"

definition tls_on_connect :: "unicode \<Rightarrow> dsn \<Rightarrow> bool" where
  "tls_on_connect U d \<longleftrightarrow>
    (if dsn_scheme d = ''smtps'' then True
     else auto_tls_of U d \<and>
       (dsn_Port d 0 = 465 \<or> (dsn_Port d 0 = 0 \<and> isRemoteHost U (dsn_host d))))"

text \<open>The TLS options, \<^verbatim>\<open>verify_peer\<close> first.\<close>

definition tls_options :: "unicode \<Rightarrow> dsn \<Rightarrow> goerr + tls_config option" where
  "tls_options U d =
    (let tc = (if dsn_Option d ''verify_peer'' [] \<noteq> [] \<and> \<not> dsn_BoolOption U d ''verify_peer'' True
                then Some ((getTLS None)\<lparr>tc_InsecureSkipVerify := True\<rparr>) else None);
         fp = dsn_Option d ''peer_fingerprint'' [] in
     if fp \<noteq> [] then
       bindE (normalizeFingerprint U fp) (\<lambda>want. Inr (Some ((getTLS tc)\<lparr>tc_pin := Some (want, fp)\<rparr>)))
     else Inr tc)"

text \<open>
  The error of \<^verbatim>\<open>strconv.Atoi\<close>, a \<^verbatim>\<open>*NumError\<close>: digits are read from the left, so an overflow of 64
  bits is reported before a bad byte behind it.
\<close>

definition atoi_error :: "bytes \<Rightarrow> goerr" where
  "atoi_error v =
    (let ds = (if v \<noteq> [] \<and> (hd v = CHR ''-'' \<or> hd v = CHR ''+'') then tl v else v);
         p = takeWhile is_digit ds in
     Errorf ''strconv.Atoi: parsing %q: %w''
       [OStr v, OErr (Foreign (if digits_value p < 2 ^ 64 \<and> (ds = [] \<or> p \<noteq> ds) then ''invalid syntax''
                               else ''value out of range''))])"

definition atoi_option :: "bytes \<Rightarrow> bytes \<Rightarrow> goerr + int" where
  "atoi_option fmt v =
    (case Atoi v of
       None \<Rightarrow> Inl (Errorf fmt [OErr (Sentinel ErrInvalidArgument), OStr v, OErr (atoi_error v)])
     | Some n \<Rightarrow> Inr n)"

definition float_option :: "esmtp_lib \<Rightarrow> bytes \<Rightarrow> goerr + rat" where
  "float_option E v =
    (case el_parseFloat E v of
       Inl err \<Rightarrow> Inl (Errorf ''%w: invalid max_per_second %q: %w''
         [OErr (Sentinel ErrInvalidArgument), OStr v, OErr (Foreign err)])
     | Inr rate \<Rightarrow> Inr rate)"

definition delay_option :: "esmtp_lib \<Rightarrow> bytes \<Rightarrow> goerr + duration" where
  "delay_option E v =
    (case el_parseDuration E v of
       None \<Rightarrow> Inl (Errorf ''%w: invalid retry_delay %q'' [OErr (Sentinel ErrInvalidArgument), OStr v])
     | Some delay \<Rightarrow>
         if delay < 0 then Inl (Errorf ''%w: invalid retry_delay %q'' [OErr (Sentinel ErrInvalidArgument), OStr v])
         else Inr delay)"

definition attempts_option :: "bytes \<Rightarrow> goerr + int" where
  "attempts_option v =
    (case Atoi v of
       None \<Rightarrow> Inl (Errorf ''%w: invalid retry_attempts %q'' [OErr (Sentinel ErrInvalidArgument), OStr v])
     | Some n \<Rightarrow>
         if n < 0 then Inl (Errorf ''%w: invalid retry_attempts %q'' [OErr (Sentinel ErrInvalidArgument), OStr v])
         else Inr n)"

definition with_source :: "dsn \<Rightarrow> smtp \<Rightarrow> smtp" where
  "with_source d t = (let ip = dsn_Option d ''source_ip'' [] in if ip \<noteq> [] then SetSourceIP t ip else t)"

definition with_tls :: "unicode \<Rightarrow> dsn \<Rightarrow> smtp \<Rightarrow> goerr + smtp" where
  "with_tls U d t = bindE (tls_options U d) (\<lambda>tc. Inr (if tc \<noteq> None then SetTLSConfig t tc else t))"

text \<open>The optional steps of \<^verbatim>\<open>Create\<close>, one per group of options, in the order of the code.\<close>

definition with_credentials :: "esmtp_lib \<Rightarrow> dsn \<Rightarrow> smtp \<Rightarrow> smtp" where
  "with_credentials E d t =
    (let t = (if dsn_user d \<noteq> [] then SetUsername t (dsn_user d) else t);
         t = (if dsn_password d \<noteq> [] then SetPassword t (dsn_password d) else t);
         ld = dsn_Option d ''local_domain'' []
     in if ld \<noteq> [] then SetLocalDomain (el_parseIP E) t ld else t)"

definition with_rate :: "esmtp_lib \<Rightarrow> dsn \<Rightarrow> smtp base_transport \<Rightarrow> goerr + smtp base_transport" where
  "with_rate E d b =
    (let mps = dsn_Option d ''max_per_second'' [] in
     if mps \<noteq> [] then bindE (float_option E mps) (\<lambda>rate. Inr (SetMaxPerSecond b rate)) else Inr b)"

definition with_restart :: "dsn \<Rightarrow> smtp \<Rightarrow> goerr + smtp" where
  "with_restart d t =
    (let rt = dsn_Option d ''restart_threshold'' []; s = dsn_Option d ''restart_threshold_sleep'' [] in
     if rt \<noteq> [] then
       bindE (atoi_option ''%w: invalid restart_threshold %q: %w'' rt) (\<lambda>threshold.
         bindE (if s \<noteq> [] then atoi_option ''%w: invalid restart_threshold_sleep %q: %w'' s else Inr 0)
           (\<lambda>sleep. Inr (SetRestartThreshold t threshold sleep)))
     else Inr t)"

definition with_ping :: "dsn \<Rightarrow> smtp \<Rightarrow> goerr + smtp" where
  "with_ping d t =
    (let pt = dsn_Option d ''ping_threshold'' [] in
     if pt \<noteq> [] then
       bindE (atoi_option ''%w: invalid ping_threshold %q: %w'' pt) (\<lambda>seconds. Inr (SetPingThreshold t seconds))
     else Inr t)"

definition defaultRetryAttempts :: int where
  "defaultRetryAttempts = 1"

definition defaultRetryDelay :: duration where
  "defaultRetryDelay = 250000000"

definition with_retry :: "esmtp_lib \<Rightarrow> dsn \<Rightarrow> smtp \<Rightarrow> goerr + smtp" where
  "with_retry E d t =
    (let ra = dsn_Option d ''retry_attempts'' []; rd = dsn_Option d ''retry_delay'' [] in
     if ra \<noteq> [] then
       bindE (attempts_option ra) (\<lambda>attempts.
         bindE (if rd \<noteq> [] then delay_option E rd else Inr defaultRetryDelay)
           (\<lambda>delay. Inr (SetRetry t attempts delay)))
     else if rd \<noteq> [] then bindE (delay_option E rd) (\<lambda>delay. Inr (SetRetry t defaultRetryAttempts delay))
     else Inr t)"

definition esmtp_Create :: "esmtp_lib \<Rightarrow> peer \<Rightarrow> dsn \<Rightarrow> goerr + esmtp" where
  "esmtp_Create E P d =
    (if \<not> esmtp_Supports d then
       Inl (Errorf ''%w: %q (supported by smtp: %q)''
         [OErr (Sentinel ErrUnsupportedScheme), OStr (dsn_scheme d), OStr ''smtp, smtps''])
     else
       (let U = el_unicode E;
            t0 = NewTransport (dsn_host d) (dsn_Port d 0) (tls_on_connect U d);
            b = smtp_base P t0;
            t = SetRequireTLS (SetAutoTLS t0 (auto_tls_of U d)) (dsn_BoolOption U d ''require_tls'' False) in
        bindE (with_tls U d (with_source d t)) (\<lambda>t.
        bindE (with_rate E d b) (\<lambda>b.
        bindE (with_restart d (with_credentials E d t)) (\<lambda>t.
        bindE (with_ping d t) (\<lambda>t.
        bindE (with_retry E d t) (\<lambda>t.
          Inr \<lparr>es_smtp = t, es_base = b\<rparr>)))))))"

definition EsmtpFactory :: "esmtp_lib \<Rightarrow> peer \<Rightarrow> esmtp factory" where
  "EsmtpFactory E P = \<lparr>fa_Create = esmtp_Create E P, fa_Supports = esmtp_Supports, fa_Schemes = Some [''smtp'', ''smtps'']\<rparr>"

lemmas smtp_factory_eval [go_eval] =
  newTLS_def getTLS_def is_hex_def hex_valid_def normalizeFingerprint_def hex_encode_def isRemoteHost_def
  esmtp_Supports_def auto_tls_of_def tls_on_connect_def tls_options_def atoi_error_def atoi_option_def float_option_def
  delay_option_def attempts_option_def with_credentials_def with_rate_def with_restart_def with_ping_def
  defaultRetryAttempts_def defaultRetryDelay_def with_retry_def with_source_def with_tls_def esmtp_Create_def

section \<open>Errors and the factory contract\<close>

lemmas option_steps = with_tls_def tls_options_def with_rate_def with_restart_def with_ping_def with_retry_def
  normalizeFingerprint_def float_option_def atoi_option_def delay_option_def attempts_option_def

text \<open>A supported DSN is refused for an invalid option only.\<close>

lemma option_step_errors:
  "with_tls U d t = Inl e \<Longrightarrow> errors_Is e ErrInvalidArgument \<and> \<not> errors_Is e ErrUnsupportedScheme"
  "with_rate E d b = Inl e \<Longrightarrow> errors_Is e ErrInvalidArgument \<and> \<not> errors_Is e ErrUnsupportedScheme"
  "with_restart d t = Inl e \<Longrightarrow> errors_Is e ErrInvalidArgument \<and> \<not> errors_Is e ErrUnsupportedScheme"
  "with_ping d t = Inl e \<Longrightarrow> errors_Is e ErrInvalidArgument \<and> \<not> errors_Is e ErrUnsupportedScheme"
  "with_retry E d t = Inl e \<Longrightarrow> errors_Is e ErrInvalidArgument \<and> \<not> errors_Is e ErrUnsupportedScheme"
  by (auto simp: option_steps Let_def bindE_eq_Inl atoi_error_def split: if_splits option.splits sum.splits)

text \<open>A created transport is the result of the steps, in order; an error is one step's.\<close>

lemma esmtp_Create_Inr:
  assumes "esmtp_Create E P d = Inr x"
  obtains t0 t1 t2 t3 where
    "t0 = NewTransport (dsn_host d) (dsn_Port d 0) (tls_on_connect (el_unicode E) d)"
    "esmtp_Supports d"
    "with_tls (el_unicode E) d (with_source d (SetRequireTLS (SetAutoTLS t0 (auto_tls_of (el_unicode E) d))
        (dsn_BoolOption (el_unicode E) d ''require_tls'' False))) = Inr t1"
    "with_rate E d (smtp_base P t0) = Inr (es_base x)"
    "with_restart d (with_credentials E d t1) = Inr t2"
    "with_ping d t2 = Inr t3"
    "with_retry E d t3 = Inr (es_smtp x)"
proof (cases "esmtp_Supports d")
  case True
  with assms obtain b t1 t2 t3 t4 where
    "with_tls (el_unicode E) d (with_source d (SetRequireTLS (SetAutoTLS
        (NewTransport (dsn_host d) (dsn_Port d 0) (tls_on_connect (el_unicode E) d)) (auto_tls_of (el_unicode E) d))
        (dsn_BoolOption (el_unicode E) d ''require_tls'' False))) = Inr t1"
    "with_rate E d (smtp_base P (NewTransport (dsn_host d) (dsn_Port d 0) (tls_on_connect (el_unicode E) d))) = Inr b"
    "with_restart d (with_credentials E d t1) = Inr t2"
    "with_ping d t2 = Inr t3" "with_retry E d t3 = Inr t4" "x = \<lparr>es_smtp = t4, es_base = b\<rparr>"
    unfolding esmtp_Create_def Let_def
    by (simp only: not_True_eq_False if_False bindE_eq_Inr sum.inject) metis
  with True show thesis by (intro that [OF refl]) simp_all
qed (use assms in \<open>simp add: esmtp_Create_def\<close>)

lemma esmtp_Create_error:
  assumes "esmtp_Supports d" "esmtp_Create E P d = Inl e"
  shows "errors_Is e ErrInvalidArgument \<and> \<not> errors_Is e ErrUnsupportedScheme"
  using assms unfolding esmtp_Create_def Let_def
  by (simp only: not_True_eq_False if_False bindE_eq_Inl)
     (elim disjE exE conjE, (drule option_step_errors, assumption)+, simp)

interpretation esmtp_factory: factory_contract esmtp_Supports "esmtp_Create E P" "[''smtp'', ''smtps'']" for E P
proof
  show "esmtp_Supports d \<longleftrightarrow> dsn_scheme d \<in> set [''smtp'', ''smtps'']" for d
    by (simp add: esmtp_Supports_def)
  show "\<not> esmtp_Supports d \<Longrightarrow> \<exists>e. esmtp_Create E P d = Inl e \<and> errors_Is e ErrUnsupportedScheme" for d
    by (simp add: esmtp_Create_def)
  show "esmtp_Supports d \<Longrightarrow> esmtp_Create E P d = Inl e \<Longrightarrow> \<not> errors_Is e ErrUnsupportedScheme" for d e
    by (blast dest: esmtp_Create_error)
qed

section \<open>What a created transport is\<close>

lemma with_rate_run: "with_rate E d b = Inr b' \<Longrightarrow> smtp_run P b t \<Longrightarrow> smtp_run P b' t"
  by (auto simp: with_rate_def Let_def bindE_eq_Inr intro: run_throttle split: if_splits)

lemma with_credentials_run: "smtp_run P b t \<Longrightarrow> smtp_run P b (with_credentials E d t)"
  by (simp add: with_credentials_def Let_def run_username run_password run_localDomain)

lemma option_step_shapes:
  "with_restart d t = Inr t' \<Longrightarrow> t' = t \<or> (\<exists>n k. t' = SetRestartThreshold t n k)"
  "with_ping d t = Inr t' \<Longrightarrow> t' = t \<or> (\<exists>n. t' = SetPingThreshold t n)"
  "with_retry E d t = Inr t' \<Longrightarrow> t' = t \<or> (\<exists>n k. t' = SetRetry t n k)"
  unfolding with_restart_def with_ping_def with_retry_def Let_def
  by (auto simp: bindE_eq_Inr split: if_splits)

lemma with_tls_shape: "with_tls U d t = Inr t' \<Longrightarrow> \<exists>tc. tls_options U d = Inr tc \<and> t' = (if tc \<noteq> None then SetTLSConfig t tc else t)"
  by (auto simp: with_tls_def bindE_eq_Inr)

lemma with_source_run: "smtp_run P b t \<Longrightarrow> smtp_run P b (with_source d t)"
  by (simp add: with_source_def Let_def run_sourceIP)

lemma with_options_run:
  "with_restart d t = Inr t' \<Longrightarrow> smtp_run P b t \<Longrightarrow> smtp_run P b t'"
  "with_ping d t = Inr t' \<Longrightarrow> smtp_run P b t \<Longrightarrow> smtp_run P b t'"
  "with_retry E d t = Inr t' \<Longrightarrow> smtp_run P b t \<Longrightarrow> smtp_run P b t'"
  "with_tls U d t = Inr t' \<Longrightarrow> smtp_run P b t \<Longrightarrow> smtp_run P b t'"
  by (auto dest!: option_step_shapes with_tls_shape intro: run_restart run_ping run_retry run_tlsConfig)

text \<open>Every transport the factory makes is one the conversation's theorems are about.\<close>

lemma esmtp_Create_run: "esmtp_Create E P d = Inr x \<Longrightarrow> smtp_run P (es_base x) (es_smtp x)"
  by (erule esmtp_Create_Inr, rule with_options_run, assumption, rule with_options_run, assumption,
      rule with_options_run, assumption, rule with_credentials_run, rule with_options_run, assumption,
      rule with_source_run, rule run_requireTLS, rule run_autoTLS,
      rule with_rate_run, assumption, rule run_new)

text \<open>The configuration fields the thresholds and the retry policy do not touch.\<close>

definition dial_settings :: "smtp \<Rightarrow> bytes \<times> int \<times> bool \<times> bool \<times> bool \<times> bytes \<times> bytes" where
  "dial_settings t = (s_host t, s_port t, s_tls t, s_autoTLS t, s_requireTLS t, s_username t, s_password t)"

lemma with_options_settings:
  "with_restart d t = Inr t' \<Longrightarrow> dial_settings t' = dial_settings t \<and> target t' = target t \<and> s_trace t' = s_trace t"
  "with_ping d t = Inr t' \<Longrightarrow> dial_settings t' = dial_settings t \<and> target t' = target t \<and> s_trace t' = s_trace t"
  "with_retry E d t = Inr t' \<Longrightarrow> dial_settings t' = dial_settings t \<and> target t' = target t \<and> s_trace t' = s_trace t"
  by (auto simp: dial_settings_def target_def SetRestartThreshold_def SetPingThreshold_def SetRetry_def dest!: option_step_shapes)

lemma with_tls_settings: "with_tls U d t = Inr t' \<Longrightarrow> dial_settings t' = dial_settings t"
  by (drule with_tls_shape) (elim exE conjE, simp add: dial_settings_def SetTLSConfig_def)

text \<open>What it dials, and what it demands of the connection.\<close>

lemma esmtp_Create_settings:
  assumes "esmtp_Create E P d = Inr x"
  shows "dial_settings (es_smtp x) =
    (dsn_host d, if dsn_Port d 0 = 0 then (if tls_on_connect (el_unicode E) d then 465 else 25) else dsn_Port d 0,
     tls_on_connect (el_unicode E) d, auto_tls_of (el_unicode E) d,
     dsn_BoolOption (el_unicode E) d ''require_tls'' False, dsn_user d, dsn_password d)"
  using assms
proof (cases rule: esmtp_Create_Inr)
  case (1 t0 t1 t2 t3)
  have "dial_settings (es_smtp x) = dial_settings (with_credentials E d t1)"
    using with_options_settings(1) [OF 1(5)] with_options_settings(2) [OF 1(6)] with_options_settings(3) [OF 1(7)] by simp
  moreover have "dial_settings t1 = (dsn_host d, if dsn_Port d 0 = 0 then (if tls_on_connect (el_unicode E) d then 465 else 25) else dsn_Port d 0,
     tls_on_connect (el_unicode E) d, auto_tls_of (el_unicode E) d,
     dsn_BoolOption (el_unicode E) d ''require_tls'' False, [], [])"
    unfolding with_tls_settings [OF 1(3)]
    by (simp add: dial_settings_def with_source_def Let_def SetSourceIP_def SetAutoTLS_def SetRequireTLS_def NewTransport_def 1(1))
  ultimately show ?thesis
    by (simp add: dial_settings_def with_credentials_def Let_def SetUsername_def SetPassword_def SetLocalDomain_def)
qed

text \<open>Where it connects to, from where, and with which TLS configuration.\<close>

lemma esmtp_Create_target:
  assumes "esmtp_Create E P d = Inr x"
  shows "s_trace (es_smtp x) = [] \<and> bt_DoSend (es_base x) = Some (doSend P) \<and>
    (\<exists>tc. tls_options (el_unicode E) d = Inr tc \<and> target (es_smtp x) =
      (dsn_host d, if dsn_Port d 0 = 0 then (if tls_on_connect (el_unicode E) d then 465 else 25) else dsn_Port d 0,
       dsn_Option d ''source_ip'' [], tc))"
  using assms
proof (cases rule: esmtp_Create_Inr)
  case (1 t0 t1 t2 t3)
  have "target (es_smtp x) = target (with_credentials E d t1) \<and> s_trace (es_smtp x) = s_trace (with_credentials E d t1)"
    using with_options_settings(1) [OF 1(5)] with_options_settings(2) [OF 1(6)] with_options_settings(3) [OF 1(7)] by simp
  then have x: "target (es_smtp x) = target t1" "s_trace (es_smtp x) = s_trace t1"
    by (simp_all add: target_def with_credentials_def Let_def SetUsername_def SetPassword_def SetLocalDomain_def)
  obtain tc where tc: "tls_options (el_unicode E) d = Inr tc" and t1: "t1 = (if tc \<noteq> None then SetTLSConfig
      (with_source d (SetRequireTLS (SetAutoTLS t0 (auto_tls_of (el_unicode E) d)) (dsn_BoolOption (el_unicode E) d ''require_tls'' False))) tc
    else with_source d (SetRequireTLS (SetAutoTLS t0 (auto_tls_of (el_unicode E) d)) (dsn_BoolOption (el_unicode E) d ''require_tls'' False)))"
    using with_tls_shape [OF 1(3)] by blast
  have "bt_DoSend (es_base x) = Some (doSend P)"
    using smtp_run_ok [OF esmtp_Create_run [OF assms]] ..
  with tc show ?thesis unfolding x t1
    by (auto simp: target_def with_source_def Let_def SetSourceIP_def SetTLSConfig_def SetAutoTLS_def SetRequireTLS_def NewTransport_def 1(1))
qed

text \<open>The TLS configuration in effect: TLS 1.2 at least, the DSN's host as the server's name.\<close>

definition policy_of :: "unicode \<Rightarrow> dsn \<Rightarrow> bytes \<Rightarrow> tls_config" where
  "policy_of U d host =
    (let fp = dsn_Option d ''peer_fingerprint'' [] in
     \<lparr>tc_ServerName = host, tc_MinVersion = VersionTLS12,
      tc_InsecureSkipVerify = (dsn_Option d ''verify_peer'' [] \<noteq> [] \<and> \<not> dsn_BoolOption U d ''verify_peer'' True),
      tc_pin = (if fp = [] then None else Some (projr (normalizeFingerprint U fp), fp))\<rparr>)"

lemma effective_policy:
  assumes "tls_options U d = Inr (s_tlsConfig t)"
  shows "effectiveTLSConfig t = policy_of U d (s_host t)"
proof (cases "dsn_Option d ''peer_fingerprint'' [] = []")
  case True
  with assms have "s_tlsConfig t = (if dsn_Option d ''verify_peer'' [] \<noteq> [] \<and> \<not> dsn_BoolOption U d ''verify_peer'' True
      then Some (newTLS\<lparr>tc_InsecureSkipVerify := True\<rparr>) else None)"
    by (auto simp: tls_options_def getTLS_def split: if_splits)
  with True show ?thesis by (simp add: effectiveTLSConfig_def policy_of_def newTLS_def)
next
  case False
  with assms obtain want where w: "normalizeFingerprint U (dsn_Option d ''peer_fingerprint'' []) = Inr want"
    "s_tlsConfig t = Some ((getTLS (if dsn_Option d ''verify_peer'' [] \<noteq> [] \<and> \<not> dsn_BoolOption U d ''verify_peer'' True
      then Some ((getTLS None)\<lparr>tc_InsecureSkipVerify := True\<rparr>) else None))\<lparr>tc_pin := Some (want, dsn_Option d ''peer_fingerprint'' [])\<rparr>)"
    by (auto simp: tls_options_def Let_def bindE_eq_Inr)
  with False show ?thesis
    by (cases "dsn_Option d ''verify_peer'' [] \<noteq> [] \<and> \<not> dsn_BoolOption U d ''verify_peer'' True")
       (simp_all add: effectiveTLSConfig_def policy_of_def getTLS_def newTLS_def)
qed

text \<open>The pin holds as soon as any certificate of the chain the peer sent matches.\<close>

lemma verifyPeerCertificate_None:
  "verifyPeerCertificate sha256 (want, fp) certs = None \<longleftrightarrow> want \<in> (\<lambda>c. hex_encode (sha256 c)) ` set certs"
  by (induction sha256 "(want, fp)" certs rule: verifyPeerCertificate.induct) auto

end
