(* ===== verification/Sendmail.thy ===== *)
theory Sendmail
  imports Registry_Props
begin

text \<open>
  The sendmail transport (\<^verbatim>\<open>transport/sendmail\<close>): splitting the command line, building the
  argument list and the text piped to the program, and its DSN factory. Running the program
  is a parameter: it is handed the arguments and its standard input, and gives an error, if
  any, and what it printed.
\<close>

section \<open>Command lines\<close>

definition DefaultCommand :: bytes where
  "DefaultCommand = [CHR 0x2F] @ ''usr'' @ [CHR 0x2F] @ ''sbin'' @ [CHR 0x2F] @ ''sendmail -t -i''"

text \<open>\<^verbatim>\<open>WriteRune\<close> of a rune read by \<^verbatim>\<open>range\<close>: an invalid byte was read as U+FFFD.\<close>

definition rune_text :: "nat \<times> bytes \<Rightarrow> bytes" where
  "rune_text rb = (case rb of (r, b) \<Rightarrow>
    if r = RuneError \<and> length b = 1 then [CHR 0xEF, CHR 0xBF, CHR 0xBD] else b)"

text \<open>The loop of \<^verbatim>\<open>splitCommand\<close>: the open quote, the field being read (if any) and the runes left.\<close>

fun split_loop :: "nat option \<Rightarrow> bytes option \<Rightarrow> (nat \<times> bytes) list \<Rightarrow> bytes list" where
  "split_loop quote cur [] = (case cur of Some f \<Rightarrow> [f] | None \<Rightarrow> [])"
| "split_loop quote cur (rb # rs) =
    (let r = fst rb; field = (case cur of Some f \<Rightarrow> f | None \<Rightarrow> []) in
     case quote of
       Some q \<Rightarrow> if r = q then split_loop None cur rs else split_loop quote (Some (field @ rune_text rb)) rs
     | None \<Rightarrow>
         if r = 39 \<or> r = 34 then split_loop (Some r) (Some field) rs
         else if r = 32 \<or> r = 9 then
           (case cur of Some f \<Rightarrow> f # split_loop None None rs | None \<Rightarrow> split_loop None None rs)
         else split_loop None (Some (field @ rune_text rb)) rs)"

definition splitCommand :: "bytes \<Rightarrow> bytes list" where
  "splitCommand s = split_loop None None (runes s)"

definition hasExactArg :: "bytes list \<Rightarrow> bytes \<Rightarrow> bool" where
  "hasExactArg args target \<longleftrightarrow> list_ex (\<lambda>arg. arg = target) args"

definition removeExactArg :: "bytes list \<Rightarrow> bytes \<Rightarrow> bytes list" where
  "removeExactArg args target = filter (\<lambda>arg. arg \<noteq> target) args"

definition hasSenderArg :: "bytes list \<Rightarrow> bool" where
  "hasSenderArg args \<longleftrightarrow>
     list_ex (\<lambda>arg. arg = ''-f'' \<or> (HasPrefix arg ''-f'' \<and> Contains (drop 2 arg) ''@'')) args"

section \<open>Delivery\<close>

fun encode_all :: "netlib \<Rightarrow> address list \<Rightarrow> goerr + bytes list" where
  "encode_all L [] = Inr []"
| "encode_all L (r # rs) = bindE (EncodedEmail L r) (\<lambda>e. bindE (encode_all L rs) (\<lambda>es. Inr (e # es)))"

text \<open>The arguments and the standard input of the program, or why it is not run.\<close>

definition sendmail_invocation :: "netlib \<Rightarrow> bytes \<Rightarrow> envelope \<Rightarrow> bytes \<Rightarrow> goerr + bytes list \<times> bytes" where
  "sendmail_invocation L command env raw =
    (let args = splitCommand command; recipients = Envelope_Recipients env in
     if args = [] then Inl (NewTransportError ''sendmail: empty command'')
     else if recipients = [] \<and> \<not> hasExactArg args ''-t'' then
       Inl (NewTransportError (''sendmail: no envelope recipients were provided and the command does not request ''
         @ [CHR 0x22] @ ''-t'' @ [CHR 0x22] @ '' to read them from the message headers''))
     else
       (let args = (if recipients \<noteq> [] then removeExactArg args ''-t'' else args) in
        bindE (if hasSenderArg args then Inr args
               else bindE (EncodedEmail L (Sender env)) (\<lambda>sender. Inr (args @ [''-f'' @ sender])))
          (\<lambda>args.
            let data = ReplaceAll raw CRLF [LF];
                data = (if \<not> hasExactArg args ''-i'' \<and> \<not> hasExactArg args ''-oi'' then ReplaceAll data [LF, CHR ''.''] [LF, CHR ''.'', CHR ''.''] else data)
            in if recipients \<noteq> [] then bindE (encode_all L recipients) (\<lambda>rs. Inr (args @ [''--''] @ rs, data))
               else Inr (args, data))))"

text \<open>
  \<open>run args stdin\<close> is \<^verbatim>\<open>exec.CommandContext(...).Run\<close> with the output collected;
  an argument list that is empty cannot be run: \<^verbatim>\<open>args[0]\<close> panics, \<open>None\<close>.
\<close>

type_synonym 'w runner = "bytes list \<Rightarrow> bytes \<Rightarrow> 'w \<Rightarrow> (goerr option \<times> bytes) \<times> 'w"

definition sendmail_doSend ::
  "netlib \<Rightarrow> 'w runner \<Rightarrow> bytes \<Rightarrow> sent \<Rightarrow> 'w \<Rightarrow> (goerr option \<times> sent \<times> 'w) option" where
  "sendmail_doSend L run command sm w =
    (case sm_envelope sm of
       None \<Rightarrow> None
     | Some env \<Rightarrow>
         (case sendmail_invocation L command env (sm_raw sm) of
            Inl err \<Rightarrow> Some (Some err, sm, w)
          | Inr (args, stdin) \<Rightarrow>
              if args = [] then None
              else
                (case run args stdin w of
                   ((Some err, out), w) \<Rightarrow>
                     (let te = te_set_Cause (NewTransportError (''process failed running '' @ Quote (nl_unicode L) (Join args '' '')
                           @ '': '' @ Error_text (nl_unicode L) err)) err;
                          te = (if out \<noteq> [] then te_AppendDebug te out else te)
                      in Some (Some te, sm, w))
                 | ((None, out), w) \<Rightarrow> Some (None, (if out \<noteq> [] then AppendDebug sm out else sm), w))))"

definition NewSendmailTransport :: "netlib \<Rightarrow> 'w runner \<Rightarrow> bytes \<Rightarrow> goerr + 'w base_transport" where
  "NewSendmailTransport L run command =
    (let command = (if command = [] then DefaultCommand else command); args = splitCommand command in
     if hasExactArg args ''-bs'' then
       Inl (Errorf ''%w: the interactive sendmail %q mode is not supported by this transport; use a %q-based command (e.g. %q)''
         [OErr (Sentinel ErrInvalidArgument), OStr ''-bs'', OStr ''-t'', OStr DefaultCommand])
     else if \<not> hasExactArg args ''-t'' then
       Inl (Errorf ''%w: unsupported sendmail command flags %q; the command must include %q''
         [OErr (Sentinel ErrInvalidArgument), OStr command, OStr ''-t''])
     else Inr \<lparr>bt_Name = ''smtp:'' @ [CHR 0x2F, CHR 0x2F] @ ''sendmail'', bt_DoSend = Some (sendmail_doSend L run command),
                bt_maxPerSecond = 0, bt_lastSent = zero_time\<rparr>)"

section \<open>The factory\<close>

definition sendmail_Supports :: "dsn \<Rightarrow> bool" where
  "sendmail_Supports d \<longleftrightarrow> dsn_scheme d = ''sendmail''"

definition sendmail_Create :: "netlib \<Rightarrow> 'w runner \<Rightarrow> dsn \<Rightarrow> goerr + 'w base_transport" where
  "sendmail_Create L run d =
    (if \<not> sendmail_Supports d then
       Inl (Errorf ''%w: scheme %q is not supported (supported: %q)''
         [OErr (Sentinel ErrUnsupportedScheme), OStr (dsn_scheme d), OStr ''sendmail''])
     else NewSendmailTransport L run (dsn_Option d ''command'' []))"

definition SendmailFactory :: "netlib \<Rightarrow> 'w runner \<Rightarrow> 'w base_transport factory" where
  "SendmailFactory L run = \<lparr>fa_Create = sendmail_Create L run, fa_Supports = sendmail_Supports, fa_Schemes = Some [''sendmail'']\<rparr>"

interpretation sendmail_factory: factory_contract sendmail_Supports "sendmail_Create L run" "[''sendmail'']" for L run
  by unfold_locales (auto simp: sendmail_Supports_def sendmail_Create_def NewSendmailTransport_def Let_def split: if_splits)

section \<open>Facts\<close>

text \<open>An argument in double quotes, and a command line of such arguments.\<close>

definition quote_arg :: "bytes \<Rightarrow> bytes" where
  "quote_arg a = [CHR 0x22] @ a @ [CHR 0x22]"

definition quotable :: "bytes \<Rightarrow> bool" where
  "quotable a \<longleftrightarrow> isASCII a \<and> CHR 0x22 \<notin> set a"

lemma rune_text_single: "byte c < 0x80 \<Longrightarrow> rune_text (byte c, [c]) = [c]"
  by (simp add: rune_text_def RuneError_def)

lemma byte_22: "byte c = 34 \<longleftrightarrow> c = CHR 0x22"
proof
  assume "byte c = 34"
  then have "byte c = byte (CHR 0x22)" by simp
  then show "c = CHR 0x22" by (simp only: of_char_eq_iff)
qed simp

lemma split_loop_quoted:
  "quotable a \<Longrightarrow> split_loop (Some 34) (Some f) (runes (a @ CHR 0x22 # rest)) = split_loop None (Some (f @ a)) (runes rest)"
proof (induction a arbitrary: f)
  case Nil
  have "runes (CHR 0x22 # rest) = (34, [CHR 0x22]) # runes rest" using runes_ascii [of "CHR 0x22" rest] by simp
  then show ?case by simp
next
  case (Cons c a)
  then have c: "byte c < 0x80" "byte c \<noteq> 34" "quotable a" by (auto simp: quotable_def isASCII_def byte_22)
  with Cons.IH [OF c(3), of "f @ [c]"] show ?case by (simp add: runes_ascii rune_text_single)
qed

lemma split_loop_quote_arg:
  "quotable a \<Longrightarrow> split_loop None None (runes (quote_arg a @ rest)) = split_loop None (Some a) (runes rest)"
  using split_loop_quoted [of a "[]" rest] runes_ascii [of "CHR 0x22" "a @ CHR 0x22 # rest"]
  by (simp add: quote_arg_def)

lemma splitCommand_quoted:
  "list_all quotable args \<Longrightarrow> splitCommand (Join (map quote_arg args) '' '') = args"
proof (induction args)
  case (Cons a args)
  have sp: "runes (CHR '' '' # s) = (32, [CHR '' '']) # runes s" for s using runes_ascii [of "CHR '' ''" s] by simp
  show ?case
  proof (cases args)
    case Nil
    then show ?thesis using Cons split_loop_quote_arg [of a "[]"] by (simp add: splitCommand_def)
  next
    case (Cons b bs)
    then have "splitCommand (Join (map quote_arg (a # args)) '' '')
        = split_loop None None (runes (quote_arg a @ CHR '' '' # Join (map quote_arg args) '' ''))"
      by (simp add: splitCommand_def)
    also have "\<dots> = a # splitCommand (Join (map quote_arg args) '' '')"
      using Cons.prems split_loop_quote_arg [of a] sp by (simp add: splitCommand_def)
    finally show ?thesis using Cons.IH Cons.prems by simp
  qed
qed (simp add: splitCommand_def runes.simps)

text \<open>What stuffing does to the lines of the text: every line but the first.\<close>

definition double_dot :: "bytes \<Rightarrow> bytes" where
  "double_dot l = (if l \<noteq> [] \<and> hd l = CHR ''.'' then CHR ''.'' # l else l)"

lemma SplitByte_hd: "SplitByte s c = l # ls \<Longrightarrow> \<not> (s \<noteq> [] \<and> hd s = CHR ''.'') \<Longrightarrow> double_dot l = l"
  by (cases s) (auto simp: double_dot_def split: if_splits list.splits)

lemma ReplaceAll_dot:
  "SplitByte s LF = l # ls \<Longrightarrow>
    SplitByte (ReplaceAll s [LF, CHR ''.''] [LF, CHR ''.'', CHR ''.'']) LF = l # map double_dot ls"
proof (induction s arbitrary: l ls rule: length_induct)
  case (1 s)
  consider "s = []" | r where "s = LF # CHR ''.'' # r" | r where "s = LF # r" "\<not> (r \<noteq> [] \<and> hd r = CHR ''.'')"
    | c r where "s = c # r" "c \<noteq> LF"
    by (metis list.collapse list.exhaust)
  then show ?case
  proof cases
    case 1
    with \<open>SplitByte s LF = l # ls\<close> show ?thesis by simp
  next
    case (2 r)
    obtain k ks where k: "SplitByte r LF = k # ks" by (cases "SplitByte r LF") auto
    with 1(1) 2 have "SplitByte (ReplaceAll r [LF, CHR ''.''] [LF, CHR ''.'', CHR ''.'']) LF = k # map double_dot ks" by simp
    with k 2 1(2) show ?thesis by (auto simp: HasPrefix_def double_dot_def)
  next
    case (3 r)
    obtain k ks where k: "SplitByte r LF = k # ks" by (cases "SplitByte r LF") auto
    with 1(1) 3 have "SplitByte (ReplaceAll r [LF, CHR ''.''] [LF, CHR ''.'', CHR ''.'']) LF = k # map double_dot ks" by simp
    moreover have "\<not> HasPrefix s [LF, CHR ''.'']" using 3 by (cases r) (auto simp: HasPrefix_def)
    moreover have "ls = k # ks" "l = []" using k 3 1(2) by simp_all
    ultimately show ?thesis using 3 SplitByte_hd [OF k 3(2)] by simp
  next
    case (4 c r)
    obtain k ks where k: "SplitByte r LF = k # ks" by (cases "SplitByte r LF") auto
    with 1(1) 4 have "SplitByte (ReplaceAll r [LF, CHR ''.''] [LF, CHR ''.'', CHR ''.'']) LF = k # map double_dot ks" by simp
    moreover have "\<not> HasPrefix s [LF, CHR ''.'']" using 4 by (auto simp: HasPrefix_def)
    ultimately show ?thesis using k 4 1(2) by auto
  qed
qed

text \<open>
  The sender argument that is added to a command, and the lines of the program's input under
  the options of a command.
\<close>

definition sender_args :: "netlib \<Rightarrow> bytes list \<Rightarrow> envelope \<Rightarrow> goerr + bytes list" where
  "sender_args L args env =
    (if hasSenderArg args then Inr [] else bindE (EncodedEmail L (Sender env)) (\<lambda>s. Inr [''-f'' @ s]))"

definition stdin_lines :: "bytes list \<Rightarrow> bytes list \<Rightarrow> bytes list" where
  "stdin_lines args ls =
    (if hasExactArg args ''-i'' \<or> hasExactArg args ''-oi'' then ls else hd ls # map double_dot (tl ls))"

lemma sendmail_invocation_run:
  assumes "sendmail_invocation L command env raw = Inr (args, stdin)" "Envelope_Recipients env \<noteq> []"
  shows "\<exists>f rs. args = removeExactArg (splitCommand command) ''-t'' @ f @ [''--''] @ rs
    \<and> encode_all L (Envelope_Recipients env) = Inr rs
    \<and> sender_args L (removeExactArg (splitCommand command) ''-t'') env = Inr f
    \<and> SplitByte stdin LF =
       stdin_lines (removeExactArg (splitCommand command) ''-t'' @ f) (SplitByte (ReplaceAll raw CRLF [LF]) LF)"
proof -
  let ?as = "removeExactArg (splitCommand command) ''-t''" and ?d = "ReplaceAll raw CRLF [LF]"
  from assms obtain f rs where f: "sender_args L ?as env = Inr f" and rs: "encode_all L (Envelope_Recipients env) = Inr rs"
    and args: "args = ?as @ f @ [''--''] @ rs"
    and stdin: "stdin = (if \<not> hasExactArg (?as @ f) ''-i'' \<and> \<not> hasExactArg (?as @ f) ''-oi''
      then ReplaceAll ?d [LF, CHR ''.''] [LF, CHR ''.'', CHR ''.''] else ?d)"
    unfolding sendmail_invocation_def sender_args_def
    by (auto simp: Let_def bindE_eq_Inr split: if_splits)
  obtain l ls where "SplitByte ?d LF = l # ls" by (cases "SplitByte ?d LF") auto
  then have "SplitByte stdin LF = stdin_lines (?as @ f) (SplitByte ?d LF)"
    using ReplaceAll_dot [of ?d l ls] by (auto simp: stdin stdin_lines_def)
  with f rs args show ?thesis by blast
qed

end
