(* ===== verification/Ses.thy ===== *)
theory Ses
  imports Registry_Props
begin

text \<open>
  The Amazon SES transport (\<^verbatim>\<open>transport/ses\<close>): the delivery hook, the suppression list and the
  DSN factory. The AWS SDK is not part of the sources: a client is a record of functions
  with the operations the code calls, loading a configuration is a parameter, and so is the
  test for the SDK's not-found error.
\<close>

section \<open>The client\<close>

record ses_input =
  si_From :: bytes
  si_To :: "bytes list"
  si_Raw :: bytes
  si_ConfigurationSet :: "bytes option"

datatype ses_reason = ReasonBounce | ReasonComplaint | ReasonOther

text \<open>A suppressed destination as the API returns it; pointers may be nil.\<close>

record ses_entry =
  en_EmailAddress :: "bytes option"
  en_Reason :: ses_reason
  en_LastUpdateTime :: "gotime option"

record ses_page =
  pg_Summaries :: "ses_entry list"
  pg_NextToken :: "bytes option"

text \<open>
  \<open>sc_SendEmail\<close> gives an error or the message identifier, if the output has one;
  \<open>sc_List\<close> and \<open>sc_Get\<close> are there when the client implements the suppression API, and their
  output may be nil.
\<close>

record 'w ses_client =
  sc_SendEmail :: "ses_input \<Rightarrow> 'w \<Rightarrow> (goerr + bytes option) \<times> 'w"
  sc_List :: "(bytes option \<Rightarrow> 'w \<Rightarrow> (goerr + ses_page option) \<times> 'w) option"
  sc_Get :: "(bytes \<Rightarrow> 'w \<Rightarrow> (goerr + ses_entry option) \<times> 'w) option"

section \<open>Options\<close>

record ses_config =
  cf_region :: bytes
  cf_configurationSet :: bytes
  cf_accessKeyID :: bytes
  cf_secretAccessKey :: bytes
  cf_sessionToken :: bytes
  cf_hasStaticCreds :: bool

definition newConfig :: ses_config where
  "newConfig = \<lparr>cf_region = [], cf_configurationSet = [], cf_accessKeyID = [], cf_secretAccessKey = [],
     cf_sessionToken = [], cf_hasStaticCreds = False\<rparr>"

definition WithRegion :: "bytes \<Rightarrow> ses_config \<Rightarrow> ses_config" where
  "WithRegion region c = c\<lparr>cf_region := region\<rparr>"

definition WithConfigurationSet :: "bytes \<Rightarrow> ses_config \<Rightarrow> ses_config" where
  "WithConfigurationSet name c = c\<lparr>cf_configurationSet := name\<rparr>"

definition WithCredentials :: "bytes \<Rightarrow> bytes \<Rightarrow> bytes \<Rightarrow> ses_config \<Rightarrow> ses_config" where
  "WithCredentials key secret token c =
    c\<lparr>cf_accessKeyID := key, cf_secretAccessKey := secret, cf_sessionToken := token, cf_hasStaticCreds := True\<rparr>"

text \<open>What \<^verbatim>\<open>loadAWSConfig\<close> hands the SDK: a region and static credentials, each when set.\<close>

definition load_options :: "ses_config \<Rightarrow> bytes option \<times> (bytes \<times> bytes \<times> bytes) option" where
  "load_options c =
    ((if cf_region c \<noteq> [] then Some (cf_region c) else None),
     (if cf_hasStaticCreds c then Some (cf_accessKeyID c, cf_secretAccessKey c, cf_sessionToken c) else None))"

section \<open>Delivery\<close>

fun ses_recipients :: "netlib \<Rightarrow> address list \<Rightarrow> goerr + bytes list" where
  "ses_recipients L [] = Inr []"
| "ses_recipients L (r # rs) =
    (case EncodedEmail L r of
       Inl err \<Rightarrow> Inl (Errorf ''%w: invalid recipient %q: %w'' [OErr (Sentinel ErrTransport), OStr (Email r), OErr err])
     | Inr encoded \<Rightarrow> bindE (ses_recipients L rs) (\<lambda>es. Inr (encoded # es)))"

definition ses_input_of :: "netlib \<Rightarrow> bytes \<Rightarrow> envelope \<Rightarrow> bytes \<Rightarrow> goerr + ses_input" where
  "ses_input_of L configurationSet env raw =
    bindE (ses_recipients L (Envelope_Recipients env)) (\<lambda>to.
      case EncodedEmail L (Sender env) of
        Inl err \<Rightarrow> Inl (Errorf ''%w: invalid sender %q: %w'' [OErr (Sentinel ErrTransport), OStr (Email (Sender env)), OErr err])
      | Inr from \<Rightarrow> Inr \<lparr>si_From = from, si_To = to, si_Raw = raw,
                          si_ConfigurationSet = (if configurationSet \<noteq> [] then Some configurationSet else None)\<rparr>)"

definition ses_doSend ::
  "netlib \<Rightarrow> 'w ses_client \<Rightarrow> bytes \<Rightarrow> sent \<Rightarrow> 'w \<Rightarrow> (goerr option \<times> sent \<times> 'w) option" where
  "ses_doSend L client configurationSet sm w =
    (case sm_envelope sm of
       None \<Rightarrow> None
     | Some env \<Rightarrow>
         (case ses_input_of L configurationSet env (sm_raw sm) of
            Inl err \<Rightarrow> Some (Some err, sm, w)
          | Inr inp \<Rightarrow>
              (case sc_SendEmail client inp w of
                 (Inl err, w) \<Rightarrow> Some (Some (te_set_Cause (NewTransportError ''SES SendEmail failed'') err), sm, w)
               | (Inr (Some mid), w) \<Rightarrow> Some (None, SetMessageID sm mid, w)
               | (Inr None, w) \<Rightarrow> Some (None, sm, w))))"

definition sesName :: "bytes \<Rightarrow> bytes" where
  "sesName region = ''ses:'' @ [CHR 0x2F, CHR 0x2F] @ region"

definition ses_newTransport :: "netlib \<Rightarrow> 'w ses_client \<Rightarrow> ses_config \<Rightarrow> 'w base_transport" where
  "ses_newTransport L client c =
    \<lparr>bt_Name = sesName (cf_region c), bt_DoSend = Some (ses_doSend L client (cf_configurationSet c)),
     bt_maxPerSecond = 0, bt_lastSent = zero_time\<rparr>"

text \<open>\<open>load\<close> is the SDK: it makes a client from the options it is handed.\<close>

definition ses_New ::
  "netlib \<Rightarrow> (bytes option \<times> (bytes \<times> bytes \<times> bytes) option \<Rightarrow> goerr + 'w ses_client)
    \<Rightarrow> (ses_config \<Rightarrow> ses_config) list \<Rightarrow> goerr + 'w base_transport" where
  "ses_New L load opts =
    (let cfg = foldl (\<lambda>c o'. o' c) newConfig opts in
     case load (load_options cfg) of
       Inl err \<Rightarrow> Inl (Errorf ''%w: unable to load AWS config: %w'' [OErr (Sentinel ErrTransport), OErr err])
     | Inr client \<Rightarrow> Inr (ses_newTransport L client cfg))"

definition NewWithClient :: "netlib \<Rightarrow> 'w ses_client \<Rightarrow> (ses_config \<Rightarrow> ses_config) list \<Rightarrow> 'w base_transport" where
  "NewWithClient L client opts = ses_newTransport L client (foldl (\<lambda>c o'. o' c) newConfig opts)"

section \<open>The factory\<close>

definition factoryOptions :: "dsn \<Rightarrow> (ses_config \<Rightarrow> ses_config) list" where
  "factoryOptions d =
    (let region = dsn_Option d ''region'' []; cs = dsn_Option d ''configuration_set'' [] in
     (if region \<noteq> [] then [WithRegion region] else [])
     @ (if cs \<noteq> [] then [WithConfigurationSet cs] else [])
     @ (if dsn_user d \<noteq> [] then [WithCredentials (dsn_user d) (dsn_password d) []] else []))"

definition ses_Supports :: "dsn \<Rightarrow> bool" where
  "ses_Supports d \<longleftrightarrow> dsn_scheme d = ''ses''"

definition ses_Create ::
  "netlib \<Rightarrow> (bytes option \<times> (bytes \<times> bytes \<times> bytes) option \<Rightarrow> goerr + 'w ses_client) \<Rightarrow> dsn \<Rightarrow> goerr + 'w base_transport" where
  "ses_Create L load d =
    (if \<not> ses_Supports d then
       Inl (Errorf ''%w: scheme %q is not supported (supported: %q)''
         [OErr (Sentinel ErrUnsupportedScheme), OStr (dsn_scheme d), OStr ''ses''])
     else ses_New L load (factoryOptions d))"

definition SesFactory ::
  "netlib \<Rightarrow> (bytes option \<times> (bytes \<times> bytes \<times> bytes) option \<Rightarrow> goerr + 'w ses_client) \<Rightarrow> 'w base_transport factory" where
  "SesFactory L load = \<lparr>fa_Create = ses_Create L load, fa_Supports = ses_Supports, fa_Schemes = Some [''ses'']\<rparr>"

section \<open>Suppressions\<close>

datatype suppression_reason = SuppressionReasonBounce | SuppressionReasonComplaint | SuppressionReasonUnknown

fun reason_String :: "suppression_reason \<Rightarrow> bytes" where
  "reason_String SuppressionReasonBounce = ''bounce''"
| "reason_String SuppressionReasonComplaint = ''complaint''"
| "reason_String SuppressionReasonUnknown = []"

record suppression =
  sup_Email :: bytes
  sup_Reason :: suppression_reason
  sup_UpdatedAt :: gotime

fun reason_of :: "ses_reason \<Rightarrow> suppression_reason" where
  "reason_of ReasonBounce = SuppressionReasonBounce"
| "reason_of ReasonComplaint = SuppressionReasonComplaint"
| "reason_of ReasonOther = SuppressionReasonUnknown"

definition suppression_of :: "bytes \<Rightarrow> ses_entry \<Rightarrow> suppression" where
  "suppression_of email e =
    \<lparr>sup_Email = email, sup_Reason = reason_of (en_Reason e),
     sup_UpdatedAt = (case en_LastUpdateTime e of Some t \<Rightarrow> t | None \<Rightarrow> zero_time)\<rparr>"

definition page_entries :: "ses_page \<Rightarrow> suppression list" where
  "page_entries p =
    concat (map (\<lambda>e. case en_EmailAddress e of None \<Rightarrow> [] | Some email \<Rightarrow> [suppression_of email e]) (pg_Summaries p))"

text \<open>The pagination loop ends only when the service stops handing out tokens.\<close>

partial_function (option) list_pages ::
  "(bytes option \<Rightarrow> 'w \<Rightarrow> (goerr + ses_page option) \<times> 'w) \<Rightarrow> bytes option \<Rightarrow> suppression list \<Rightarrow> 'w
    \<Rightarrow> ((goerr + suppression list) \<times> 'w) option" where
  "list_pages api token results w =
    (case api token w of
       (Inl err, w) \<Rightarrow> Some (Inl (te_set_Cause (NewTransportError ''SES ListSuppressedDestinations failed'') err), w)
     | (Inr None, w) \<Rightarrow> Some (Inr results, w)
     | (Inr (Some p), w) \<Rightarrow>
         (let results = results @ page_entries p in
          if pg_NextToken p = None \<or> pg_NextToken p = Some [] then Some (Inr results, w)
          else list_pages api (pg_NextToken p) results w))"

definition ListSuppressions :: "'w ses_client \<Rightarrow> 'w \<Rightarrow> ((goerr + suppression list) \<times> 'w) option" where
  "ListSuppressions client w =
    (case sc_List client of
       None \<Rightarrow> Some (Inl (Errorf ''%w: SES client does not support suppression listing'' [OErr (Sentinel ErrTransport)]), w)
     | Some api \<Rightarrow> list_pages api None [] w)"

text \<open>\<open>notFound\<close> is \<^verbatim>\<open>errors.As\<close> for the SDK's \<^verbatim>\<open>NotFoundException\<close>.\<close>

definition IsSuppressed ::
  "(goerr \<Rightarrow> bool) \<Rightarrow> 'w ses_client \<Rightarrow> bytes \<Rightarrow> 'w \<Rightarrow> (goerr + suppression option) \<times> 'w" where
  "IsSuppressed notFound client email w =
    (if email = [] then
       (Inl (Errorf ''%w: email address must not be empty'' [OErr (Sentinel ErrInvalidArgument)]), w)
     else case sc_Get client of
       None \<Rightarrow> (Inl (Errorf ''%w: SES client does not support suppression checks'' [OErr (Sentinel ErrTransport)]), w)
     | Some api \<Rightarrow>
         (case api email w of
            (Inl err, w) \<Rightarrow>
              if notFound err then (Inr None, w)
              else (Inl (te_set_Cause (NewTransportError ''SES GetSuppressedDestination failed'') err), w)
          | (Inr None, w) \<Rightarrow> (Inr None, w)
          | (Inr (Some e), w) \<Rightarrow>
              (Inr (Some (suppression_of (case en_EmailAddress e of Some a \<Rightarrow> a | None \<Rightarrow> []) e)), w)))"

section \<open>Facts\<close>

text \<open>The factory keeps its contract when the SDK does not itself report an unsupported scheme.\<close>

lemma ses_factory_contract:
  assumes "\<And>opts e. load opts = Inl e \<Longrightarrow> \<not> errors_Is e ErrUnsupportedScheme"
  shows "factory_contract ses_Supports (ses_Create L load) [''ses'']"
proof
  show "ses_Supports d \<Longrightarrow> ses_Create L load d = Inl e \<Longrightarrow> \<not> errors_Is e ErrUnsupportedScheme" for d e
    using assms [of "load_options (foldl (\<lambda>c o'. o' c) newConfig (factoryOptions d))"]
    by (auto simp: ses_Create_def ses_New_def Let_def split: sum.splits)
qed (simp_all add: ses_Supports_def ses_Create_def)

text \<open>
  The pages a service hands out, following its tokens from a given one; a nil output and a
  page without a token end the list.
\<close>

definition last_page :: "ses_page \<Rightarrow> bool" where
  "last_page p \<longleftrightarrow> pg_NextToken p = None \<or> pg_NextToken p = Some []"

inductive pages_from ::
  "(bytes option \<Rightarrow> 'w \<Rightarrow> (goerr + ses_page option) \<times> 'w) \<Rightarrow> bytes option \<Rightarrow> 'w \<Rightarrow> ses_page list \<Rightarrow> 'w \<Rightarrow> bool"
  for api where
  page_nil: "api token w = (Inr None, w') \<Longrightarrow> pages_from api token w [] w'"
| page_last: "api token w = (Inr (Some p), w') \<Longrightarrow> last_page p \<Longrightarrow> pages_from api token w [p] w'"
| page_more: "api token w = (Inr (Some p), w1) \<Longrightarrow> \<not> last_page p \<Longrightarrow> pages_from api (pg_NextToken p) w1 ps w' \<Longrightarrow>
    pages_from api token w (p # ps) w'"

lemma list_pages_step:
  "list_pages api token results w =
    (case api token w of
       (Inl err, w) \<Rightarrow> Some (Inl (te_set_Cause (NewTransportError ''SES ListSuppressedDestinations failed'') err), w)
     | (Inr None, w) \<Rightarrow> Some (Inr results, w)
     | (Inr (Some p), w) \<Rightarrow>
         if last_page p then Some (Inr (results @ page_entries p), w)
         else list_pages api (pg_NextToken p) (results @ page_entries p) w)"
  by (subst list_pages.simps) (simp add: last_page_def Let_def split: prod.split sum.split option.split)

lemma list_pages_complete:
  "pages_from api token w ps w' \<Longrightarrow>
    list_pages api token results w = Some (Inr (results @ concat (map page_entries ps)), w')"
proof (induction arbitrary: results rule: pages_from.induct)
  case (page_nil token w w')
  then show ?case by (subst list_pages_step) simp
next
  case (page_last token w p w')
  then show ?case by (subst list_pages_step) simp
next
  case (page_more token w p w1 ps w')
  then show ?case by (subst list_pages_step) simp
qed

definition list_failed ::
  "(bytes option \<Rightarrow> 'w \<Rightarrow> (goerr + ses_page option) \<times> 'w) \<Rightarrow> (goerr + suppression list) \<times> 'w \<Rightarrow> bool" where
  "list_failed api r \<longleftrightarrow> (\<exists>tok v err. api tok v = (Inl err, snd r)
     \<and> fst r = Inl (te_set_Cause (NewTransportError ''SES ListSuppressedDestinations failed'') err))"

lemma list_pages_sound:
  assumes "list_pages api token results w = Some r"
  shows "list_failed api r
    \<or> (\<exists>ps. pages_from api token w ps (snd r) \<and> fst r = Inr (results @ concat (map page_entries ps)))"
proof (rule list_pages.raw_induct [where P = "\<lambda>api token results w r.
    list_failed api r
    \<or> (\<exists>ps. pages_from api token w ps (snd r) \<and> fst r = Inr (results @ concat (map page_entries ps)))", OF _ assms])
  fix D api token results and w :: 'a and r
  assume IH: "\<And>api token results w r. D api token results w = Some r \<Longrightarrow>
      list_failed api r
      \<or> (\<exists>ps. pages_from api token w ps (snd r) \<and> fst r = Inr (results @ concat (map page_entries ps)))"
    and eq: "(case api token w of
       (Inl err, w) \<Rightarrow> Some (Inl (te_set_Cause (NewTransportError ''SES ListSuppressedDestinations failed'') err), w)
     | (Inr None, w) \<Rightarrow> Some (Inr results, w)
     | (Inr (Some p), w) \<Rightarrow>
         (let results = results @ page_entries p in
          if pg_NextToken p = None \<or> pg_NextToken p = Some [] then Some (Inr results, w)
          else D api (pg_NextToken p) results w)) = Some r"
  obtain a w1 where a: "api token w = (a, w1)" by fastforce
  consider err where "a = Inl err" | "a = Inr None" | p where "a = Inr (Some p)" "last_page p"
    | p where "a = Inr (Some p)" "\<not> last_page p" by (metis option.exhaust sum.exhaust)
  then show "list_failed api r
      \<or> (\<exists>ps. pages_from api token w ps (snd r) \<and> fst r = Inr (results @ concat (map page_entries ps)))"
  proof cases
    case (1 err)
    with a eq have "list_failed api r" unfolding list_failed_def by (intro exI [of _ token] exI [of _ w] exI [of _ err]) auto
    then show ?thesis ..
  next
    case 2
    with a eq have "fst r = Inr (results @ concat (map page_entries []))" "snd r = w1" by auto
    with 2 a page_nil [of api token w w1] show ?thesis by blast
  next
    case (3 p)
    with a eq have "fst r = Inr (results @ concat (map page_entries [p]))" "snd r = w1" by (auto simp: last_page_def)
    with 3 a page_last [of api token w p w1] show ?thesis by blast
  next
    case (4 p)
    with a eq have "D api (pg_NextToken p) (results @ page_entries p) w1 = Some r" by (auto simp: last_page_def Let_def split: if_splits)
    from IH [OF this] show ?thesis
    proof
      assume "\<exists>ps. pages_from api (pg_NextToken p) w1 ps (snd r)
        \<and> fst r = Inr ((results @ page_entries p) @ concat (map page_entries ps))"
      then obtain ps where "pages_from api (pg_NextToken p) w1 ps (snd r)"
        "fst r = Inr (results @ concat (map page_entries (p # ps)))" by auto
      with 4 a page_more [of api token w p w1 ps "snd r"] show ?thesis by blast
    qed blast
  qed
qed

text \<open>The listing succeeds exactly when the service's pages come to an end, and holds all of them.\<close>

lemma list_pages_iff:
  "list_pages api token [] w = Some (Inr rs, w') \<longleftrightarrow>
    (\<exists>ps. pages_from api token w ps w' \<and> rs = concat (map page_entries ps))"
  using list_pages_complete [of api token w _ w' "[]"] list_pages_sound [of api token "[]" w "(Inr rs, w')"]
  by (auto simp: list_failed_def)

text \<open>A service that always hands out a further token keeps the loop running for ever.\<close>

definition endless :: "(bytes option \<Rightarrow> 'w \<Rightarrow> (goerr + ses_page option) \<times> 'w) \<Rightarrow> bool" where
  "endless api \<longleftrightarrow> (\<forall>tok v. \<exists>p v'. api tok v = (Inr (Some p), v') \<and> \<not> last_page p)"

lemma endless_no_pages: "pages_from api token w ps w' \<Longrightarrow> \<not> endless api"
proof (induction rule: pages_from.induct)
  case (page_nil token w w')
  then show ?case unfolding endless_def by (metis Pair_inject option.distinct(1) sum.inject(2))
next
  case (page_last token w p w')
  then show ?case unfolding endless_def by (metis Pair_inject option.inject sum.inject(2))
qed

lemma list_pages_endless:
  assumes "endless api"
  shows "list_pages api token results w = None"
proof (cases "list_pages api token results w")
  case (Some r)
  have "\<not> list_failed api r" using assms unfolding endless_def list_failed_def
    by (metis Inl_Inr_False Pair_inject)
  with list_pages_sound [OF Some] endless_no_pages [of api] assms show ?thesis by blast
qed

end
