(* ===== verification/Recording.thy ===== *)
theory Recording
  imports Base_Transport
begin

text \<open>
  The recording transport and the assertions of \<^verbatim>\<open>mailertest\<close>. An assertion's verdict is
  whether it lets the test pass; the text it reports otherwise is left out.
\<close>

record recording =
  rec_name :: bytes
  rec_sent :: "sent list"
  rec_failNext :: "goerr option"

definition NewRecordingTransport :: "bytes \<Rightarrow> recording" where
  "NewRecordingTransport name =
    \<lparr>rec_name = (if name = [] then ''test:'' @ [CHR 0x2F, CHR 0x2F] else name), rec_sent = [], rec_failNext = None\<rparr>"

definition FailNext :: "recording \<Rightarrow> goerr option \<Rightarrow> recording" where
  "FailNext t err = t\<lparr>rec_failNext := err\<rparr>"

definition recording_Send ::
  "'w sys \<Rightarrow> recording \<Rightarrow> raw_message \<Rightarrow> envelope option \<Rightarrow> 'w \<Rightarrow> (goerr + sent) \<times> recording \<times> 'w" where
  "recording_Send S t msg envelope w =
    (case rec_failNext t of
       Some err \<Rightarrow> (Inl err, t\<lparr>rec_failNext := None\<rparr>, w)
     | None \<Rightarrow>
         (case (case envelope of None \<Rightarrow> EnvelopeFromMessage (sys_lib S) msg | Some e \<Rightarrow> Inr (Envelope_Clone e)) of
            Inl err \<Rightarrow> (Inl err, t, w)
          | Inr e \<Rightarrow>
              (case NewSentMessage S msg (Some e) w of
                 (Inl err, w) \<Rightarrow> (Inl err, t, w)
               | (Inr sm, w) \<Rightarrow> (Inr sm, t\<lparr>rec_sent := rec_sent t @ [sm]\<rparr>, w))))"

definition Messages :: "recording \<Rightarrow> sent list" where
  "Messages t = rec_sent t"

definition Last :: "recording \<Rightarrow> sent option" where
  "Last t = (if rec_sent t = [] then None else Some (rec_sent t ! (length (rec_sent t) - 1)))"

definition Count :: "recording \<Rightarrow> nat" where
  "Count t = length (rec_sent t)"

definition Reset :: "recording \<Rightarrow> recording" where
  "Reset t = t\<lparr>rec_sent := []\<rparr>"

definition AssertEmailCount :: "recording \<Rightarrow> int \<Rightarrow> bool" where
  "AssertEmailCount t want \<longleftrightarrow> int (Count t) = want"

definition AssertQueuedEmailCount :: "recording \<Rightarrow> int \<Rightarrow> bool" where
  "AssertQueuedEmailCount t want \<longleftrightarrow> want = 0"

definition AssertSent :: "recording \<Rightarrow> bool" where
  "AssertSent t \<longleftrightarrow> Count t \<noteq> 0"

definition AssertNotSent :: "recording \<Rightarrow> bool" where
  "AssertNotSent t \<longleftrightarrow> Count t = 0"

definition AssertEmailContains :: "recording \<Rightarrow> bytes \<Rightarrow> bool" where
  "AssertEmailContains t needle \<longleftrightarrow> list_ex (\<lambda>sm. Contains (sm_raw sm) needle) (Messages t)"

definition MessageAt :: "recording \<Rightarrow> int \<Rightarrow> sent option" where
  "MessageAt t i =
    (let msgs = Messages t in if i < 0 \<or> int (length msgs) \<le> i then None else Some (msgs ! nat i))"

lemmas recording_eval [go_eval] =
  NewRecordingTransport_def FailNext_def recording_Send_def Messages_def Last_def Count_def Reset_def
  AssertEmailCount_def AssertSent_def AssertNotSent_def AssertEmailContains_def MessageAt_def

section \<open>What is recorded\<close>

text \<open>A session of sends; its successful results are what the transport has recorded.\<close>

fun recording_sends ::
  "'w sys \<Rightarrow> (raw_message \<times> envelope option) list \<Rightarrow> recording \<Rightarrow> 'w \<Rightarrow> (goerr + sent) list \<times> recording \<times> 'w" where
  "recording_sends S [] t w = ([], t, w)"
| "recording_sends S ((msg, env) # ms) t w =
    (case recording_Send S t msg env w of (r, t, w) \<Rightarrow>
      (case recording_sends S ms t w of (rs, t, w) \<Rightarrow> (r # rs, t, w)))"

definition accepted :: "(goerr + sent) list \<Rightarrow> sent list" where
  "accepted rs = concat (map (\<lambda>r. case r of Inr sm \<Rightarrow> [sm] | Inl _ \<Rightarrow> []) rs)"

lemma recording_Send_records:
  "recording_Send S t msg env w = (r, t', w') \<Longrightarrow> rec_sent t' = rec_sent t @ accepted [r] \<and> rec_failNext t' = None"
  by (auto simp: recording_Send_def accepted_def split: option.splits sum.splits prod.splits)

lemma recording_sends_records:
  "recording_sends S ms t w = (rs, t', w') \<Longrightarrow> Messages t' = Messages t @ accepted rs"
proof (induction S ms t w arbitrary: rs rule: recording_sends.induct)
  case (2 S msg env ms t w)
  obtain r t1 w1 where r: "recording_Send S t msg env w = (r, t1, w1)" by (metis prod_cases3)
  obtain qs t2 w2 where q: "recording_sends S ms t1 w1 = (qs, t2, w2)" by (metis prod_cases3)
  from 2(2) r q have "rs = r # qs" "t' = t2" "w' = w2" by simp_all
  with 2(1) [OF r [symmetric] refl, of qs] q recording_Send_records [OF r] show ?case
    by (simp add: Messages_def accepted_def)
qed (simp add: Messages_def accepted_def)

end
