(* ===== verification/Middleware.thy ===== *)
theory Middleware
  imports Router
begin

text \<open>
  The middleware package (\<^verbatim>\<open>middleware/middleware.go\<close>, \<^verbatim>\<open>hooks.go\<close>, \<^verbatim>\<open>observability.go\<close>) and
  the mailer (\<^verbatim>\<open>mailer.go\<close>). A middleware maps a transport to a transport; a nil entry of a
  stack is \<open>None\<close>. Hooks, tracers and meters belong to the caller: they are functions that may
  do anything to the world, and a hook returns what it left of the message and the envelope
  it was handed. The interface \<open>decorator\<close> states what a middleware may not change: the
  transport's name and how it is closed.
\<close>

section \<open>Stacks\<close>

type_synonym 'w middleware = "'w transport \<Rightarrow> 'w transport"

definition Wrap :: "'w transport \<Rightarrow> 'w middleware option list \<Rightarrow> 'w transport" where
  "Wrap t mws = foldr (\<lambda>mw t. case mw of None \<Rightarrow> t | Some f \<Rightarrow> f t) mws t"

definition Chain :: "'w middleware option list \<Rightarrow> 'w middleware" where
  "Chain mws = (\<lambda>t. Wrap t mws)"

definition closeTransport :: "'w transport \<Rightarrow> 'w \<Rightarrow> goerr option \<times> 'w" where
  "closeTransport t w = (case tr_Close t of Some c \<Rightarrow> c w | None \<Rightarrow> (None, w))"

section \<open>Hooks\<close>

text \<open>
  A before-send hook is handed the message, when it is a \<^verbatim>\<open>*Message\<close>, and the envelope, and may
  change both in place.
\<close>

type_synonym 'w before_hook =
  "message option \<Rightarrow> envelope \<Rightarrow> 'w \<Rightarrow> goerr option \<times> message option \<times> envelope \<times> 'w"

definition before_Send ::
  "netlib \<Rightarrow> 'w before_hook \<Rightarrow> 'w transport \<Rightarrow> raw_message \<Rightarrow> envelope option \<Rightarrow> 'w
    \<Rightarrow> outcome \<times> raw_message \<times> envelope option \<times> 'w" where
  "before_Send L fn next msg envelope w =
    (let msg' = (case msg of MsgRaw m \<Rightarrow> MsgRaw (Message_Clone m) | _ \<Rightarrow> msg) in
     case (case envelope of None \<Rightarrow> EnvelopeFromMessage L msg' | Some e \<Rightarrow> Inr (Envelope_Clone e)) of
       Inl err \<Rightarrow> (Inl err, msg, envelope, w)
     | Inr e \<Rightarrow>
         (case fn (case msg' of MsgRaw m \<Rightarrow> Some m | _ \<Rightarrow> None) e w of
            (err, m', e', w') \<Rightarrow>
              (case err of
                 Some err \<Rightarrow>
                   if errors_Is err ErrReject then (Inr None, msg, envelope, w')
                   else (Inl err, msg, envelope, w')
               | None \<Rightarrow>
                   (case tr_Send next (case (msg', m') of (MsgRaw _, Some m) \<Rightarrow> MsgRaw m | _ \<Rightarrow> msg') (Some e') w' of
                      (out, left, _, w'') \<Rightarrow> (out, (case msg of MsgRaw _ \<Rightarrow> msg | _ \<Rightarrow> left), envelope, w'')))))"

definition BeforeSend :: "netlib \<Rightarrow> 'w before_hook option \<Rightarrow> 'w middleware" where
  "BeforeSend L fn =
    (case fn of
       None \<Rightarrow> (\<lambda>t. t)
     | Some f \<Rightarrow> (\<lambda>next. \<lparr>tr_Send = before_Send L f next, tr_String = tr_String next, tr_Close = Some (closeTransport next)\<rparr>))"

text \<open>An after-send hook sees the sent message and the error, and may change the sent message in place.\<close>

type_synonym 'w after_hook = "sent option \<Rightarrow> goerr option \<Rightarrow> 'w \<Rightarrow> sent option \<times> 'w"

definition after_Send ::
  "'w after_hook \<Rightarrow> 'w transport \<Rightarrow> raw_message \<Rightarrow> envelope option \<Rightarrow> 'w
    \<Rightarrow> outcome \<times> raw_message \<times> envelope option \<times> 'w" where
  "after_Send fn next msg envelope w =
    (case tr_Send next msg envelope w of
       (Inl err, m, e, w) \<Rightarrow> (case fn None (Some err) w of (_, w) \<Rightarrow> (Inl err, m, e, w))
     | (Inr sm, m, e, w) \<Rightarrow> (case fn sm None w of (sm', w) \<Rightarrow> (Inr (if sm = None then None else sm'), m, e, w)))"

definition AfterSend :: "'w after_hook option \<Rightarrow> 'w middleware" where
  "AfterSend fn =
    (case fn of
       None \<Rightarrow> (\<lambda>t. t)
     | Some f \<Rightarrow> (\<lambda>next. \<lparr>tr_Send = after_Send f next, tr_String = tr_String next, tr_Close = Some (closeTransport next)\<rparr>))"

section \<open>Observability\<close>

datatype attr_value = KindString bytes | KindInt int | KindBool bool

type_synonym attr = "bytes \<times> attr_value"

datatype span_event = SetAttributes "attr list" | RecordError goerr | SetError bytes | EndSpan

text \<open>
  A tracer gives each span a number; \<open>span_event\<close> is what the middleware does to it.
  \<open>h_Record d\<close> records the duration \<open>d\<close> in milliseconds, as the code converts it.
\<close>

record 'w tracer =
  t_Start :: "bytes \<Rightarrow> 'w \<Rightarrow> nat \<times> 'w"
  t_Event :: "nat \<Rightarrow> span_event \<Rightarrow> 'w \<Rightarrow> 'w"

record 'w meter =
  c_Add :: "int \<Rightarrow> attr list \<Rightarrow> 'w \<Rightarrow> 'w"
  h_Record :: "duration \<Rightarrow> attr list \<Rightarrow> 'w \<Rightarrow> 'w"

record 'w obs_config =
  oc_tracer :: "'w tracer option"
  oc_meter :: "'w meter option"
  oc_spanName :: bytes

definition WithTracer :: "'w tracer option \<Rightarrow> 'w obs_config \<Rightarrow> 'w obs_config" where
  "WithTracer t c = c\<lparr>oc_tracer := t\<rparr>"

definition WithMeter :: "'w meter option \<Rightarrow> 'w obs_config \<Rightarrow> 'w obs_config" where
  "WithMeter m c = c\<lparr>oc_meter := m\<rparr>"

definition WithSpanName :: "bytes \<Rightarrow> 'w obs_config \<Rightarrow> 'w obs_config" where
  "WithSpanName name c = c\<lparr>oc_spanName := name\<rparr>"

definition recipient_count :: "envelope \<Rightarrow> attr" where
  "recipient_count e = (''messaging.recipient_count'', KindInt (int (length (Envelope_Recipients e))))"

text \<open>What is done to the span before and after the wrapped send.\<close>

definition span_before :: "bytes \<Rightarrow> envelope option \<Rightarrow> span_event list" where
  "span_before name envelope =
    SetAttributes [(''messaging.system'', KindString ''gomailer''), (''messaging.destination.name'', KindString name)]
    # (case envelope of Some e \<Rightarrow> [SetAttributes [recipient_count e]] | None \<Rightarrow> [])"

definition outcome_name :: "outcome \<Rightarrow> bytes" where
  "outcome_name out = (case out of Inl _ \<Rightarrow> ''error'' | Inr _ \<Rightarrow> ''success'')"

definition span_after :: "unicode \<Rightarrow> envelope option \<Rightarrow> outcome \<Rightarrow> span_event list" where
  "span_after U envelope out =
    SetAttributes [(''messaging.gomailer.outcome'', KindString (outcome_name out))]
    # (case out of
         Inl err \<Rightarrow> [RecordError err, SetError (Error_text U err)]
       | Inr sm \<Rightarrow>
           (case (envelope, sm) of
              (None, Some s) \<Rightarrow> (case sm_envelope s of Some e \<Rightarrow> [SetAttributes [recipient_count e]] | None \<Rightarrow> [])
            | _ \<Rightarrow> [])
           @ (case sm of
                Some s \<Rightarrow> if sm_messageID s \<noteq> [] then [SetAttributes [(''messaging.message.id'', KindString (sm_messageID s))]] else []
              | None \<Rightarrow> []))"

definition metric_attrs :: "bytes \<Rightarrow> outcome \<Rightarrow> attr list" where
  "metric_attrs name out =
    [(''messaging.destination.name'', KindString name), (''messaging.gomailer.outcome'', KindString (outcome_name out))]"

definition span_events :: "'w tracer \<Rightarrow> nat \<Rightarrow> span_event list \<Rightarrow> 'w \<Rightarrow> 'w" where
  "span_events tr n evs w = foldl (\<lambda>w ev. t_Event tr n ev w) w evs"

definition obs_Send ::
  "'w sys \<Rightarrow> 'w obs_config \<Rightarrow> 'w transport \<Rightarrow> raw_message \<Rightarrow> envelope option \<Rightarrow> 'w
    \<Rightarrow> outcome \<times> raw_message \<times> envelope option \<times> 'w" where
  "obs_Send S cfg next msg envelope w =
    (let name = tr_String next;
         (span, w) = (case oc_tracer cfg of
            Some tr \<Rightarrow> (case t_Start tr (oc_spanName cfg) w of (n, w) \<Rightarrow> (n, span_events tr n (span_before name envelope) w))
          | None \<Rightarrow> (0, w));
         start = now_nanos S w in
     case tr_Send next msg envelope w of
       (out, m, e, w) \<Rightarrow>
         (let elapsed = time_Sub (now_nanos S w) start;
              w = (case oc_tracer cfg of
                Some tr \<Rightarrow> span_events tr span (span_after (nl_unicode (sys_lib S)) envelope out) w | None \<Rightarrow> w);
              w = (case oc_meter cfg of
                Some mt \<Rightarrow> h_Record mt elapsed (metric_attrs name out) (c_Add mt 1 (metric_attrs name out) w) | None \<Rightarrow> w);
              w = (case oc_tracer cfg of Some tr \<Rightarrow> t_Event tr span EndSpan w | None \<Rightarrow> w)
          in (out, m, e, w)))"

definition Observability :: "'w sys \<Rightarrow> ('w obs_config \<Rightarrow> 'w obs_config) list \<Rightarrow> 'w middleware" where
  "Observability S opts =
    (let cfg = foldl (\<lambda>c o'. o' c) \<lparr>oc_tracer = None, oc_meter = None, oc_spanName = ''gomailer.send''\<rparr> opts in
     if oc_tracer cfg = None \<and> oc_meter cfg = None then (\<lambda>t. t)
     else (\<lambda>next. \<lparr>tr_Send = obs_Send S cfg next, tr_String = tr_String next, tr_Close = Some (closeTransport next)\<rparr>))"

section \<open>The mailer\<close>

definition mailer_Send :: "'w transport \<Rightarrow> raw_message \<Rightarrow> envelope option \<Rightarrow> 'w \<Rightarrow> goerr option \<times> 'w" where
  "mailer_Send t msg envelope w =
    (case tr_Send t msg envelope w of (Inl err, _, _, w) \<Rightarrow> (Some err, w) | (Inr _, _, _, w) \<Rightarrow> (None, w))"

definition mailer_Close :: "'w transport \<Rightarrow> 'w \<Rightarrow> goerr option \<times> 'w" where
  "mailer_Close t w = (case tr_Close t of Some c \<Rightarrow> c w | None \<Rightarrow> (None, w))"

section \<open>Decorators\<close>

text \<open>A middleware keeps the name of the transport it wraps and closes it the same way.\<close>

locale decorator =
  fixes mw :: "'w middleware"
  assumes keeps_name: "tr_String (mw t) = tr_String t"
    and keeps_close: "closeTransport (mw t) = closeTransport t"

lemma closeTransport_id [simp]: "closeTransport \<lparr>tr_Send = f, tr_String = s, tr_Close = Some (closeTransport t)\<rparr> = closeTransport t"
  by (simp add: closeTransport_def fun_eq_iff)

interpretation before_mw: decorator "BeforeSend L fn" for L fn
  by unfold_locales (auto simp: BeforeSend_def split: option.splits)

interpretation after_mw: decorator "AfterSend fn" for fn
  by unfold_locales (auto simp: AfterSend_def split: option.splits)

interpretation obs_mw: decorator "Observability S opts" for S opts
  by unfold_locales (auto simp: Observability_def Let_def)

text \<open>A stack of decorators is a decorator.\<close>

locale decorator_stack =
  fixes mws :: "'w middleware option list"
  assumes layers: "Some f \<in> set mws \<Longrightarrow> decorator f"
begin

lemma wrap_keeps: "tr_String (Wrap t mws) = tr_String t \<and> closeTransport (Wrap t mws) = closeTransport t"
  using layers
proof (induction mws)
  case (Cons mw mws)
  show ?case
  proof (cases mw)
    case (Some f)
    then have "decorator f" using Cons.prems by auto
    with Cons Some show ?thesis by (auto simp: Wrap_def decorator.keeps_name decorator.keeps_close)
  qed (use Cons in \<open>auto simp: Wrap_def\<close>)
qed (simp add: Wrap_def)

end

sublocale decorator_stack \<subseteq> stack: decorator "Chain mws"
  by unfold_locales (simp_all add: Chain_def wrap_keeps)

text \<open>The middlewares of the package, and a stack that uses them all.\<close>

definition shipped :: "netlib \<Rightarrow> 'w sys \<Rightarrow> 'w middleware \<Rightarrow> bool" where
  "shipped L S mw \<longleftrightarrow> (\<exists>fn. mw = BeforeSend L fn) \<or> (\<exists>fn. mw = AfterSend fn) \<or> (\<exists>opts. mw = Observability S opts)"

lemma shipped_decorator: "shipped L S mw \<Longrightarrow> decorator mw"
  unfolding shipped_def using before_mw.decorator_axioms after_mw.decorator_axioms obs_mw.decorator_axioms by blast

interpretation shipped_stack: decorator_stack "[Some (Observability S opts), Some (BeforeSend L before), Some (AfterSend after)]"
  for S opts L before after
  by (rule decorator_stack.intro)
     (auto simp: before_mw.decorator_axioms after_mw.decorator_axioms obs_mw.decorator_axioms)

lemma Wrap_append: "Wrap t (as @ bs) = Wrap (Wrap t bs) as"
  by (simp add: Wrap_def)

lemma Wrap_Nil: "Wrap t [] = t" "Wrap t (None # as) = Wrap t as" "Wrap t (Some f # as) = f (Wrap t as)"
  by (simp_all add: Wrap_def)

section \<open>Hooks in sequence\<close>

text \<open>Two hooks, the second on what the first left, unless that refused.\<close>

definition then_hook :: "'w before_hook \<Rightarrow> 'w before_hook \<Rightarrow> 'w before_hook" where
  "then_hook f g = (\<lambda>m e w. case f m e w of (None, m1, e1, w1) \<Rightarrow> g m1 e1 w1 | r \<Rightarrow> r)"

text \<open>A hook that is handed a message hands one back, and none otherwise: it changes it in place.\<close>

definition in_place :: "'w before_hook \<Rightarrow> bool" where
  "in_place f \<longleftrightarrow> (\<forall>m e w. (fst (snd (f m e w)) = None) = (m = None))"

lemma in_placeD: "in_place f \<Longrightarrow> f m e w = (err, m', e', w') \<Longrightarrow> (m' = None) = (m = None)"
  unfolding in_place_def by (metis fst_conv snd_conv)

text \<open>The message a layer forwards, the one it hands the hook, and the envelope it settles on.\<close>

definition hook_envelope :: "netlib \<Rightarrow> raw_message \<Rightarrow> envelope option \<Rightarrow> goerr + envelope" where
  "hook_envelope L msg env = (case env of None \<Rightarrow> EnvelopeFromMessage L msg | Some e \<Rightarrow> Inr e)"

definition hook_message :: "raw_message \<Rightarrow> message option" where
  "hook_message msg = (case msg of MsgRaw m \<Rightarrow> Some m | _ \<Rightarrow> None)"

definition forwarded :: "raw_message \<Rightarrow> message option \<Rightarrow> raw_message" where
  "forwarded msg m = (case m of Some m \<Rightarrow> MsgRaw m | None \<Rightarrow> msg)"

definition seen_outside :: "'a \<times> 'b \<times> 'c \<times> 'w \<Rightarrow> 'a \<times> 'w" where
  "seen_outside r = (fst r, snd (snd (snd r)))"

lemma before_Send_result:
  assumes "in_place f"
  shows "seen_outside (before_Send L f t msg env w) =
    (case hook_envelope L msg env of
       Inl err \<Rightarrow> (Inl err, w)
     | Inr e \<Rightarrow>
         (case f (hook_message msg) e w of
            (Some err, m', e', w') \<Rightarrow> (if errors_Is err ErrReject then Inr None else Inl err, w')
          | (None, m', e', w') \<Rightarrow>
              (case tr_Send t (forwarded msg m') (Some e') w' of (out, _, _, w'') \<Rightarrow> (out, w''))))"
proof (cases "hook_envelope L msg env")
  case (Inl err)
  then show ?thesis by (cases msg) (auto simp: before_Send_def seen_outside_def hook_envelope_def Let_def split: option.splits)
next
  case (Inr e)
  obtain err m' e' w' where f: "f (hook_message msg) e w = (err, m', e', w')" by (metis prod_cases4)
  have "(m' = None) = (hook_message msg = None)" using in_placeD [OF assms f] .
  with Inr f show ?thesis
    by (cases msg; cases m'; cases err)
       (auto simp: before_Send_def seen_outside_def hook_envelope_def hook_message_def forwarded_def Let_def split: option.splits prod.splits)
qed

lemma then_hook_in_place: "in_place f \<Longrightarrow> in_place g \<Longrightarrow> in_place (then_hook f g)"
  unfolding in_place_def then_hook_def by (auto split: prod.splits option.splits) (metis fst_conv snd_conv)+

text \<open>Stacking two before-send layers is one layer with the hooks in sequence.\<close>

lemma before_compose:
  assumes "in_place f" "in_place g"
  shows "seen_outside (before_Send L f (BeforeSend L (Some g) t) msg env w)
    = seen_outside (before_Send L (then_hook f g) t msg env w)"
proof (cases "hook_envelope L msg env")
  case (Inr e)
  obtain err m' e' w' where f: "f (hook_message msg) e w = (err, m', e', w')" by (metis prod_cases4)
  have m': "hook_message (forwarded msg m') = m'"
    using in_placeD [OF assms(1) f] by (auto simp: hook_message_def forwarded_def split: option.splits raw_message.splits)
  show ?thesis
  proof (cases err)
    case None
    obtain err2 m2 e2 w2 where g: "g m' e' w' = (err2, m2, e2, w2)" by (metis prod_cases4)
    have m2: "forwarded (forwarded msg m') m2 = forwarded msg m2" using in_placeD [OF assms(2) g]
      by (auto simp: forwarded_def split: option.splits)
    have "seen_outside (tr_Send (BeforeSend L (Some g) t) (forwarded msg m') (Some e') w') =
        (case err2 of Some err \<Rightarrow> (if errors_Is err ErrReject then Inr None else Inl err, w2)
         | None \<Rightarrow> (case tr_Send t (forwarded msg m2) (Some e2) w2 of (out, _, _, w3) \<Rightarrow> (out, w3)))"
      by (simp add: BeforeSend_def before_Send_result [OF assms(2)] hook_envelope_def m' m2 g split: option.split)
    moreover obtain out x y w3 where "tr_Send (BeforeSend L (Some g) t) (forwarded msg m') (Some e') w' = (out, x, y, w3)"
      by (metis prod_cases4)
    moreover have "then_hook f g (hook_message msg) e w = (err2, m2, e2, w2)" using f None g by (simp add: then_hook_def)
    moreover have "seen_outside (out, x, y, w3) = (out, w3)" by (simp add: seen_outside_def)
    ultimately show ?thesis using Inr f None
      by (simp add: before_Send_result [OF assms(1)] before_Send_result [OF then_hook_in_place [OF assms]]
          split: option.split)
  next
    case (Some a)
    with f have "then_hook f g (hook_message msg) e w = (err, m', e', w')" by (simp add: then_hook_def)
    with Inr f Some show ?thesis
      by (simp add: before_Send_result [OF assms(1)] before_Send_result [OF then_hook_in_place [OF assms]])
  qed
qed (simp add: before_Send_result [OF assms(1)] before_Send_result [OF then_hook_in_place [OF assms]])

section \<open>A logging observer\<close>

text \<open>A tracer and a meter that write to a log beside the transport's world.\<close>

datatype obs_event = Started bytes | SpanDid nat span_event | Counted int "attr list" | Timed duration "attr list"

definition log_tracer :: "('v \<times> obs_event list) tracer" where
  "log_tracer = \<lparr>t_Start = \<lambda>name (v, l). (length l, (v, l @ [Started name])),
     t_Event = \<lambda>n ev (v, l). (v, l @ [SpanDid n ev])\<rparr>"

definition log_meter :: "('v \<times> obs_event list) meter" where
  "log_meter = \<lparr>c_Add = \<lambda>k as (v, l). (v, l @ [Counted k as]), h_Record = \<lambda>d as (v, l). (v, l @ [Timed d as])\<rparr>"

text \<open>A transport and a clock that do not look at the log.\<close>

definition beside :: "'v transport \<Rightarrow> ('v \<times> 'l) transport" where
  "beside t = \<lparr>tr_Send = \<lambda>m e (v, l). (case tr_Send t m e v of (out, m, e, v) \<Rightarrow> (out, m, e, (v, l))),
     tr_String = tr_String t,
     tr_Close = map_option (\<lambda>c (v, l). (case c v of (r, v) \<Rightarrow> (r, (v, l)))) (tr_Close t)\<rparr>"

lemma span_events_log: "span_events log_tracer n evs (v, l) = (v, l @ map (SpanDid n) evs)"
  by (induction evs arbitrary: l) (auto simp: span_events_def log_tracer_def)

definition obs_log :: "unicode \<Rightarrow> bytes \<Rightarrow> nat \<Rightarrow> bytes \<Rightarrow> envelope option \<Rightarrow> outcome \<Rightarrow> duration \<Rightarrow> obs_event list" where
  "obs_log U spanName n name env out d =
    Started spanName # map (SpanDid n) (span_before name env) @ map (SpanDid n) (span_after U env out)
    @ [Counted 1 (metric_attrs name out), Timed d (metric_attrs name out), SpanDid n EndSpan]"

text \<open>A clock that does not look at the log.\<close>

definition beside_sys :: "'v sys \<Rightarrow> ('v \<times> 'l) sys" where
  "beside_sys S = \<lparr>sys_lib = sys_lib S, ctx_Err = \<lambda>w. ctx_Err S (fst w), Now = \<lambda>w. Now S (fst w),
     sleep_or_done = \<lambda>d (v, l). (case sleep_or_done S d v of (r, v) \<Rightarrow> (r, (v, l))),
     rand_stream = \<lambda>w. rand_stream S (fst w), rand_used = \<lambda>n (v, l). (rand_used S n v, l), second_div = second_div S\<rparr>"

lemma now_beside: "now_nanos (beside_sys S) (v, l) = now_nanos S v"
  by (simp add: now_nanos_def beside_sys_def)

lemma obs_logged:
  assumes "tr_Send t msg env v = (out, m, e, v')"
  shows "tr_Send (Observability (beside_sys S) [WithTracer (Some log_tracer), WithMeter (Some log_meter), WithSpanName name] (beside t))
      msg env (v, l)
    = (out, m, e, (v', l @ obs_log (nl_unicode (sys_lib S)) name (length l) (tr_String t) env out
         (time_Sub (now_nanos S v') (now_nanos S v))))"
proof -
  have start: "t_Start log_tracer name (v, l) = (length l, (v, l @ [Started name]))" by (simp add: log_tracer_def)
  have ended: "t_Event log_tracer n EndSpan (x, k) = (x, k @ [SpanDid n EndSpan])" for n x k by (simp add: log_tracer_def)
  have lib: "sys_lib (beside_sys S) = sys_lib S" by (simp add: beside_sys_def)
  show ?thesis
    by (simp add: Observability_def WithTracer_def WithMeter_def WithSpanName_def obs_Send_def start ended
        span_events_log beside_def assms now_beside lib obs_log_def log_meter_def Let_def)
qed

lemma mailer_seen: "mailer_Send t msg env w =
    (case seen_outside (tr_Send t msg env w) of (Inl err, w') \<Rightarrow> (Some err, w') | (Inr _, w') \<Rightarrow> (None, w'))"
  by (auto simp: mailer_Send_def seen_outside_def split: prod.split sum.split)

lemma before_mailer:
  assumes "in_place f"
  shows "mailer_Send (BeforeSend L (Some f) t) msg env w =
      (case hook_envelope L msg env of
         Inl err \<Rightarrow> (Some err, w)
       | Inr e \<Rightarrow>
           (case f (hook_message msg) e w of
              (Some err, m', e', w') \<Rightarrow> (if errors_Is err ErrReject then None else Some err, w')
            | (None, m', e', w') \<Rightarrow> mailer_Send t (forwarded msg m') (Some e') w'))"
proof -
  have "mailer_Send (BeforeSend L (Some f) t) msg env w =
    (case seen_outside (before_Send L f t msg env w) of (Inl err, w') \<Rightarrow> (Some err, w') | (Inr _, w') \<Rightarrow> (None, w'))"
    by (simp add: mailer_seen BeforeSend_def)
  then show ?thesis
    by (simp add: before_Send_result [OF assms] mailer_Send_def split: prod.split sum.split option.split)
qed

text \<open>The message and the envelope a layer leaves with its caller are the caller's own.\<close>

lemma before_keeps: "\<exists>out w'. before_Send L f t (MsgRaw m) env w = (out, MsgRaw m, env, w')"
  by (auto simp: before_Send_def Let_def split: prod.split sum.split option.split)

end
