(* ===== verification/Otel.thy ===== *)
theory Otel
  imports Middleware
begin

text \<open>
  The OpenTelemetry adapter (\<^verbatim>\<open>middleware/otelmw/otelmw.go\<close>): it turns a tracer provider and a meter
  provider into the tracer and the meter of the observability middleware. The OpenTelemetry
  SDK is a parameter: a provider is a record of the calls the adapter makes on it, which may
  do anything to the world. A nil provider is \<open>None\<close>; an instrument may come back nil, with or
  without an error.
\<close>

section \<open>The SDK's interface\<close>

datatype key_value = KV_String bytes bytes | KV_Int64 bytes int | KV_Bool bytes bool

datatype span_kind = SpanKindInternal | SpanKindClient

datatype status_code = StatusUnset | StatusError

text \<open>The calls on a \<^verbatim>\<open>trace.Tracer\<close> and on the spans it started, which are numbered.\<close>

record 'w sdk_tracer =
  st_Start :: "bytes \<Rightarrow> span_kind \<Rightarrow> 'w \<Rightarrow> nat \<times> 'w"
  st_SetAttributes :: "nat \<Rightarrow> key_value list \<Rightarrow> 'w \<Rightarrow> 'w"
  st_RecordError :: "nat \<Rightarrow> goerr \<Rightarrow> 'w \<Rightarrow> 'w"
  st_SetStatus :: "nat \<Rightarrow> status_code \<Rightarrow> bytes \<Rightarrow> 'w \<Rightarrow> 'w"
  st_End :: "nat \<Rightarrow> 'w \<Rightarrow> 'w"

text \<open>A \<^verbatim>\<open>metric.Meter\<close>: an instrument has a name, a unit and a description. A value is a duration in milliseconds.\<close>

type_synonym 'w sdk_counter = "int \<Rightarrow> key_value list \<Rightarrow> 'w \<Rightarrow> 'w"
type_synonym 'w sdk_histogram = "duration \<Rightarrow> key_value list \<Rightarrow> 'w \<Rightarrow> 'w"

record 'w sdk_meter =
  sm_Int64Counter :: "bytes \<Rightarrow> bytes \<Rightarrow> bytes \<Rightarrow> 'w \<Rightarrow> ('w sdk_counter option \<times> goerr option) \<times> 'w"
  sm_Float64Histogram :: "bytes \<Rightarrow> bytes \<Rightarrow> bytes \<Rightarrow> 'w \<Rightarrow> ('w sdk_histogram option \<times> goerr option) \<times> 'w"

type_synonym 'w tracer_provider = "bytes \<Rightarrow> 'w \<Rightarrow> 'w sdk_tracer \<times> 'w"
type_synonym 'w meter_provider = "bytes \<Rightarrow> 'w \<Rightarrow> 'w sdk_meter \<times> 'w"

text \<open>The providers registered globally (\<^verbatim>\<open>otel.GetTracerProvider\<close>, \<^verbatim>\<open>otel.GetMeterProvider\<close>).\<close>

record 'w otel_globals =
  GetTracerProvider :: "'w \<Rightarrow> 'w tracer_provider"
  GetMeterProvider :: "'w \<Rightarrow> 'w meter_provider"

section \<open>Attributes\<close>

definition toKeyValue :: "attr \<Rightarrow> key_value" where
  "toKeyValue a = (case a of
     (k, KindInt i) \<Rightarrow> KV_Int64 k i
   | (k, KindBool b) \<Rightarrow> KV_Bool k b
   | (k, KindString s) \<Rightarrow> KV_String k s)"

definition toKeyValues :: "attr list \<Rightarrow> key_value list" where
  "toKeyValues attrs = (if attrs = [] then [] else foldl (\<lambda>kvs a. kvs @ [toKeyValue a]) [] attrs)"

section \<open>The tracer adapter\<close>

text \<open>\<^verbatim>\<open>otelTracer.Start\<close>, and the methods of \<^verbatim>\<open>otelSpan\<close>.\<close>

definition otelTracer_Start :: "'w sdk_tracer \<Rightarrow> bytes \<Rightarrow> 'w \<Rightarrow> nat \<times> 'w" where
  "otelTracer_Start tr name w = st_Start tr name SpanKindClient w"

fun otelSpan :: "'w sdk_tracer \<Rightarrow> nat \<Rightarrow> span_event \<Rightarrow> 'w \<Rightarrow> 'w" where
  "otelSpan tr n (SetAttributes attrs) w = (if attrs = [] then w else st_SetAttributes tr n (toKeyValues attrs) w)"
| "otelSpan tr n (RecordError err) w = st_RecordError tr n err w"
| "otelSpan tr n (SetError description) w = st_SetStatus tr n StatusError description w"
| "otelSpan tr n EndSpan w = st_End tr n w"

definition otelTracer :: "'w sdk_tracer \<Rightarrow> 'w tracer" where
  "otelTracer tr = \<lparr>t_Start = otelTracer_Start tr, t_Event = otelSpan tr\<rparr>"

section \<open>The meter adapter\<close>

definition otelCounter_Add :: "'w sdk_counter option \<Rightarrow> int \<Rightarrow> attr list \<Rightarrow> 'w \<Rightarrow> 'w" where
  "otelCounter_Add c delta attrs w = (case c of None \<Rightarrow> w | Some add \<Rightarrow> add delta (toKeyValues attrs) w)"

definition otelHistogram_Record :: "'w sdk_histogram option \<Rightarrow> duration \<Rightarrow> attr list \<Rightarrow> 'w \<Rightarrow> 'w" where
  "otelHistogram_Record h value attrs w = (case h of None \<Rightarrow> w | Some rec \<Rightarrow> rec value (toKeyValues attrs) w)"

definition newOtelMeter :: "'w sdk_meter \<Rightarrow> 'w \<Rightarrow> 'w meter \<times> 'w" where
  "newOtelMeter m w =
    (let ((counter, err), w) = sm_Int64Counter m ''gomailer.send.count'' ''{message}''
           ''Number of Send attempts, partitioned by transport and outcome.'' w;
         counter = (if err \<noteq> None then None else counter);
         ((hist, err), w) = sm_Float64Histogram m ''gomailer.send.duration'' ''ms''
           ''Send latency in milliseconds, partitioned by transport and outcome.'' w;
         hist = (if err \<noteq> None then None else hist)
     in (\<lparr>c_Add = otelCounter_Add counter, h_Record = otelHistogram_Record hist\<rparr>, w))"

section \<open>The constructor\<close>

definition instrumentationName :: bytes where
  "instrumentationName = ''github.com/shyim/go-mailer/middleware/otelmw''"

record 'w otel_config =
  c_tp :: "'w tracer_provider option"
  c_mp :: "'w meter_provider option"

definition WithTracerProvider :: "'w tracer_provider option \<Rightarrow> 'w otel_config \<Rightarrow> 'w otel_config" where
  "WithTracerProvider tp c = (if tp \<noteq> None then c\<lparr>c_tp := tp\<rparr> else c)"

definition WithMeterProvider :: "'w meter_provider option \<Rightarrow> 'w otel_config \<Rightarrow> 'w otel_config" where
  "WithMeterProvider mp c = (if mp \<noteq> None then c\<lparr>c_mp := mp\<rparr> else c)"

definition otel_New ::
  "'w sys \<Rightarrow> 'w otel_globals \<Rightarrow> 'w tracer_provider option \<Rightarrow> 'w meter_provider option
    \<Rightarrow> ('w otel_config \<Rightarrow> 'w otel_config) list \<Rightarrow> 'w \<Rightarrow> 'w middleware \<times> 'w" where
  "otel_New S G tp mp opts w =
    (let cfg = foldl (\<lambda>c o'. o' c) \<lparr>c_tp = tp, c_mp = mp\<rparr> opts;
         tp = (case c_tp cfg of None \<Rightarrow> GetTracerProvider G w | Some p \<Rightarrow> p);
         mp = (case c_mp cfg of None \<Rightarrow> GetMeterProvider G w | Some p \<Rightarrow> p);
         (tr, w) = tp instrumentationName w;
         tracer = otelTracer tr;
         (m, w) = mp instrumentationName w;
         (meter, w) = newOtelMeter m w
     in (Observability S [WithTracer (Some tracer), WithMeter (Some meter)], w))"

section \<open>What the adapter keeps\<close>

lemma toKeyValues_map: "toKeyValues attrs = map toKeyValue attrs"
proof -
  have "foldl (\<lambda>kvs a. kvs @ [toKeyValue a]) acc attrs = acc @ map toKeyValue attrs" for acc
    by (induction attrs arbitrary: acc) auto
  then show ?thesis by (simp add: toKeyValues_def)
qed

text \<open>The translation of attributes loses nothing.\<close>

lemma inj_toKeyValue: "inj toKeyValue"
  by (rule injI) (auto simp: toKeyValue_def split: prod.splits attr_value.splits)

lemma toKeyValues_inject [simp]: "toKeyValues as = toKeyValues bs \<longleftrightarrow> as = bs"
  using inj_toKeyValue by (simp add: toKeyValues_map inj_map_eq_map)

text \<open>The last provider that is not nil wins, then the positional one, then the global one.\<close>

definition resolve :: "'a option list \<Rightarrow> 'a option \<Rightarrow> 'a \<Rightarrow> 'a" where
  "resolve opts positional global =
    (case filter (\<lambda>p. p \<noteq> None) (rev opts) @ [positional] of
       Some p # _ \<Rightarrow> p | _ \<Rightarrow> global)"

text \<open>An option of the adapter as data: a tracer provider or a meter provider.\<close>

datatype ('t, 'm) provider_option = Tracers "'t option" | Meters "'m option"

fun apply_option :: "('w tracer_provider, 'w meter_provider) provider_option \<Rightarrow> 'w otel_config \<Rightarrow> 'w otel_config" where
  "apply_option (Tracers tp) = WithTracerProvider tp"
| "apply_option (Meters mp) = WithMeterProvider mp"

definition tracer_options :: "('t, 'm) provider_option list \<Rightarrow> 't option list" where
  "tracer_options xs = concat (map (\<lambda>x. case x of Tracers p \<Rightarrow> [p] | Meters _ \<Rightarrow> []) xs)"

definition meter_options :: "('t, 'm) provider_option list \<Rightarrow> 'm option list" where
  "meter_options xs = concat (map (\<lambda>x. case x of Meters p \<Rightarrow> [p] | Tracers _ \<Rightarrow> []) xs)"

definition latest :: "'a option list \<Rightarrow> 'a option \<Rightarrow> 'a option" where
  "latest ps d = foldl (\<lambda>d p. if p \<noteq> None then p else d) d ps"

lemma options_latest:
  "foldl (\<lambda>c o'. o' c) \<lparr>c_tp = tp, c_mp = mp\<rparr> (map apply_option xs) =
    \<lparr>c_tp = latest (tracer_options xs) tp, c_mp = latest (meter_options xs) mp\<rparr>"
proof (induction xs arbitrary: tp mp)
  case (Cons x xs)
  then show ?case
    by (cases x) (auto simp: latest_def tracer_options_def meter_options_def WithTracerProvider_def WithMeterProvider_def)
qed (simp add: latest_def tracer_options_def meter_options_def)

lemma latest_resolve: "(case latest ps d of None \<Rightarrow> g | Some p \<Rightarrow> p) = resolve ps d g"
  by (induction ps arbitrary: d rule: rev_induct) (auto simp: latest_def resolve_def split: option.split)

section \<open>An exporter\<close>

text \<open>
  Providers, numbered, that write every call to a log beside the transport's world. A span
  has the number of the log entry that started it. \<open>broken\<close> says which instruments of which provider
  cannot be created.
\<close>

datatype export =
  XTracer nat bytes | XMeter nat bytes
| XInstrument nat bytes bytes bytes
| XStart nat bytes span_kind
| XAttributes nat "key_value list" | XError nat goerr | XStatus nat status_code bytes | XEnd nat
| XAdd nat int "key_value list" | XRecord nat duration "key_value list"

definition exporting :: "nat \<Rightarrow> ('v \<times> export list) sdk_tracer" where
  "exporting i =
    \<lparr>st_Start = \<lambda>name k (v, l). (length l, (v, l @ [XStart i name k])),
     st_SetAttributes = \<lambda>n as (v, l). (v, l @ [XAttributes n as]),
     st_RecordError = \<lambda>n err (v, l). (v, l @ [XError n err]),
     st_SetStatus = \<lambda>n c d (v, l). (v, l @ [XStatus n c d]),
     st_End = \<lambda>n (v, l). (v, l @ [XEnd n])\<rparr>"

definition measuring :: "(nat \<Rightarrow> bytes \<Rightarrow> goerr option) \<Rightarrow> nat \<Rightarrow> ('v \<times> export list) sdk_meter" where
  "measuring broken j =
    \<lparr>sm_Int64Counter = \<lambda>name u d (v, l).
       ((Some (\<lambda>k as (v, l). (v, l @ [XAdd j k as])), broken j name), (v, l @ [XInstrument j name u d])),
     sm_Float64Histogram = \<lambda>name u d (v, l).
       ((Some (\<lambda>x as (v, l). (v, l @ [XRecord j x as])), broken j name), (v, l @ [XInstrument j name u d]))\<rparr>"

definition export_tracer :: "nat \<Rightarrow> ('v \<times> export list) tracer_provider" where
  "export_tracer i name = (\<lambda>(v, l). (exporting i, (v, l @ [XTracer i name])))"

definition export_meter :: "(nat \<Rightarrow> bytes \<Rightarrow> goerr option) \<Rightarrow> nat \<Rightarrow> ('v \<times> export list) meter_provider" where
  "export_meter broken j name = (\<lambda>(v, l). (measuring broken j, (v, l @ [XMeter j name])))"

fun span_export :: "nat \<Rightarrow> span_event \<Rightarrow> export" where
  "span_export n (SetAttributes as) = XAttributes n (toKeyValues as)"
| "span_export n (RecordError err) = XError n err"
| "span_export n (SetError d) = XStatus n StatusError d"
| "span_export n EndSpan = XEnd n"

definition built_log :: "nat \<Rightarrow> nat \<Rightarrow> export list" where
  "built_log i j =
    [XTracer i instrumentationName, XMeter j instrumentationName,
     XInstrument j ''gomailer.send.count'' ''{message}'' ''Number of Send attempts, partitioned by transport and outcome.'',
     XInstrument j ''gomailer.send.duration'' ''ms'' ''Send latency in milliseconds, partitioned by transport and outcome.'']"

definition sent_log ::
  "(nat \<Rightarrow> bytes \<Rightarrow> goerr option) \<Rightarrow> unicode \<Rightarrow> nat \<Rightarrow> nat \<Rightarrow> nat \<Rightarrow> bytes \<Rightarrow> envelope option \<Rightarrow> outcome \<Rightarrow> duration \<Rightarrow> export list" where
  "sent_log broken U i j n name env out d =
    XStart i ''gomailer.send'' SpanKindClient
    # map (span_export n) (span_before name env @ span_after U env out)
    @ (if broken j ''gomailer.send.count'' = None then [XAdd j 1 (toKeyValues (metric_attrs name out))] else [])
    @ (if broken j ''gomailer.send.duration'' = None then [XRecord j d (toKeyValues (metric_attrs name out))] else [])
    @ [XEnd n]"

definition told :: "span_event \<Rightarrow> bool" where
  "told ev \<longleftrightarrow> ev \<noteq> SetAttributes []"

lemma span_events_told: "\<forall>ev\<in>set (span_before name env). told ev" "\<forall>ev\<in>set (span_after U env out). told ev"
  by (auto simp: span_before_def span_after_def told_def split: option.splits sum.splits prod.splits)

lemma otelSpan_exports: "told ev \<Longrightarrow> otelSpan (exporting i) n ev (v, l) = (v, l @ [span_export n ev])"
  by (cases ev) (simp_all add: exporting_def told_def)

lemma span_events_exports:
  "\<forall>ev\<in>set evs. told ev \<Longrightarrow> span_events (otelTracer (exporting i)) n evs (v, l) = (v, l @ map (span_export n) evs)"
  by (induction evs arbitrary: l) (auto simp: span_events_def otelTracer_def otelSpan_exports)

lemma newOtelMeter_exports:
  "newOtelMeter (measuring broken j) (v, l) =
    (\<lparr>c_Add = otelCounter_Add (if broken j ''gomailer.send.count'' = None then Some (\<lambda>k as (v, l). (v, l @ [XAdd j k as])) else None),
      h_Record = otelHistogram_Record (if broken j ''gomailer.send.duration'' = None then Some (\<lambda>x as (v, l). (v, l @ [XRecord j x as])) else None)\<rparr>,
     (v, l @ drop 2 (built_log 0 j)))"
  by (simp add: newOtelMeter_def measuring_def built_log_def)

lemma options_map:
  "tracer_options (map (map_provider_option f g) xs) = map (map_option f) (tracer_options xs)"
  "meter_options (map (map_provider_option f g) xs) = map (map_option g) (meter_options xs)"
  by (induction xs) (auto simp: tracer_options_def meter_options_def split: provider_option.splits)

lemma resolve_map: "resolve (map (map_option f) ps) (map_option f d) (f g) = f (resolve ps d g)"
  unfolding latest_resolve [symmetric]
  by (induction ps arbitrary: d) (auto simp: latest_def split: option.split)

definition export_globals :: "(nat \<Rightarrow> bytes \<Rightarrow> goerr option) \<Rightarrow> nat \<Rightarrow> nat \<Rightarrow> ('v \<times> export list) otel_globals" where
  "export_globals broken gt gm =
    \<lparr>GetTracerProvider = \<lambda>_. export_tracer gt, GetMeterProvider = \<lambda>_. export_meter broken gm\<rparr>"

text \<open>The middleware built over numbered exporters.\<close>

definition export_New where
  "export_New S broken gt gm tp mp xs w =
    otel_New S (export_globals broken gt gm) (map_option export_tracer tp) (map_option (export_meter broken) mp)
      (map apply_option (map (map_provider_option export_tracer (export_meter broken)) xs)) w"

lemma otel_built:
  assumes "i = resolve (tracer_options xs) tp gt" "j = resolve (meter_options xs) mp gm"
  shows "export_New S broken gt gm tp mp xs (v, l) =
    (Observability S [WithTracer (Some (otelTracer (exporting i))),
        WithMeter (Some (fst (newOtelMeter (measuring broken j) (v, l @ take 2 (built_log i j)))))],
     (v, l @ built_log i j))"
proof -
  have tp: "(case c_tp (foldl (\<lambda>c o'. o' c) \<lparr>c_tp = map_option export_tracer tp, c_mp = map_option (export_meter broken) mp\<rparr>
      (map apply_option (map (map_provider_option export_tracer (export_meter broken)) xs))) of None \<Rightarrow> export_tracer gt | Some p \<Rightarrow> p)
    = export_tracer i"
    unfolding options_latest by (simp add: latest_resolve options_map resolve_map assms)
  have mp: "(case c_mp (foldl (\<lambda>c o'. o' c) \<lparr>c_tp = map_option export_tracer tp, c_mp = map_option (export_meter broken) mp\<rparr>
      (map apply_option (map (map_provider_option export_tracer (export_meter broken)) xs))) of None \<Rightarrow> export_meter broken gm | Some p \<Rightarrow> p)
    = export_meter broken j"
    unfolding options_latest by (simp add: latest_resolve options_map resolve_map assms)
  show ?thesis
    unfolding export_New_def otel_New_def Let_def export_globals_def otel_globals.simps tp mp
    by (simp add: export_tracer_def export_meter_def newOtelMeter_exports built_log_def [of i j] built_log_def [of 0 j])
qed

lemma otel_Send:
  assumes "tr_Send t msg env v = (out, m, e, v')" and "fst (export_New (beside_sys S) broken gt gm tp mp xs w) = mw"
    and "i = resolve (tracer_options xs) tp gt" "j = resolve (meter_options xs) mp gm"
  shows "tr_Send (mw (beside t)) msg env (v, l)
    = (out, m, e, (v', l @ sent_log broken (nl_unicode (sys_lib S)) i j (length l) (tr_String t) env out
         (time_Sub (now_nanos S v') (now_nanos S v))))"
proof -
  obtain v0 l0 where w: "w = (v0, l0)" by (cases w)
  have mw: "mw = Observability (beside_sys S) [WithTracer (Some (otelTracer (exporting i))),
        WithMeter (Some (fst (newOtelMeter (measuring broken j) (v0, l0 @ take 2 (built_log i j)))))]"
    using assms(2) unfolding w otel_built [OF assms(3,4)] by simp
  have start: "t_Start (otelTracer (exporting i)) name (v, l) = (length l, (v, l @ [XStart i name SpanKindClient]))" for name
    by (simp add: otelTracer_def otelTracer_Start_def exporting_def)
  have ended: "t_Event (otelTracer (exporting i)) n EndSpan (x, k) = (x, k @ [XEnd n])" for n x k
    by (simp add: otelTracer_def exporting_def)
  have lib: "sys_lib (beside_sys S) = sys_lib S" by (simp add: beside_sys_def)
  show ?thesis unfolding mw newOtelMeter_exports fst_conv
    by (simp add: Observability_def WithTracer_def WithMeter_def obs_Send_def start ended
        span_events_exports span_events_told beside_def assms(1) now_beside lib sent_log_def Let_def
        otelCounter_Add_def otelHistogram_Record_def)
qed

end
