(* ===== verification/Client_Spec.thy ===== *)
theory Client_Spec
  imports Smtp_Spec Smtp_Factory Sendmail Ses Recording Otel
begin

text \<open>
  Properties of the parts around the core: the SMTP factory, the sendmail and SES
  transports, the middlewares with the mailer, the OpenTelemetry adapter and the recording
  transport.
\<close>

section \<open>The SMTP factory\<close>

definition sample_esmtp_lib :: esmtp_lib where
  "sample_esmtp_lib = \<lparr>el_parseFloat = \<lambda>s. Inr 1, el_parseDuration = \<lambda>s. Some 5, el_parseIP = \<lambda>s. None, el_unicode = sample_unicode\<rparr>"

definition sample_dsn :: dsn where
  "sample_dsn = \<lparr>dsn_scheme = ''smtp'', dsn_host = ''mx.io'', dsn_user = ''u'', dsn_password = ''p'', dsn_hasUser = True,
     dsn_hasPass = True, dsn_port = 0, dsn_hasPort = False,
     dsn_options = [(''ping_threshold'', ''30''), (''peer_fingerprint'', concat (replicate 32 ''AB:'')), (''retry_delay'', ''5ns'')]\<rparr>"

text \<open>
  The pinned fingerprint is 64 hexadecimal digits, and the check passes exactly when some
  certificate the peer presents has that digest; it need not be the leaf certificate.
\<close>

theorem pin_any_certificate:
  assumes "tls_options U d = Inr (Some tc)" "tc_pin tc = Some pin"
  shows "length (fst pin) = 64 \<and> hex_valid (fst pin)
    \<and> (verifyPeerCertificate sha256 pin certs = None) = list_ex (\<lambda>c. hex_encode (sha256 c) = fst pin) certs"
proof -
  from assms have "length (fst pin) = 64 \<and> hex_valid (fst pin)"
    by (auto simp: tls_options_def normalizeFingerprint_def Let_def bindE_eq_Inr getTLS_def newTLS_def split: if_splits)
  then show ?thesis using verifyPeerCertificate_None [of sha256 "fst pin" "snd pin" certs]
    by (auto simp: list_ex_iff image_iff eq_commute [of _ "fst pin"])
qed

theorem pin_any_certificate_witness:
  "verifyPeerCertificate (\<lambda>c. replicate 32 (if c = ''ca'' then CHR 0xAB else CHR 0x00))
     (concat (replicate 32 ''ab''), concat (replicate 32 ''AB:'')) [''evil leaf'', ''ca''] = None"
proof -
  have "tls_options sample_unicode sample_dsn = Inr (Some \<lparr>tc_ServerName = [], tc_MinVersion = VersionTLS12, tc_InsecureSkipVerify = False,
      tc_pin = Some (concat (replicate 32 ''ab''), concat (replicate 32 ''AB:''))\<rparr>)" by code_simp
  from pin_any_certificate [OF this, of "(concat (replicate 32 ''ab''), concat (replicate 32 ''AB:''))"
      "\<lambda>c. replicate 32 (if c = ''ca'' then CHR 0xAB else CHR 0x00)" "[''evil leaf'', ''ca'']"]
  have "(verifyPeerCertificate (\<lambda>c. replicate 32 (if c = ''ca'' then CHR 0xAB else CHR 0x00))
     (concat (replicate 32 ''ab''), concat (replicate 32 ''AB:'')) [''evil leaf'', ''ca''] = None)
    = list_ex (\<lambda>c. hex_encode (replicate 32 (if c = ''ca'' then CHR 0xAB else CHR 0x00)) = concat (replicate 32 ''ab''))
        [''evil leaf'', ''ca'']" by simp
  moreover have "hex_encode (replicate 32 (CHR 0xAB)) = concat (replicate 32 ''ab'')" by code_simp
  ultimately show ?thesis by simp
qed

section \<open>Sendmail\<close>

text \<open>
  (C27) With explicit recipients, the program is run with the command's arguments without
  \<^verbatim>\<open>-t\<close>, the sender unless the command has one, and after \<^verbatim>\<open>--\<close> the encoded recipients in order;
  its input has LF line ends, and unless the program ignores dots every line but the first
  that begins with a dot has it doubled.
\<close>

theorem sendmail_run:
  assumes "sendmail_invocation L command env raw = Inr (args, stdin)" "Envelope_Recipients env \<noteq> []"
  shows "\<exists>f rs. args = removeExactArg (splitCommand command) ''-t'' @ f @ [''--''] @ rs
    \<and> encode_all L (Envelope_Recipients env) = Inr rs
    \<and> sender_args L (removeExactArg (splitCommand command) ''-t'') env = Inr f
    \<and> SplitByte stdin LF =
       stdin_lines (removeExactArg (splitCommand command) ''-t'' @ f) (SplitByte (ReplaceAll raw CRLF [LF]) LF)"
  by (rule sendmail_invocation_run [OF assms])

theorem sendmail_run_witness:
  "\<exists>args stdin. sendmail_invocation sample_lib ''sendmail -t'' sample_envelope (''.a'' @ CRLF @ ''.b'') = Inr (args, stdin)
    \<and> args = [''sendmail'', ''-fa@x.io'', ''--'', ''b@y.io''] \<and> SplitByte stdin LF = [''.a'', ''..b'']"
proof -
  obtain args stdin where r: "sendmail_invocation sample_lib ''sendmail -t'' sample_envelope (''.a'' @ CRLF @ ''.b'') = Inr (args, stdin)"
  proof -
    have "\<not> isl (sendmail_invocation sample_lib ''sendmail -t'' sample_envelope (''.a'' @ CRLF @ ''.b''))" by code_simp
    then show thesis by (cases "sendmail_invocation sample_lib ''sendmail -t'' sample_envelope (''.a'' @ CRLF @ ''.b'')") (auto intro: that)
  qed
  have ne: "Envelope_Recipients sample_envelope \<noteq> []" by code_simp
  have "removeExactArg (splitCommand ''sendmail -t'') ''-t'' = [''sendmail'']"
    "encode_all sample_lib (Envelope_Recipients sample_envelope) = Inr [''b@y.io'']"
    "sender_args sample_lib [''sendmail''] sample_envelope = Inr [''-fa@x.io'']"
    "stdin_lines ([''sendmail''] @ [''-fa@x.io'']) (SplitByte (ReplaceAll (''.a'' @ CRLF @ ''.b'') CRLF [LF]) LF) = [''.a'', ''..b'']"
    by code_simp+
  with sendmail_run [OF r ne] r show ?thesis by auto
qed

text \<open>
  (C28) Quoting is undone by \<^verbatim>\<open>splitCommand\<close>: a command line of ASCII arguments in double quotes,
  separated by spaces, splits into these arguments.
\<close>

theorem splitCommand_roundtrip:
  assumes "list_all quotable args"
  shows "splitCommand (Join (map quote_arg args) '' '') = args"
  by (rule splitCommand_quoted [OF assms])

theorem splitCommand_roundtrip_witness:
  "splitCommand (Join (map quote_arg [''my sendmail'', [], ''-t'']) '' '') = [''my sendmail'', [], ''-t'']"
  by (rule splitCommand_roundtrip) code_simp

section \<open>SES\<close>

text \<open>
  (C29) The suppression list holds the entries of all pages the service hands out, following
  its tokens to the last page, and nothing else; while a service that always hands out a
  further token makes the call run for ever.
\<close>

theorem ListSuppressions_complete:
  assumes "sc_List client = Some api"
  shows "(ListSuppressions client w = Some (Inr rs, w')) = (\<exists>ps. pages_from api None w ps w' \<and> rs = concat (map page_entries ps))
    \<and> (endless api \<longrightarrow> ListSuppressions client w = None)"
  using assms by (simp add: ListSuppressions_def list_pages_iff list_pages_endless)

definition sample_pages :: "bytes option \<Rightarrow> nat \<Rightarrow> (goerr + ses_page option) \<times> nat" where
  "sample_pages tok n =
    (Inr (Some \<lparr>pg_Summaries = [\<lparr>en_EmailAddress = Some (case tok of None \<Rightarrow> ''a@x.io'' | Some t \<Rightarrow> t @ ''@x.io''),
        en_Reason = ReasonBounce, en_LastUpdateTime = None\<rparr>],
       pg_NextToken = (if tok = None then Some ''b'' else None)\<rparr>), Suc n)"

definition sample_ses :: "nat ses_client" where
  "sample_ses = \<lparr>sc_SendEmail = \<lambda>i n. (Inr None, n), sc_List = Some sample_pages, sc_Get = None\<rparr>"

theorem ListSuppressions_complete_witness:
  "\<exists>rs. ListSuppressions sample_ses 0 = Some (Inr rs, 2) \<and> map sup_Email rs = [''a@x.io'', ''b@x.io'']"
proof -
  obtain p where p: "sample_pages None 0 = (Inr (Some p), 1)" "pg_NextToken p = Some ''b''" "map sup_Email (page_entries p) = [''a@x.io'']"
    by (simp add: sample_pages_def page_entries_def suppression_of_def)
  obtain q where q: "sample_pages (Some ''b'') 1 = (Inr (Some q), 2)" "pg_NextToken q = None" "map sup_Email (page_entries q) = [''b@x.io'']"
    by (simp add: sample_pages_def page_entries_def suppression_of_def)
  have "pages_from sample_pages (Some ''b'') 1 [q] 2" using q(1,2) by (intro page_last) (simp_all add: last_page_def)
  then have "pages_from sample_pages None 0 [p, q] 2" using p(1,2) page_more [of sample_pages None 0 p 1 "[q]" 2] by (simp add: last_page_def)
  moreover have "sc_List sample_ses = Some sample_pages" by (simp add: sample_ses_def)
  ultimately have "ListSuppressions sample_ses 0 = Some (Inr (concat (map page_entries [p, q])), 2)"
    using ListSuppressions_complete [of sample_ses sample_pages 0 "concat (map page_entries [p, q])" 2] by blast
  with p(3) q(3) show ?thesis by simp
qed

section \<open>Middlewares and the mailer\<close>





text \<open>
  (C20) Observability changes nothing but the log: the outcome, the message, the envelope and
  the transport's world are those of the bare transport, and each send logs one span
  (started, described, ended) and one sample of each metric, errors included. A stack of the
  package's middlewares has the name of the transport below it and closes it.
\<close>

theorem observability_transparent:
  "tr_Send (Observability (beside_sys S) [WithTracer (Some log_tracer), WithMeter (Some log_meter), WithSpanName name] (beside t))
      msg env (v, l)
    = (case tr_Send t msg env v of (out, m, e, v') \<Rightarrow>
        (out, m, e, (v', l @ obs_log (nl_unicode (sys_lib S)) name (length l) (tr_String t) env out
           (time_Sub (now_nanos S v') (now_nanos S v)))))
   \<and> tr_String (Wrap u [Some (Observability S' opts), Some (BeforeSend L before), Some (AfterSend after)]) = tr_String u
   \<and> closeTransport (Wrap u [Some (Observability S' opts), Some (BeforeSend L before), Some (AfterSend after)]) = closeTransport u"
proof -
  obtain out m e v' where "tr_Send t msg env v = (out, m, e, v')" by (metis prod_cases4)
  then show ?thesis using shipped_stack.wrap_keeps [of u] by (simp add: obs_logged)
qed

text \<open>
  (C21) The OpenTelemetry middleware reports to the providers that were chosen: the last option
  that is not nil, then the positional argument, then the global provider. Building it asks
  each provider once for a tracer or meter and for the two instruments, and sends nothing. Each send exports
  one client span with every attribute the observability middleware sets, translated
  without loss, and one sample per instrument that could be created; an instrument that could
  not is skipped. Name and closing, the outcome, the message, the envelope and the transport's world
  stay those of the bare transport.
\<close>

theorem otel_exports:
  "(let i = resolve (tracer_options opts) tp gt; j = resolve (meter_options opts) mp gm;
        (mw, w) = export_New (beside_sys S) broken gt gm tp mp opts (v0, l0)
    in w = (v0, l0 @ built_log i j)
       \<and> tr_Send (mw (beside t)) msg env (v, l) =
         (case tr_Send t msg env v of (out, m, e, v') \<Rightarrow>
            (out, m, e, (v', l @ sent_log broken (nl_unicode (sys_lib S)) i j (length l) (tr_String t) env out
               (time_Sub (now_nanos S v') (now_nanos S v)))))
       \<and> tr_String (mw u) = tr_String u \<and> closeTransport (mw u) = closeTransport u)
   \<and> (toKeyValues as = toKeyValues bs \<longleftrightarrow> as = bs)"
proof -
  obtain mw w where new: "export_New (beside_sys S) broken gt gm tp mp opts (v0, l0) = (mw, w)" by (cases "export_New (beside_sys S) broken gt gm tp mp opts (v0, l0)")
  obtain out m e v' where sent: "tr_Send t msg env v = (out, m, e, v')" by (metis prod_cases4)
  have "decorator mw" using new unfolding otel_built [OF refl refl] using obs_mw.decorator_axioms by blast
  then show ?thesis
    using otel_Send [OF sent arg_cong [OF new, of fst, simplified] refl refl] new otel_built [OF refl refl, of "beside_sys S" broken gt gm tp mp opts v0 l0]
    by (simp add: sent Let_def decorator.keeps_name decorator.keeps_close)
qed

section \<open>The recording transport\<close>

text \<open>
  (C30) The recording transport holds exactly the messages of the sends that succeeded, in
  order, as its accessors and assertions report; an injected failure hits one send only,
  which records nothing.
\<close>

theorem recording_exact:
  "(case recording_sends S ms (NewRecordingTransport name) w of (rs, t, _) \<Rightarrow>
      Messages t = accepted rs
      \<and> (AssertEmailCount t k \<longleftrightarrow> k = int (length (accepted rs)))
      \<and> (AssertSent t \<longleftrightarrow> accepted rs \<noteq> [])
      \<and> Last t = (if accepted rs = [] then None else Some (last (accepted rs)))
      \<and> MessageAt t i = (if 0 \<le> i \<and> i < int (length (accepted rs)) then Some (accepted rs ! nat i) else None))
   \<and> recording_Send S (FailNext r (Some err)) msg env w = (Inl err, FailNext r None, w)"
proof -
  obtain rs t w' where s: "recording_sends S ms (NewRecordingTransport name) w = (rs, t, w')" by (metis prod_cases3)
  have "Messages t = accepted rs"
    using recording_sends_records [OF s] by (simp add: Messages_def NewRecordingTransport_def)
  then show ?thesis
    by (auto simp: s Messages_def AssertEmailCount_def AssertSent_def Count_def Last_def last_conv_nth MessageAt_def
        FailNext_def recording_Send_def)
qed

end
