(* ===== verification/Composite.thy ===== *)
theory Composite
  imports Registry_Props "HOL-Library.Sublist"
begin

text \<open>
  The objects behind a resolved DSN (\<^verbatim>\<open>registry.go\<close>, \<^verbatim>\<open>roundrobin.go\<close>, \<^verbatim>\<open>failover.go\<close>): the parser
  makes a pool object for every composite and a transport for every single DSN, and a pool
  holds references to its children. Objects live in a heap. An address is the name a tree of
  transports was given and the path in that tree; a call on an object reads its state from the
  heap and leaves the new state there. What the leaves are is a parameter.

  The contract \<open>heap_object\<close> says what a call on a tree of objects may do to the heap. Every tree
  of pools over leaves keeps it: a send reaches the heap only by calls on the leaves of that
  tree, and succeeds only with the result of one of them.
\<close>

section \<open>Objects\<close>

type_synonym address = "bytes \<times> nat list"

datatype 'l obj = LeafObj 'l | RoundRobinObj rr | FailoverObj failover

type_synonym 'l heap = "address \<rightharpoonup> 'l obj"

text \<open>
  The world of a call is the heap and what lies outside it. It is \<open>None\<close> after a panic, or when
  the call does not return; \<open>unwound\<close> stands for the result that is never seen then.
\<close>

type_synonym ('l, 'v) world = "('l heap \<times> 'v) option"

definition unwound :: goerr where
  "unwound = Errorf ''panic'' []"

lemma unwound_soft [simp]: "\<not> isTransportError unwound"
  by (simp add: unwound_def isTransportError_def)

text \<open>The methods of the leaves, the clock of the pools and their random source.\<close>

record ('l, 'v) runtime =
  rt_Send :: "'l \<Rightarrow> raw_message \<Rightarrow> envelope option \<Rightarrow> 'v \<Rightarrow> (outcome \<times> 'l \<times> 'v) option"
  rt_String :: "'l \<Rightarrow> bytes"
  rt_Close :: "'l \<Rightarrow> ('v \<Rightarrow> goerr option \<times> 'l \<times> 'v) option"
  rt_sys :: "('l, 'v) world sys"
  rt_pick :: "address \<Rightarrow> int \<Rightarrow> int option"

fun leaf_of :: "'l obj \<Rightarrow> 'l option" where
  "leaf_of (LeafObj x) = Some x"
| "leaf_of _ = None"

fun rr_of :: "'l obj \<Rightarrow> rr option" where
  "rr_of (RoundRobinObj t) = Some t"
| "rr_of _ = None"

fun failover_of :: "'l obj \<Rightarrow> failover option" where
  "failover_of (FailoverObj f) = Some f"
| "failover_of _ = None"

text \<open>A \<^verbatim>\<open>Send\<close> on the object at an address.\<close>

definition call ::
  "('l obj \<Rightarrow> 's option) \<Rightarrow> ('s \<Rightarrow> 'l obj) \<Rightarrow> address \<Rightarrow> ('s \<Rightarrow> ('l, 'v) world \<Rightarrow> (outcome \<times> 's \<times> ('l, 'v) world) option)
    \<Rightarrow> raw_message \<Rightarrow> envelope option \<Rightarrow> ('l, 'v) world \<Rightarrow> outcome \<times> raw_message \<times> envelope option \<times> ('l, 'v) world" where
  "call state object a run msg env w =
    (case Option.bind w (\<lambda>(h, v). Option.bind (h a) (\<lambda>obj. Option.bind (state obj) (\<lambda>s. run s w))) of
       Some (out, s', Some (h', v')) \<Rightarrow> (out, msg, env, Some (h'(a \<mapsto> object s'), v'))
     | _ \<Rightarrow> (Inl unwound, msg, env, None))"

definition child :: "address \<Rightarrow> nat \<Rightarrow> address" where
  "child a i = (fst a, snd a @ [i])"

definition leaf_object :: "('l, 'v) runtime \<Rightarrow> address \<Rightarrow> 'l \<Rightarrow> ('l, 'v) world transport" where
  "leaf_object R a x =
    \<lparr>tr_Send = (\<lambda>msg env. call leaf_of LeafObj a
        (\<lambda>x w. Option.bind w (\<lambda>(h, v). map_option (\<lambda>(out, x', v'). (out, x', Some (h, v'))) (rt_Send R x msg env v))) msg env),
     tr_String = rt_String R x,
     tr_Close = map_option (\<lambda>_ w.
        case w of
          Some (h, v) \<Rightarrow>
            (case Option.bind (h a) (\<lambda>obj. Option.bind (leaf_of obj) (rt_Close R)) of
               Some close \<Rightarrow> (case close v of (err, x', v') \<Rightarrow> (err, Some (h(a \<mapsto> LeafObj x'), v')))
             | None \<Rightarrow> (None, w))
        | None \<Rightarrow> (None, None)) (rt_Close R x)\<rparr>"

text \<open>The references that a resolved DSN stands for, and the state of the new objects.\<close>

definition new_rr :: "('l, 'v) runtime \<Rightarrow> address \<Rightarrow> ('l, 'v) world transport list \<Rightarrow> duration \<Rightarrow> rr" where
  "new_rr R a cs period = projr (NewRoundRobinTransport (rt_pick R a) cs period)"

definition new_failover :: "('l, 'v) runtime \<Rightarrow> address \<Rightarrow> ('l, 'v) world transport list \<Rightarrow> duration \<Rightarrow> failover" where
  "new_failover R a cs period = projr (NewFailoverTransport (rt_pick R a) cs period)"

definition roundrobin_object :: "('l, 'v) runtime \<Rightarrow> address \<Rightarrow> ('l, 'v) world transport list \<Rightarrow> duration \<Rightarrow> ('l, 'v) world transport" where
  "roundrobin_object R a cs period =
    \<lparr>tr_Send = (\<lambda>msg env. call rr_of RoundRobinObj a (roundrobin_Send (rt_sys R) cs msg env) msg env),
     tr_String = roundrobin_String (new_rr R a cs period) cs,
     tr_Close = Some (roundrobin_Close (new_rr R a cs period) cs)\<rparr>"

definition failover_object :: "('l, 'v) runtime \<Rightarrow> address \<Rightarrow> ('l, 'v) world transport list \<Rightarrow> duration \<Rightarrow> ('l, 'v) world transport" where
  "failover_object R a cs period =
    \<lparr>tr_Send = (\<lambda>msg env. call failover_of FailoverObj a (failover_Send (rt_sys R) cs msg env) msg env),
     tr_String = failover_String (new_failover R a cs period) cs,
     tr_Close = Some (failover_Close (new_failover R a cs period) cs)\<rparr>"

lemma size_nth [termination_simp]: "i < length ts \<Longrightarrow> size (ts ! i) < Suc (size_list size ts)"
  unfolding less_Suc_eq_le by (rule size_list_estimation' [OF nth_mem order_refl])

fun transport_of :: "('l, 'v) runtime \<Rightarrow> address \<Rightarrow> 'l dtree \<Rightarrow> ('l, 'v) world transport" where
  "transport_of R a (Single x) = leaf_object R a x"
| "transport_of R a (RoundRobin ts p) =
    roundrobin_object R a (map (\<lambda>i. transport_of R (child a i) (ts ! i)) [0..<length ts]) p"
| "transport_of R a (Failover ts p) =
    failover_object R a (map (\<lambda>i. transport_of R (child a i) (ts ! i)) [0..<length ts]) p"

definition transports_of :: "('l, 'v) runtime \<Rightarrow> address \<Rightarrow> 'l dtree list \<Rightarrow> ('l, 'v) world transport list" where
  "transports_of R a ts = map (\<lambda>i. transport_of R (child a i) (ts ! i)) [0..<length ts]"

fun object_at :: "('l, 'v) runtime \<Rightarrow> address \<Rightarrow> 'l dtree \<Rightarrow> nat list \<Rightarrow> 'l obj option" where
  "object_at R a (Single x) q = (if q = [] then Some (LeafObj x) else None)"
| "object_at R a (RoundRobin ts p) q =
    (case q of
       [] \<Rightarrow> Some (RoundRobinObj (new_rr R a (transports_of R a ts) p))
     | i # q \<Rightarrow> if i < length ts then object_at R (child a i) (ts ! i) q else None)"
| "object_at R a (Failover ts p) q =
    (case q of
       [] \<Rightarrow> Some (FailoverObj (new_failover R a (transports_of R a ts) p))
     | i # q \<Rightarrow> if i < length ts then object_at R (child a i) (ts ! i) q else None)"

text \<open>The heap after trees were made under their names.\<close>

definition objects :: "('l, 'v) runtime \<Rightarrow> (bytes \<times> 'l dtree) list \<Rightarrow> 'l heap" where
  "objects R trees = (\<lambda>(name, q). case map_of trees name of Some t \<Rightarrow> object_at R (name, []) t q | None \<Rightarrow> None)"

definition router_transport :: "'w router \<Rightarrow> 'w transport" where
  "router_transport t = \<lparr>tr_Send = router_Send t, tr_String = router_String t, tr_Close = Some (router_Close t)\<rparr>"

section \<open>Addresses\<close>

definition below :: "address \<Rightarrow> address \<Rightarrow> bool" where
  "below a b \<longleftrightarrow> fst b = fst a \<and> prefix (snd a) (snd b)"

lemma below_refl [simp]: "below a a"
  by (simp add: below_def)

lemma below_child: "below (child a i) b \<Longrightarrow> below a b \<and> b \<noteq> a"
  by (auto simp: below_def child_def prefix_def)

lemma below_children: "below (child a i) b \<Longrightarrow> below (child a j) b \<Longrightarrow> i = j"
  by (auto simp: below_def child_def prefix_def)

section \<open>What a call may do\<close>

text \<open>The heap after any number of calls on leaves and changes to pools.\<close>

inductive touches :: "('l, 'v) runtime \<Rightarrow> 'l heap \<times> 'v \<Rightarrow> 'l heap \<times> 'v \<Rightarrow> bool" for R where
  touch_none: "touches R hv hv"
| touch_send: "touches R hv (h, v) \<Longrightarrow> h a = Some (LeafObj x) \<Longrightarrow> rt_Send R x msg env v = Some (out, x', v') \<Longrightarrow>
    touches R hv (h(a \<mapsto> LeafObj x'), v')"
| touch_close: "touches R hv (h, v) \<Longrightarrow> h a = Some (LeafObj x) \<Longrightarrow> rt_Close R x = Some close \<Longrightarrow> close v = (err, x', v') \<Longrightarrow>
    touches R hv (h(a \<mapsto> LeafObj x'), v')"
| touch_pool: "touches R hv (h, v) \<Longrightarrow> h a = Some obj \<Longrightarrow> leaf_of obj = None \<Longrightarrow> leaf_of obj' = None \<Longrightarrow>
    touches R hv (h(a \<mapsto> obj'), v)"

lemma touches_trans: "touches R hv' hv'' \<Longrightarrow> touches R hv hv' \<Longrightarrow> touches R hv hv''"
  by (induction rule: touches.induct) (auto intro: touches.intros)

text \<open>A leaf under \<open>a\<close> accepted the message with the result \<open>r\<close>, and was not called since.\<close>

definition accepted_by ::
  "('l, 'v) runtime \<Rightarrow> raw_message \<Rightarrow> envelope option \<Rightarrow> address \<Rightarrow> sent option \<Rightarrow> 'l heap \<times> 'v \<Rightarrow> 'l heap \<times> 'v \<Rightarrow> bool" where
  "accepted_by R msg env a r hv hv' \<longleftrightarrow>
    (\<exists>b x x' h v. below a b \<and> touches R hv (h, v) \<and> h b = Some (LeafObj x)
       \<and> rt_Send R x msg env v = Some (Inr r, x', snd hv') \<and> fst hv' b = Some (LeafObj x'))"

definition frame :: "address \<Rightarrow> 'l heap \<Rightarrow> 'l heap \<Rightarrow> bool" where
  "frame a h h' \<longleftrightarrow> (\<forall>b. \<not> below a b \<longrightarrow> h' b = h b)"

locale heap_object =
  fixes R :: "('l, 'v) runtime" and a :: address and ok :: "'l heap \<Rightarrow> bool" and tr :: "('l, 'v) world transport"
  assumes ok_local: "ok h \<Longrightarrow> (\<And>b. below a b \<Longrightarrow> h' b = h b) \<Longrightarrow> ok h'"
    and send_ok: "ok (fst hv) \<Longrightarrow> tr_Send tr msg env (Some hv) = (out, m, e, Some hv') \<Longrightarrow>
      ok (fst hv') \<and> frame a (fst hv) (fst hv') \<and> touches R hv hv' \<and> (\<forall>r. out = Inr r \<longrightarrow> accepted_by R msg env a r hv hv')"
    and send_lost: "tr_Send tr msg env (Some hv) = (out, m, e, None) \<Longrightarrow> out = Inl unwound"
    and close_ok: "ok (fst hv) \<Longrightarrow> tr_Close tr = Some close \<Longrightarrow>
      \<exists>err hv'. close (Some hv) = (err, Some hv') \<and> ok (fst hv') \<and> frame a (fst hv) (fst hv') \<and> touches R hv hv'"

text \<open>Any use of a reference by its owner, as long as no call is lost.\<close>

inductive used :: "('l, 'v) world transport \<Rightarrow> 'l heap \<times> 'v \<Rightarrow> 'l heap \<times> 'v \<Rightarrow> bool" for tr where
  used_none: "used tr hv hv"
| used_send: "used tr hv hv' \<Longrightarrow> tr_Send tr msg env (Some hv') = (out, m, e, Some hv'') \<Longrightarrow> used tr hv hv''"
| used_close: "used tr hv hv' \<Longrightarrow> tr_Close tr = Some close \<Longrightarrow> close (Some hv') = (err, Some hv'') \<Longrightarrow> used tr hv hv''"

context heap_object
begin

lemma used_ok: "used tr hv hv' \<Longrightarrow> ok (fst hv) \<Longrightarrow> ok (fst hv') \<and> touches R hv hv'"
proof (induction rule: used.induct)
  case (used_send hv hv' msg env out m e hv'')
  then show ?case using send_ok [of hv' msg env out m e hv''] touches_trans by blast
next
  case (used_close hv hv' close err hv'')
  then show ?case using close_ok [of hv' close] touches_trans by fastforce
qed (simp add: touch_none)

end

section \<open>Several objects\<close>

lemma accepted_trans: "accepted_by R msg env a r hv' hv'' \<Longrightarrow> touches R hv hv' \<Longrightarrow> accepted_by R msg env a r hv hv''"
  unfolding accepted_by_def using touches_trans by blast

lemma accepted_child: "accepted_by R msg env (child a i) r hv hv' \<Longrightarrow> accepted_by R msg env a r hv hv'"
  unfolding accepted_by_def using below_child by blast

text \<open>What calls on objects at the addresses \<open>ad 0\<close>, \<open>ad 1\<close>, ... may do to the heap.\<close>

definition among :: "('l, 'v) runtime \<Rightarrow> (nat \<Rightarrow> address) \<Rightarrow> (nat \<Rightarrow> 'l heap \<Rightarrow> bool) \<Rightarrow> nat \<Rightarrow> 'l heap \<times> 'v \<Rightarrow> 'l heap \<times> 'v \<Rightarrow> bool" where
  "among R ad oks n hv hv' \<longleftrightarrow>
    ((\<forall>i<n. oks i (fst hv)) \<longrightarrow> (\<forall>i<n. oks i (fst hv'))) \<and> touches R hv hv'
    \<and> (\<forall>b. (\<forall>i<n. \<not> below (ad i) b) \<longrightarrow> fst hv' b = fst hv b)"

lemma among_refl: "among R ad oks n hv hv"
  by (simp add: among_def touch_none)

lemma among_trans: "among R ad oks n hv hv' \<Longrightarrow> among R ad oks n hv' hv'' \<Longrightarrow> among R ad oks n hv hv''"
  by (auto simp: among_def intro: touches_trans)

lemma among_children: "among R (child a) oks n hv hv' \<Longrightarrow> frame a (fst hv) (fst hv') \<and> fst hv' a = fst hv a"
  unfolding among_def frame_def using below_child by blast

text \<open>Objects that do not share a part of the heap.\<close>

locale heap_objects =
  fixes R :: "('l, 'v) runtime" and ad :: "nat \<Rightarrow> address" and oks :: "nat \<Rightarrow> 'l heap \<Rightarrow> bool" and cs :: "('l, 'v) world transport list"
  assumes member: "i < length cs \<Longrightarrow> heap_object R (ad i) (oks i) (cs ! i)"
    and apart: "i < length cs \<Longrightarrow> j < length cs \<Longrightarrow> below (ad i) b \<Longrightarrow> below (ad j) b \<Longrightarrow> i = j"
begin

lemma one_of:
  assumes "i < length cs" "oks i (fst hv')" "frame (ad i) (fst hv) (fst hv')" "touches R hv hv'"
  shows "among R ad oks (length cs) hv hv'"
proof -
  have "oks j (fst hv')" if j: "j < length cs" "oks j (fst hv)" for j
  proof (cases "j = i")
    case False
    have "fst hv' b = fst hv b" if "below (ad j) b" for b
      using that apart [OF j(1) assms(1)] False assms(3) unfolding frame_def by blast
    then show ?thesis by (rule heap_object.ok_local [OF member [OF j(1)] j(2)])
  qed (use assms in simp)
  with assms show ?thesis by (auto simp: among_def frame_def)
qed

lemma send_one:
  assumes "i < length cs" "\<forall>j<length cs. oks j (fst hv)" "tr_Send (cs ! i) msg env (Some hv) = (out, m, e, Some hv')"
  shows "among R ad oks (length cs) hv hv' \<and> (\<forall>r. out = Inr r \<longrightarrow> accepted_by R msg env (ad i) r hv hv')"
  using heap_object.send_ok [OF member [OF assms(1)] _ assms(3)] assms(1,2) one_of by blast

lemma close_some:
  "\<forall>i<length cs. oks i (fst hv) \<Longrightarrow> set ts \<subseteq> set cs \<Longrightarrow>
    \<exists>errs hv'. close_each ts (Some hv) = (errs, Some hv') \<and> among R ad oks (length cs) hv hv'"
proof (induction ts arbitrary: hv)
  case (Cons t ts)
  then obtain j where j: "j < length cs" "t = cs ! j" "oks j (fst hv)" by (auto simp: in_set_conv_nth)
  show ?case
  proof (cases "tr_Close t")
    case (Some close)
    from heap_object.close_ok [OF member [OF j(1)] j(3)] Some j(2) obtain err hv1 where c:
      "close (Some hv) = (err, Some hv1)" "oks j (fst hv1)" "frame (ad j) (fst hv) (fst hv1)" "touches R hv hv1" by blast
    have u: "among R ad oks (length cs) hv hv1" by (rule one_of [OF j(1) c(2-4)])
    then have "\<forall>i<length cs. oks i (fst hv1)" using Cons.prems(1) by (simp add: among_def)
    from Cons.IH [OF this] Cons.prems(2) obtain errs hv' where
      "close_each ts (Some hv1) = (errs, Some hv')" "among R ad oks (length cs) hv1 hv'" by auto
    with Some c(1) among_trans [OF u] show ?thesis by auto
  qed (use Cons in simp)
qed (simp add: among_refl)

lemma closeAll_some:
  assumes "\<forall>i<length cs. oks i (fst hv)" "set ts \<subseteq> set cs"
  shows "\<exists>err hv'. closeAll ts (Some hv) = (err, Some hv') \<and> among R ad oks (length cs) hv hv'"
  using close_some [OF assms] by (auto simp: closeAll_def)

text \<open>The loop of a pool over them.\<close>

lemma dispatch_some:
  assumes "dispatch_run S nxt mark cs msg env agg s w is out s' w'"
    and sel: "pool_selector (int (length cs)) period good dead nxt mark"
    and "w = Some hv" "w' = Some hv'" "good s" "\<forall>i<length cs. oks i (fst hv)"
  shows "good s' \<and> among R ad oks (length cs) hv hv' \<and> (\<forall>r. out = Inr r \<longrightarrow> (\<exists>i<length cs. accepted_by R msg env (ad i) r hv hv'))"
  using assms(1,3-)
proof (induction arbitrary: hv rule: dispatch_run.induct)
  case (exhausted w s i s' agg)
  then show ?case using pool_selector.next_inv [OF sel exhausted.prems(3) exhausted.hyps(1)] by (auto simp: among_refl split: option.splits)
next
  case (delivered w s i s' r m e w' agg)
  have i: "good s'" "nat i < length cs" using pool_selector.next_inv [OF sel delivered.prems(3) delivered.hyps(1)] delivered.hyps(2) by auto
  have "tr_Send (cs ! nat i) msg env (Some hv) = (Inr r, m, e, Some hv')" using delivered by simp
  from send_one [OF i(2) delivered.prems(4) this] i show ?case by blast
next
  case (refused w s i s' err m e w' agg)
  have i: "good s'" "nat i < length cs" using pool_selector.next_inv [OF sel refused.prems(3) refused.hyps(1)] refused.hyps(2) by auto
  have "tr_Send (cs ! nat i) msg env (Some hv) = (Inl err, m, e, Some hv')" using refused by simp
  from send_one [OF i(2) refused.prems(4) this] i show ?case by blast
next
  case (failed w s i s1 err m e w1 agg "is" out s' w')
  have i: "good s1" "0 \<le> i" "i < int (length cs)" using pool_selector.next_inv [OF sel failed.prems(3) failed.hyps(1)] failed.hyps(2) by auto
  then have n: "nat i < length cs" by simp
  obtain hv1 where w1: "w1 = Some hv1"
    using failed.hyps(3,4) failed.prems(1) heap_object.send_lost [OF member [OF n]] by (cases w1) fastforce+
  then have "tr_Send (cs ! nat i) msg env (Some hv) = (Inl err, m, e, Some hv1)" using failed by simp
  from send_one [OF n failed.prems(4) this] have u: "among R ad oks (length cs) hv hv1" by blast
  then have "\<forall>i<length cs. oks i (fst hv1)" "touches R hv hv1" using failed.prems(4) by (simp_all add: among_def)
  with failed.IH [OF w1 failed.prems(2) pool_selector.mark_inv [OF sel i] this(1)] among_trans [OF u] accepted_trans
  show ?case by blast
qed

end

section \<open>Pools of objects\<close>

text \<open>A pool object over such children is such an object.\<close>

definition pool_ok :: "('l obj \<Rightarrow> 's option) \<Rightarrow> ('s \<Rightarrow> bool) \<Rightarrow> address \<Rightarrow> (nat \<Rightarrow> 'l heap \<Rightarrow> bool) \<Rightarrow> nat \<Rightarrow> 'l heap \<Rightarrow> bool" where
  "pool_ok state good a oks n h \<longleftrightarrow> (\<exists>s. Option.bind (h a) state = Some s \<and> good s) \<and> (\<forall>i<n. oks i h)"

lemma pool_object:
  fixes R :: "('l, 'v) runtime"
  assumes sel: "pool_selector (int (length cs)) period good dead nxt mark"
    and children: "heap_objects R (child a) oks cs"
    and state: "\<And>s. state (object s) = Some s" "\<And>s. leaf_of (object s) = None" "\<And>obj s. state obj = Some s \<Longrightarrow> leaf_of obj = None"
    and send: "\<And>msg env. tr_Send tr msg env = call state object a (dispatch S nxt mark cs msg env None) msg env"
    and close: "tr_Close tr = Some (closeAll cs)"
  shows "heap_object R a (pool_ok state good a oks (length cs)) tr"
proof
  fix h h' :: "'l heap"
  assume ok: "pool_ok state good a oks (length cs) h" and eq: "\<And>b. below a b \<Longrightarrow> h' b = h b"
  have "oks i h'" if "i < length cs" for i
    using heap_object.ok_local [OF heap_objects.member [OF children that]] ok that eq below_child unfolding pool_ok_def by metis
  with ok eq [of a] show "pool_ok state good a oks (length cs) h'" by (simp add: pool_ok_def)
next
  fix hv hv' :: "'l heap \<times> 'v" and msg env out m e
  assume ok: "pool_ok state good a oks (length cs) (fst hv)" and call: "tr_Send tr msg env (Some hv) = (out, m, e, Some hv')"
  obtain s where s: "Option.bind (fst hv a) state = Some s" "good s" "\<forall>i<length cs. oks i (fst hv)"
    using ok by (auto simp: pool_ok_def)
  obtain s' hv1 where d: "dispatch S nxt mark cs msg env None s (Some hv) = Some (out, s', Some hv1)"
    "hv' = ((fst hv1)(a \<mapsto> object s'), snd hv1)"
    using call s(1) unfolding send call_def
    by (auto simp: Option.bind_eq_Some_conv split: option.splits prod.splits)
  obtain "is" where "dispatch_run S nxt mark cs msg env None s (Some hv) is out s' (Some hv1)"
    using d(1) unfolding dispatch_iff by blast
  from heap_objects.dispatch_some [OF children this sel refl refl s(2,3)]
  have r: "good s'" "among R (child a) oks (length cs) hv hv1" "\<forall>r. out = Inr r \<longrightarrow> accepted_by R msg env a r hv hv1"
    using accepted_child by blast+
  have fr: "frame a (fst hv) (fst hv1)" "fst hv1 a = fst hv a" "touches R hv hv1"
    using among_children [OF r(2)] r(2) by (simp_all add: among_def)
  obtain obj where obj: "fst hv a = Some obj" "state obj = Some s" using s(1) by (auto simp: Option.bind_eq_Some_conv)
  have oks: "oks i (fst hv')" if "i < length cs" for i
  proof (rule heap_object.ok_local [OF heap_objects.member [OF children that]])
    show "oks i (fst hv1)" using r(2) s(3) that by (simp add: among_def)
    show "fst hv' b = fst hv1 b" if "below (child a i) b" for b using below_child [OF that] by (simp add: d(2))
  qed
  have "touches R hv hv'"
    using touch_pool [of R hv "fst hv1" "snd hv1" a obj "object s'"] fr obj state by (simp add: d(2))
  moreover have "frame a (fst hv) (fst hv')" using fr(1) by (auto simp: frame_def d(2))
  moreover have "accepted_by R msg env a res hv hv'" if "out = Inr res" for res
  proof -
    from r(3) that obtain b x x' h v where b: "below a b" "touches R hv (h, v)" "h b = Some (LeafObj x)"
      "rt_Send R x msg env v = Some (Inr res, x', snd hv1)" "fst hv1 b = Some (LeafObj x')" unfolding accepted_by_def by blast
    moreover have "b \<noteq> a" using b(5) fr(2) obj state(3) [OF obj(2)] by auto
    ultimately show ?thesis unfolding accepted_by_def d(2) by fastforce
  qed
  ultimately show "pool_ok state good a oks (length cs) (fst hv') \<and> frame a (fst hv) (fst hv') \<and> touches R hv hv'
      \<and> (\<forall>r. out = Inr r \<longrightarrow> accepted_by R msg env a r hv hv')"
    using oks r(1) state(1) by (simp add: pool_ok_def d(2))
next
  fix hv :: "'l heap \<times> 'v" and msg env out m e
  assume "tr_Send tr msg env (Some hv) = (out, m, e, None)"
  then show "out = Inl unwound" unfolding send call_def by (auto split: option.splits prod.splits)
next
  fix hv :: "'l heap \<times> 'v" and c
  assume ok: "pool_ok state good a oks (length cs) (fst hv)" and "tr_Close tr = Some c"
  then have c: "c = closeAll cs" "\<forall>i<length cs. oks i (fst hv)" using close by (simp_all add: pool_ok_def)
  from heap_objects.closeAll_some [OF children c(2) subset_refl] obtain err hv' where
    e: "closeAll cs (Some hv) = (err, Some hv')" "among R (child a) oks (length cs) hv hv'" by blast
  then have "pool_ok state good a oks (length cs) (fst hv')"
    using ok among_children [OF e(2)] by (simp add: pool_ok_def among_def)
  with e among_children [OF e(2)] show "\<exists>err hv'. c (Some hv) = (err, Some hv') \<and> pool_ok state good a oks (length cs) (fst hv')
      \<and> frame a (fst hv) (fst hv') \<and> touches R hv hv'"
    by (auto simp: c(1) among_def)
qed

section \<open>Trees\<close>

text \<open>The heap holds the objects of the tree, each pool with its invariant.\<close>

fun in_heap :: "'l dtree \<Rightarrow> address \<Rightarrow> 'l heap \<Rightarrow> bool" where
  "in_heap (Single x) a h = (\<exists>y. h a = Some (LeafObj y))"
| "in_heap (RoundRobin ts p) a h =
    ((\<exists>t. Option.bind (h a) rr_of = Some t \<and> rr_inv (int (length ts)) p t) \<and> (\<forall>i<length ts. in_heap (ts ! i) (child a i) h))"
| "in_heap (Failover ts p) a h =
    ((\<exists>f. Option.bind (h a) failover_of = Some f \<and> fo_inv (int (length ts)) p f) \<and> (\<forall>i<length ts. in_heap (ts ! i) (child a i) h))"

lemma in_heap_pool:
  "in_heap (RoundRobin ts p) a = pool_ok rr_of (rr_inv (int (length ts)) p) a (\<lambda>i. in_heap (ts ! i) (child a i)) (length ts)"
  "in_heap (Failover ts p) a = pool_ok failover_of (fo_inv (int (length ts)) p) a (\<lambda>i. in_heap (ts ! i) (child a i)) (length ts)"
  by (simp_all add: pool_ok_def fun_eq_iff)

lemma leaf_heap_object:
  fixes R :: "('l, 'v) runtime"
  shows "heap_object R a (in_heap (Single x) a) (leaf_object R a x)"
proof
  fix hv hv' :: "'l heap \<times> 'v" and msg env out m e
  assume ok: "in_heap (Single x) a (fst hv)" and send: "tr_Send (leaf_object R a x) msg env (Some hv) = (out, m, e, Some hv')"
  obtain y where y: "fst hv a = Some (LeafObj y)" using ok by auto
  obtain y' v' where r: "rt_Send R y msg env (snd hv) = Some (out, y', v')" "hv' = ((fst hv)(a \<mapsto> LeafObj y'), v')"
    using send y by (auto simp: leaf_object_def call_def split_beta split: option.splits prod.splits)
  have "touches R hv hv'" using touch_send [of R hv "fst hv" "snd hv", OF _ y r(1)] by (simp add: r(2) touch_none)
  moreover have "accepted_by R msg env a res hv hv'" if "out = Inr res" for res
    unfolding accepted_by_def using r y that touch_none [of R hv]
    by (intro exI [of _ a] exI [of _ y] exI [of _ y'] exI [of _ "fst hv"] exI [of _ "snd hv"]) simp
  ultimately show "in_heap (Single x) a (fst hv') \<and> frame a (fst hv) (fst hv') \<and> touches R hv hv'
      \<and> (\<forall>r. out = Inr r \<longrightarrow> accepted_by R msg env a r hv hv')"
    by (auto simp: frame_def r(2))
next
  fix hv :: "'l heap \<times> 'v" and msg env out m e
  assume "tr_Send (leaf_object R a x) msg env (Some hv) = (out, m, e, None)"
  then show "out = Inl unwound" by (auto simp: leaf_object_def call_def split: option.splits prod.splits)
next
  fix hv :: "'l heap \<times> 'v" and close
  assume ok: "in_heap (Single x) a (fst hv)" and c: "tr_Close (leaf_object R a x) = Some close"
  obtain y where y: "fst hv a = Some (LeafObj y)" using ok by auto
  show "\<exists>err hv'. close (Some hv) = (err, Some hv') \<and> in_heap (Single x) a (fst hv') \<and> frame a (fst hv) (fst hv') \<and> touches R hv hv'"
  proof (cases "rt_Close R y")
    case None
    then have "close (Some hv) = (None, Some hv)" using c y by (cases hv) (auto simp: leaf_object_def)
    with ok touch_none [of R hv] show ?thesis by (auto simp: frame_def)
  next
    case (Some cl)
    obtain err y' v' where e: "cl (snd hv) = (err, y', v')" by (cases "cl (snd hv)") auto
    have "touches R hv ((fst hv)(a \<mapsto> LeafObj y'), v')"
      using touch_close [of R hv "fst hv" "snd hv", OF _ y Some e] by (simp add: touch_none)
    then show ?thesis using c y e Some by (auto simp: leaf_object_def frame_def split_beta)
  qed
qed simp

lemma pool_Send_eq:
  "roundrobin_Send S cs msg env = dispatch S nextTransportLocked (markDead cs) cs msg env None"
  "failover_Send S cs msg env = dispatch S failover_nextTransport (failover_markDead cs) cs msg env None"
  by (intro ext; simp add: roundrobin_Send_def failover_Send_def)+

lemma child_objects:
  assumes "\<And>i. i < length ts \<Longrightarrow> heap_object R (child a i) (in_heap (ts ! i) (child a i)) (transport_of R (child a i) (ts ! i))"
  shows "heap_objects R (child a) (\<lambda>i. in_heap (ts ! i) (child a i)) (transports_of R a ts)"
proof (rule heap_objects.intro)
  show "heap_object R (child a i) (in_heap (ts ! i) (child a i)) (transports_of R a ts ! i)" if "i < length (transports_of R a ts)" for i
    using assms that by (simp add: transports_of_def)
qed (rule below_children)

lemma tree_heap_object: "heap_object R a (in_heap t a) (transport_of R a t)"
proof (induction R a t rule: transport_of.induct)
  case (1 R a x)
  show ?case unfolding transport_of.simps by (rule leaf_heap_object)
next
  case (2 R a ts p)
  let ?cs = "transports_of R a ts"
  have len: "length ?cs = length ts" by (simp add: transports_of_def)
  have "heap_object R a (pool_ok rr_of (rr_inv (int (length ts)) p) a (\<lambda>i. in_heap (ts ! i) (child a i)) (length ?cs)) (roundrobin_object R a ?cs p)"
  proof (rule pool_object [where object = RoundRobinObj and S = "rt_sys R"])
    show "pool_selector (int (length ?cs)) p (rr_inv (int (length ts)) p) rr_dead nextTransportLocked (markDead ?cs)"
      unfolding len by (rule rr_select.pool_selector_axioms)
    show "heap_objects R (child a) (\<lambda>i. in_heap (ts ! i) (child a i)) ?cs" using 2 by (intro child_objects) simp
    show "leaf_of obj = None" if "rr_of obj = Some s" for obj :: "'a obj" and s using that by (cases obj) auto
  qed (simp_all add: roundrobin_object_def pool_Send_eq roundrobin_Close_def fun_eq_iff)
  then show ?case by (simp add: in_heap_pool len transports_of_def)
next
  case (3 R a ts p)
  let ?cs = "transports_of R a ts"
  have len: "length ?cs = length ts" by (simp add: transports_of_def)
  have "heap_object R a (pool_ok failover_of (fo_inv (int (length ts)) p) a (\<lambda>i. in_heap (ts ! i) (child a i)) (length ?cs)) (failover_object R a ?cs p)"
  proof (rule pool_object [where object = FailoverObj and S = "rt_sys R"])
    show "pool_selector (int (length ?cs)) p (fo_inv (int (length ts)) p) (rr_dead \<circ> fo_rr) failover_nextTransport (failover_markDead ?cs)"
      unfolding len by (rule fo_select.pool_selector_axioms)
    show "heap_objects R (child a) (\<lambda>i. in_heap (ts ! i) (child a i)) ?cs" using 3 by (intro child_objects) simp
    show "leaf_of obj = None" if "failover_of obj = Some s" for obj :: "'a obj" and s using that by (cases obj) auto
  qed (simp_all add: failover_object_def pool_Send_eq failover_Close_def roundrobin_Close_def fun_eq_iff)
  then show ?case by (simp add: in_heap_pool len transports_of_def)
qed

interpretation tree: heap_object R a "in_heap t a" "transport_of R a t"
  for R a t
  by (rule tree_heap_object)

interpretation children: heap_objects R "child a" "\<lambda>i. in_heap (ts ! i) (child a i)" "transports_of R a ts"
  for R a ts
  by (rule child_objects) (rule tree_heap_object)

section \<open>New trees\<close>

text \<open>Every pool has a child and a positive retry period, as the parser makes them.\<close>

fun proper :: "'l dtree \<Rightarrow> bool" where
  "proper (Single x) = True"
| "proper (RoundRobin ts p) = (ts \<noteq> [] \<and> 0 < p \<and> list_all proper ts)"
| "proper (Failover ts p) = (ts \<noteq> [] \<and> 0 < p \<and> list_all proper ts)"

lemma new_rr_inv:
  assumes "cs \<noteq> []" "0 < p"
  shows "rr_inv (int (length cs)) p (new_rr R a cs p)"
proof -
  obtain t where "NewRoundRobinTransport (rt_pick R a) cs p = Inr t" using assms(1) by (simp add: NewRoundRobinTransport_def)
  with NewRoundRobin_inv [OF this] assms(2) show ?thesis by (simp add: new_rr_def)
qed

lemma new_failover_inv:
  assumes "cs \<noteq> []" "0 < p"
  shows "fo_inv (int (length cs)) p (new_failover R a cs p)"
proof -
  obtain f where "NewFailoverTransport (rt_pick R a) cs p = Inr f"
    using assms(1) by (simp add: NewFailoverTransport_def NewRoundRobinTransport_def)
  with NewFailover_inv [OF this] assms(2) show ?thesis by (simp add: new_failover_def)
qed

lemma object_at_ok:
  assumes "proper t" "\<And>q. h (fst a, snd a @ q) = object_at R a t q"
  shows "in_heap t a h"
  using assms
proof (induction R a t rule: transport_of.induct)
  case (1 R a x)
  then show ?case using 1(2) [of "[]"] by simp
next
  case (2 R a ts p)
  have "in_heap (ts ! i) (child a i) h" if "i < length ts" for i
    using 2(1) [of i] 2(2) 2(3) [of "i # _"] that by (simp add: child_def list_all_length)
  moreover have "h a = Some (RoundRobinObj (new_rr R a (transports_of R a ts) p))" using 2(3) [of "[]"] by simp
  ultimately show ?case using 2(2) new_rr_inv [of "transports_of R a ts" p R a] by (simp add: transports_of_def)
next
  case (3 R a ts p)
  have "in_heap (ts ! i) (child a i) h" if "i < length ts" for i
    using 3(1) [of i] 3(2) 3(3) [of "i # _"] that by (simp add: child_def list_all_length)
  moreover have "h a = Some (FailoverObj (new_failover R a (transports_of R a ts) p))" using 3(3) [of "[]"] by simp
  ultimately show ?case using 3(2) new_failover_inv [of "transports_of R a ts" p R a] by (simp add: transports_of_def)
qed

lemma objects_ok: "map_of trees name = Some t \<Longrightarrow> proper t \<Longrightarrow> in_heap t (name, []) (objects R trees)"
  by (rule object_at_ok [where R = R]) (simp_all add: objects_def)

text \<open>The leaves of a new tree are the leaves of its DSN.\<close>

lemma object_at_leaf: "object_at R a t q = Some (LeafObj x) \<Longrightarrow> x \<in> set_dtree t"
proof (induction R a t q rule: object_at.induct)
  case (1 R a x q)
  then show ?case by (simp split: if_splits)
next
  case (2 R a ts p q)
  then show ?case by (cases q) (auto split: if_splits)
next
  case (3 R a ts p q)
  then show ?case by (cases q) (auto split: if_splits)
qed

lemma objects_leaf: "objects R trees b = Some (LeafObj x) \<Longrightarrow> \<exists>name t. (name, t) \<in> set trees \<and> x \<in> set_dtree t"
  by (auto simp: objects_def split: prod.splits option.splits dest: object_at_leaf map_of_SomeD)

section \<open>The trees the parser makes\<close>

text \<open>Every leaf of a parsed tree was resolved from a part of the text.\<close>

definition resolved_leaves :: "(bytes \<Rightarrow> goerr + 'a) \<Rightarrow> bytes \<Rightarrow> 'a dtree \<Rightarrow> bool" where
  "resolved_leaves resolve s t \<longleftrightarrow> (\<forall>x \<in> set_dtree t. \<exists>part. sublist part s \<and> resolve part = Inr x)"

lemma resolved_leaves_mono: "resolved_leaves resolve s t \<Longrightarrow> sublist s s' \<Longrightarrow> resolved_leaves resolve s' t"
  unfolding resolved_leaves_def by (meson sublist_order.order.trans)

lemma resolved_leaves_group:
  "resolved_leaves resolve s (Failover ts p) \<longleftrightarrow> list_all (resolved_leaves resolve s) ts"
  "resolved_leaves resolve s (RoundRobin ts p) \<longleftrightarrow> list_all (resolved_leaves resolve s) ts"
  by (auto simp: resolved_leaves_def list_all_iff)

lemma finish_group_suffix: "finish_group g args s = Inr (t, rest) \<Longrightarrow> (\<exists>p. t = g args p) \<and> suffix rest s"
  by (auto simp: finish_group_def bindE_eq_Inr parseRetryPeriod_def Let_def suffix_drop split: if_splits option.splits)

lemma parse_single_leaves: "parse_single resolve s = Inr (t, rest) \<Longrightarrow> resolved_leaves resolve s t \<and> suffix rest s"
  by (auto simp: parse_single_def bindE_eq_Inr resolved_leaves_def suffix_drop prefix_imp_sublist take_is_prefix split: option.splits)

lemma parseDSN_group:
  assumes "parseDSN resolve (Suc k) s = Some (Inr (t, rest))"
  obtains n g args r where "parse_args resolve k (drop n s) = Some (Inr (args, r))" "finish_group g args r = Inr (t, rest)"
    "g = RoundRobin \<or> g = Failover" "n = 9 \<and> HasPrefix s ''failover('' \<and> matchBalancedParen (drop 8 s)
      \<or> n = 11 \<and> \<not> HasPrefix s ''failover('' \<and> HasPrefix s ''roundrobin('' \<and> matchBalancedParen (drop 10 s)"
  | "parse_single resolve s = Inr (t, rest)"
  using assms by (auto split: if_splits option.splits sum.splits)

lemma parse_leaves:
  "parseDSN resolve k s = Some (Inr (t, rest)) \<Longrightarrow> resolved_leaves resolve s t \<and> suffix rest s"
  "parse_args resolve k s = Some (Inr (ts, rest)) \<Longrightarrow> list_all (resolved_leaves resolve s) ts \<and> suffix rest s"
proof (induction resolve k s and resolve k s arbitrary: t rest and ts rest rule: parseDSN_parse_args.induct)
  case (2 resolve k s)
  from 2(3) show ?case
  proof (cases rule: parseDSN_group)
    case g: (1 n g args r)
    have "list_all (resolved_leaves resolve (drop n s)) args \<and> suffix r (drop n s)" using 2(1,2) g(1,4) by blast
    moreover have s: "suffix (drop n s) s" by (rule suffix_drop)
    ultimately have "list_all (resolved_leaves resolve s) args" "suffix r s"
      using resolved_leaves_mono [OF _ suffix_imp_sublist [OF s]] by (auto simp: list_all_iff intro: suffix_order.trans)
    with finish_group_suffix [OF g(2)] g(3) show ?thesis by (auto simp: resolved_leaves_group intro: suffix_order.trans)
  qed (rule parse_single_leaves)
next
  case (4 resolve k s)
  from 4(3) obtain arg r where a: "parseDSN resolve k s = Some (Inr (arg, r))" by (auto split: option.splits sum.splits)
  from 4(1) [OF a] have arg: "resolved_leaves resolve s arg" "suffix r s" by simp_all
  show ?case
  proof (cases r)
    case (Cons c r')
    have r': "suffix r' s" using arg(2) Cons by (metis suffix_ConsD)
    show ?thesis
    proof (cases "c = CHR '')''")
      case False
      with 4(3) a Cons obtain us where u: "parse_args resolve k r' = Some (Inr (us, rest))" "ts = arg # us"
        by (auto split: option.splits sum.splits)
      from 4(2) [OF a _ _ Cons False u(1)] have "list_all (resolved_leaves resolve r') us" "suffix rest r'" by simp_all
      with r' resolved_leaves_mono [OF _ suffix_imp_sublist [OF r']] show ?thesis
        using arg(1) u(2) by (auto simp: list_all_iff intro: suffix_order.trans)
    qed (use 4(3) a Cons arg r' in auto)
  qed (use 4(3) a arg in auto)
qed simp_all

lemma FromString_leaves:
  "FromString url_Parse factories s = Some (Inr t) \<Longrightarrow> resolved_leaves (resolve_single url_Parse factories) s t"
  by (auto simp: FromString_def dest: parse_leaves split: option.splits sum.splits if_splits)


lemma finish_group_proper:
  assumes "finish_group g args s = Inr (t, rest)" "args \<noteq> []" "list_all proper args" "g = RoundRobin \<or> g = Failover"
  shows "proper t"
  using assms by (auto simp: finish_group_def bindE_eq_Inr retry_of_def DefaultRetryPeriod_def Let_def)

lemma parse_proper:
  "parseDSN resolve k s = Some (Inr (t, rest)) \<Longrightarrow> proper t"
  "parse_args resolve k s = Some (Inr (ts, rest)) \<Longrightarrow> ts \<noteq> [] \<and> list_all proper ts"
proof (induction resolve k s and resolve k s arbitrary: t rest and ts rest rule: parseDSN_parse_args.induct)
  case (2 resolve k s)
  from 2(3) show ?case
  proof (cases rule: parseDSN_group)
    case (1 n g args r)
    with 2(1,2) finish_group_proper show ?thesis by blast
  qed (auto simp: parse_single_def bindE_eq_Inr split: option.splits)
next
  case (4 resolve k s)
  then show ?case by (auto split: option.splits sum.splits list.splits if_splits)
qed simp_all

lemma FromString_proper: "FromString url_Parse factories s = Some (Inr t) \<Longrightarrow> proper t"
  by (auto simp: FromString_def intro: parse_proper split: option.splits sum.splits if_splits)

section \<open>A router over trees\<close>

text \<open>Where a message goes, and as what.\<close>

definition route :: "'w router \<Rightarrow> raw_message \<Rightarrow> bytes" where
  "route t msg = (case msg of MsgRaw m \<Rightarrow> (case Header m transportHeader of Some name \<Rightarrow> name | None \<Rightarrow> ro_defaultName t) | _ \<Rightarrow> ro_defaultName t)"

definition routed :: "raw_message \<Rightarrow> raw_message" where
  "routed msg = (case msg of MsgRaw m \<Rightarrow> if Header m transportHeader = None then msg else MsgRaw (RemoveHeader m transportHeader) | _ \<Rightarrow> msg)"

text \<open>A send through a router goes to the transport it chooses, or finds none.\<close>

lemma router_Send_routed:
  assumes "router_wf t" "router_Send t msg env w = (out, m, e, w')"
  obtains tr m' e' where "map_of (ro_transports t) (route t msg) = Some tr" "tr_Send tr (routed msg) env w = (out, m', e', w')"
  | err where "out = Inl err" "w' = w" "isTransportError err = False"
proof -
  obtain d where d: "map_of (ro_transports t) (ro_defaultName t) = Some d" using router_default_exists [OF assms(1)] by blast
  show thesis
  proof (cases msg)
    case (MsgRaw x)
    then show thesis using assms(2) d that
      by (auto simp: router_Send_def route_def routed_def isTransportError_def split: option.splits prod.splits)
  qed (use assms(2) d that in \<open>auto simp: router_Send_def route_def routed_def\<close>)
qed

text \<open>A router made over named trees, in a heap that holds them.\<close>

definition routes_trees :: "('l, 'v) runtime \<Rightarrow> (bytes \<times> 'l dtree) list \<Rightarrow> ('l, 'v) world router \<Rightarrow> bool" where
  "routes_trees R trees t \<longleftrightarrow> router_wf t \<and> distinct (map fst trees)
     \<and> ro_transports t = map (\<lambda>(name, x). (name, transport_of R (name, []) x)) trees"

definition all_in_heap :: "(bytes \<times> 'l dtree) list \<Rightarrow> 'l heap \<Rightarrow> bool" where
  "all_in_heap trees h \<longleftrightarrow> (\<forall>(name, x)\<in>set trees. in_heap x (name, []) h)"

lemma named_objects:
  assumes "distinct (map fst trees)"
  shows "heap_objects R (\<lambda>i. (fst (trees ! i), [])) (\<lambda>i. in_heap (snd (trees ! i)) (fst (trees ! i), []))
    (map (\<lambda>(name, x). transport_of R (name, []) x) trees)"
proof (rule heap_objects.intro)
  fix i
  assume "i < length (map (\<lambda>(name, x). transport_of R (name, []) x) trees)"
  then show "heap_object R (fst (trees ! i), []) (in_heap (snd (trees ! i)) (fst (trees ! i), []))
      (map (\<lambda>(name, x). transport_of R (name, []) x) trees ! i)"
    using tree_heap_object [of R "(fst (trees ! i), [])" "snd (trees ! i)"] by (simp add: split_beta)
next
  fix i j b
  assume "i < length (map (\<lambda>(name, x). transport_of R (name, []) x) trees)" "j < length (map (\<lambda>(name, x). transport_of R (name, []) x) trees)"
    "below (fst (trees ! i), []) b" "below (fst (trees ! j), []) b"
  then show "i = j" using assms by (auto simp: below_def distinct_conv_nth)
qed

lemma all_in_heap_nth: "all_in_heap trees h \<longleftrightarrow> (\<forall>i<length trees. in_heap (snd (trees ! i)) (fst (trees ! i), []) h)"
  unfolding all_in_heap_def by (metis (mono_tags, lifting) case_prod_beta in_set_conv_nth)

lemma router_send_ok:
  assumes r: "routes_trees R trees t" and "all_in_heap trees (fst hv)" "router_Send t msg env (Some hv) = (out, m, e, Some hv')"
  shows "all_in_heap trees (fst hv') \<and> touches R hv hv' \<and> (\<forall>r. out = Inr r \<longrightarrow> accepted_by R (routed msg) env (route t msg, []) r hv hv')"
proof -
  have wf: "router_wf t" and d: "distinct (map fst trees)"
    and ts: "ro_transports t = map (\<lambda>(name, x). (name, transport_of R (name, []) x)) trees"
    using r by (simp_all add: routes_trees_def)
  note objs = named_objects [OF d, of R]
  show ?thesis
    using wf assms(3)
  proof (cases rule: router_Send_routed)
    case (1 tr m' e')
    from map_of_SomeD [OF 1(1)] obtain i where i: "i < length trees" "route t msg = fst (trees ! i)"
      "tr = transport_of R (fst (trees ! i), []) (snd (trees ! i))"
      by (auto simp: ts in_set_conv_nth)
    then have "tr_Send (map (\<lambda>(name, x). transport_of R (name, []) x) trees ! i) (routed msg) env (Some hv) = (out, m', e', Some hv')"
      using 1(2) by (simp add: split_beta)
    from heap_objects.send_one [OF objs _ _ this] i(1,2) assms(2) show ?thesis
      by (auto simp: all_in_heap_nth among_def)
  next
    case (2 err)
    then show ?thesis using assms(2) by (simp add: touch_none)
  qed
qed

lemma router_close_ok:
  assumes r: "routes_trees R trees t" and "all_in_heap trees (fst hv)"
  shows "\<exists>err hv'. router_Close t (Some hv) = (err, Some hv') \<and> all_in_heap trees (fst hv') \<and> touches R hv hv'"
proof -
  have wf: "router_wf t" and d: "distinct (map fst trees)"
    and ts: "ro_transports t = map (\<lambda>(name, x). (name, transport_of R (name, []) x)) trees"
    using r by (simp_all add: routes_trees_def)
  let ?cs = "map (\<lambda>(name, x). transport_of R (name, []) x) trees"
  have "the (map_of (ro_transports t) name) \<in> set ?cs" if "name \<in> set (ro_order t)" for name
  proof -
    from that wf have "name \<in> fst ` set (ro_transports t)" by (simp add: router_wf_def)
    then obtain tr where "map_of (ro_transports t) name = Some tr" by (metis map_of_eq_None_iff not_None_eq)
    with map_of_SomeD [OF this] show ?thesis by (force simp: ts)
  qed
  then have "set (map (\<lambda>name. the (map_of (ro_transports t) name)) (ro_order t)) \<subseteq> set ?cs" by auto
  from heap_objects.closeAll_some [OF named_objects [OF d, of R] _ this, of hv] assms(2) obtain err hv' where
    "router_Close t (Some hv) = (err, Some hv')"
    "among R (\<lambda>i. (fst (trees ! i), [])) (\<lambda>i. in_heap (snd (trees ! i)) (fst (trees ! i), [])) (length ?cs) hv hv'"
    by (auto simp: router_Close_def all_in_heap_nth)
  with assms(2) show ?thesis by (auto simp: all_in_heap_nth among_def)
qed

lemma router_used:
  assumes "used (router_transport t) hv hv'" "routes_trees R trees t" "all_in_heap trees (fst hv)"
  shows "all_in_heap trees (fst hv') \<and> touches R hv hv'"
  using assms(1,3)
proof (induction rule: used.induct)
  case (used_send hv hv' msg env out m e hv'')
  then have ok: "all_in_heap trees (fst hv')" "touches R hv hv'" by simp_all
  have "router_Send t msg env (Some hv') = (out, m, e, Some hv'')" using used_send by (simp add: router_transport_def)
  from router_send_ok [OF assms(2) ok(1) this] touches_trans [OF _ ok(2)] show ?case by blast
next
  case (used_close hv hv' close err hv'')
  then have ok: "all_in_heap trees (fst hv')" "touches R hv hv'" by simp_all
  have "router_Close t (Some hv') = (err, Some hv'')" using used_close by (simp add: router_transport_def)
  with router_close_ok [OF assms(2) ok(1)] touches_trans [OF _ ok(2)] show ?case by auto
qed (simp add: touch_none)

text \<open>The router that \<^verbatim>\<open>FromStrings\<close> makes is one over the trees of its DSNs.\<close>

lemma resolve_all_trees:
  "resolve_all url_Parse factories named names = Some (Inr trees) \<Longrightarrow> map fst trees = names
    \<and> (\<forall>(name, t)\<in>set trees. FromString url_Parse factories (the (map_of named name)) = Some (Inr t))"
proof (induction names arbitrary: trees)
  case (Cons name names)
  then obtain t us where t: "FromString url_Parse factories (the (map_of named name)) = Some (Inr t)"
    "resolve_all url_Parse factories named names = Some (Inr us)" "trees = (name, t) # us"
    by (auto simp: map_sum_Inr split: option.splits sum.splits)
  with Cons.IH [OF t(2)] show ?case by simp
qed simp

lemma FromStrings_routes:
  assumes "FromStrings url_Parse factories (\<lambda>name. transport_of R (name, [])) named = Some (Inr t)"
    and "resolve_all url_Parse factories named (sort (map fst named)) = Some (Inr trees)" "distinct (map fst named)"
  shows "routes_trees R trees t"
proof -
  have d: "distinct (map fst trees)" using resolve_all_trees [OF assms(2)] assms(3) by simp
  let ?ts = "map (\<lambda>(name, x). (name, transport_of R (name, []) x)) trees"
  have "NewTransports ?ts (Some (sort (map fst named))) = Inr t" using assms(1,2) by (simp add: FromStrings_def Let_def)
  moreover have "distinct (map fst ?ts)" using d by (simp add: split_beta comp_def)
  ultimately have "router_wf t \<and> ro_transports t = ?ts" by (rule NewTransports_wf)
  with d show ?thesis by (simp add: routes_trees_def)
qed

lemma trees_objects_ok:
  assumes "resolve_all url_Parse factories named names = Some (Inr trees)" "distinct names"
  shows "all_in_heap trees (objects R trees)"
proof -
  have d: "distinct (map fst trees)" and ts: "\<forall>(name, t)\<in>set trees. FromString url_Parse factories (the (map_of named name)) = Some (Inr t)"
    using resolve_all_trees [OF assms(1)] assms(2) by simp_all
  have "in_heap t (name, []) (objects R trees)" if "(name, t) \<in> set trees" for name t
    using ts that objects_ok [OF map_of_is_SomeI [OF d that] FromString_proper] by blast
  then show ?thesis by (auto simp: all_in_heap_def)
qed

section \<open>Invariants of leaves\<close>

text \<open>What every call on a leaf keeps, every call on a tree keeps for its leaves.\<close>

lemma touches_leaves:
  assumes "touches R hv hv'" "\<And>a x. fst hv a = Some (LeafObj x) \<Longrightarrow> I x"
    and send: "\<And>x msg env v out x' v'. I x \<Longrightarrow> rt_Send R x msg env v = Some (out, x', v') \<Longrightarrow> I x'"
    and close: "\<And>x c v err x' v'. I x \<Longrightarrow> rt_Close R x = Some c \<Longrightarrow> c v = (err, x', v') \<Longrightarrow> I x'"
  shows "fst hv' a = Some (LeafObj x) \<Longrightarrow> I x"
  using assms(1,2)
proof (induction arbitrary: a x rule: touches.induct)
  case (touch_send hv h v b y msg env out y' v')
  have old: "I z" if "h c = Some (LeafObj z)" for c z using touch_send.IH [of c z] touch_send.prems(2) that by simp
  show ?case using touch_send.prems(1) old send [OF old [OF touch_send.hyps(2)] touch_send.hyps(3)]
    by (cases "a = b") simp_all
next
  case (touch_close hv h v b y c err y' v')
  have old: "I z" if "h c = Some (LeafObj z)" for c z using touch_close.IH [of c z] touch_close.prems(2) that by simp
  show ?case using touch_close.prems(1) old close [OF old [OF touch_close.hyps(2)] touch_close.hyps(3,4)]
    by (cases "a = b") simp_all
next
  case (touch_pool hv h v b obj obj')
  then show ?case by (cases "a = b") auto
qed simp

end
