(* ===== verification/Composite_Live.thy ===== *)
theory Composite_Live
  imports Composite
begin

text \<open>
  When a tree of pools delivers (\<^verbatim>\<open>roundrobin.go\<close>, \<^verbatim>\<open>failover.go\<close>, nested as \<^verbatim>\<open>registry.go\<close> nests them).
  The time a send on a tree may take follows from the time its leaves take. If that time fits
  in the retry period of every pool and every leaf fails only with transport errors, then a
  tree with one leaf that accepts every message accepts every message itself, however its other
  leaves fail: no pool on the way to that leaf ever marks the child that leads to it.
\<close>

section \<open>Time\<close>

text \<open>
  Leaves in a state \<open>I\<close> answer every message in \<open>M\<close> within \<open>d\<close>, with a result or a transport error;
  those in a state \<open>G\<close> accept it. The clock does not depend on the heap.
\<close>

definition steady ::
  "('l, 'v) runtime \<Rightarrow> (raw_message \<Rightarrow> envelope option \<Rightarrow> bool) \<Rightarrow> ('l \<Rightarrow> bool) \<Rightarrow> ('l \<Rightarrow> bool) \<Rightarrow> duration \<Rightarrow> bool" where
  "steady R M I G d \<longleftrightarrow>
    (\<forall>h h' v. now_nanos (rt_sys R) (Some (h, v)) = now_nanos (rt_sys R) (Some (h', v)))
    \<and> (\<forall>x msg env v. I x \<longrightarrow> M msg env \<longrightarrow> (\<exists>out x' v'. rt_Send R x msg env v = Some (out, x', v') \<and> I x'
        \<and> (G x \<longrightarrow> G x' \<and> (\<exists>r. out = Inr r)) \<and> (\<forall>err. out = Inl err \<longrightarrow> isTransportError err)
        \<and> (\<forall>h. now_nanos (rt_sys R) (Some (h, v)) \<le> now_nanos (rt_sys R) (Some (h, v'))
             \<and> now_nanos (rt_sys R) (Some (h, v')) \<le> now_nanos (rt_sys R) (Some (h, v)) + d)))"

text \<open>The time a send on a tree may take, when every pool may try all its children, and trees where that fits.\<close>

fun budget :: "duration \<Rightarrow> 'l dtree \<Rightarrow> duration" where
  "budget d (Single x) = d"
| "budget d (RoundRobin ts p) = int (length ts) * foldr max (map (budget d) ts) 0"
| "budget d (Failover ts p) = int (length ts) * foldr max (map (budget d) ts) 0"

fun roomy :: "duration \<Rightarrow> 'l dtree \<Rightarrow> bool" where
  "roomy d (Single x) = True"
| "roomy d (RoundRobin ts p) = (int (length ts) * foldr max (map (budget d) ts) 0 \<le> p \<and> list_all (roomy d) ts)"
| "roomy d (Failover ts p) = (int (length ts) * foldr max (map (budget d) ts) 0 \<le> p \<and> list_all (roomy d) ts)"

lemma foldr_max_ge: "x \<in> set xs \<Longrightarrow> x \<le> foldr max xs (0::int)"
  by (induction xs) auto

lemma foldr_max_nonneg: "0 \<le> foldr max xs (0::int)"
  by (induction xs) auto

section \<open>Trees that are sure to deliver\<close>

text \<open>Every leaf is in a state \<open>I\<close> and every pool keeps its invariant.\<close>

fun settled :: "('l \<Rightarrow> bool) \<Rightarrow> 'l dtree \<Rightarrow> address \<Rightarrow> 'l heap \<Rightarrow> bool" where
  "settled I (Single x) a h = (\<exists>y. h a = Some (LeafObj y) \<and> I y)"
| "settled I (RoundRobin ts p) a h =
    ((\<exists>t. Option.bind (h a) rr_of = Some t \<and> rr_inv (int (length ts)) p t) \<and> (\<forall>i<length ts. settled I (ts ! i) (child a i) h))"
| "settled I (Failover ts p) a h =
    ((\<exists>f. Option.bind (h a) failover_of = Some f \<and> fo_inv (int (length ts)) p f) \<and> (\<forall>i<length ts. settled I (ts ! i) (child a i) h))"

text \<open>There is a way to a leaf in a state \<open>G\<close> over children that are not marked dead.\<close>

fun sure :: "('l \<Rightarrow> bool) \<Rightarrow> 'l dtree \<Rightarrow> address \<Rightarrow> 'l heap \<Rightarrow> bool" where
  "sure G (Single x) a h = (\<exists>y. h a = Some (LeafObj y) \<and> G y)"
| "sure G (RoundRobin ts p) a h =
    (\<exists>t. Option.bind (h a) rr_of = Some t \<and> (\<exists>i\<in>{..<length ts}. rr_dead t (int i) = None \<and> sure G (ts ! i) (child a i) h))"
| "sure G (Failover ts p) a h =
    (\<exists>f. Option.bind (h a) failover_of = Some f \<and> (\<exists>i\<in>{..<length ts}. rr_dead (fo_rr f) (int i) = None \<and> sure G (ts ! i) (child a i) h))"

text \<open>Both depend only on the part of the heap that the tree owns.\<close>

definition agree :: "address \<Rightarrow> 'l heap \<Rightarrow> 'l heap \<Rightarrow> bool" where
  "agree a h h' \<longleftrightarrow> (\<forall>b. below a b \<longrightarrow> h' b = h b)"

definition owned :: "address \<Rightarrow> ('l heap \<Rightarrow> bool) \<Rightarrow> bool" where
  "owned a P \<longleftrightarrow> (\<forall>h h'. agree a h h' \<longrightarrow> P h \<longrightarrow> P h')"

lemma agree_at: "agree a h h' \<Longrightarrow> h' a = h a"
  unfolding agree_def using below_refl by blast

lemma agree_child: "agree a h h' \<Longrightarrow> agree (child a i) h h'"
  unfolding agree_def using below_child by blast

lemma agree_apart: "frame (child a i) h h' \<Longrightarrow> i \<noteq> j \<Longrightarrow> agree (child a j) h h'"
  unfolding agree_def frame_def using below_children by blast

lemma agree_above: "agree (child a i) h (h(a \<mapsto> obj))"
  unfolding agree_def using below_child by fastforce

lemma settled_in_heap: "settled I t a h \<Longrightarrow> in_heap t a h"
  by (induction I t a h rule: settled.induct) auto

lemma settled_local: "settled I t a h \<Longrightarrow> agree a h h' \<Longrightarrow> settled I t a h'"
proof (induction I t a h rule: settled.induct)
  case (2 I ts p a h)
  then show ?case using agree_child [OF 2(3)] by (simp add: agree_at)
next
  case (3 I ts p a h)
  then show ?case using agree_child [OF 3(3)] by (simp add: agree_at)
qed (simp add: agree_at)

lemma sure_local: "sure G t a h \<Longrightarrow> agree a h h' \<Longrightarrow> sure G t a h'"
proof (induction G t a h rule: sure.induct)
  case (2 I ts p a h)
  then show ?case using agree_child [OF 2(3)] by (auto simp: agree_at)
next
  case (3 I ts p a h)
  then show ?case using agree_child [OF 3(3)] by (auto simp: agree_at)
qed (simp add: agree_at)

lemma owned_tree: "owned a (settled I t a)" "owned a (sure G t a)"
  unfolding owned_def using settled_local sure_local by blast+

section \<open>Prompt objects\<close>

text \<open>
  A send on an object that is \<open>ok\<close> returns within \<open>d\<close> and leaves it so, with a result or a transport
  error; with a result if it is \<open>good\<close>, and then it stays so.
\<close>

definition prompt ::
  "('l, 'v) runtime \<Rightarrow> (raw_message \<Rightarrow> envelope option \<Rightarrow> bool) \<Rightarrow> ('l heap \<Rightarrow> bool) \<Rightarrow> ('l heap \<Rightarrow> bool) \<Rightarrow> duration
    \<Rightarrow> ('l, 'v) world transport \<Rightarrow> bool" where
  "prompt R M ok good d tr \<longleftrightarrow>
    (\<forall>msg env hv. M msg env \<longrightarrow> ok (fst hv) \<longrightarrow> (\<exists>out hv'. tr_Send tr msg env (Some hv) = (out, msg, env, Some hv') \<and> ok (fst hv')
       \<and> now_nanos (rt_sys R) (Some hv) \<le> now_nanos (rt_sys R) (Some hv') \<and> now_nanos (rt_sys R) (Some hv') \<le> now_nanos (rt_sys R) (Some hv) + d
       \<and> (good (fst hv) \<longrightarrow> good (fst hv') \<and> (\<exists>r. out = Inr r)) \<and> (\<forall>err. out = Inl err \<longrightarrow> isTransportError err)))"

lemma promptD:
  assumes "prompt R M ok good d tr" "M msg env" "ok (fst hv)"
  obtains out hv' where "tr_Send tr msg env (Some hv) = (out, msg, env, Some hv')" "ok (fst hv')"
    "now_nanos (rt_sys R) (Some hv) \<le> now_nanos (rt_sys R) (Some hv')" "now_nanos (rt_sys R) (Some hv') \<le> now_nanos (rt_sys R) (Some hv) + d"
    "good (fst hv) \<longrightarrow> good (fst hv') \<and> (\<exists>r. out = Inr r)" "\<forall>err. out = Inl err \<longrightarrow> isTransportError err"
  using assms(1) [unfolded prompt_def, rule_format, OF assms(2,3)] by blast

lemma prompt_mono: "prompt R M ok good d tr \<Longrightarrow> d \<le> d' \<Longrightarrow> prompt R M ok good d' tr"
  unfolding prompt_def by fastforce

lemma leaf_prompt:
  assumes "steady R M I G d"
  shows "prompt R M (settled I (Single x) a) (sure G (Single x) a) d (leaf_object R a x)"
  unfolding prompt_def
proof (intro allI impI)
  fix msg env and hv :: "'a heap \<times> 'b"
  assume M: "M msg env" and ok: "settled I (Single x) a (fst hv)"
  obtain h v where hv: "hv = (h, v)" by (cases hv)
  obtain y where y: "h a = Some (LeafObj y)" "I y" using ok hv by auto
  from assms M y(2) obtain out y' v' where s: "rt_Send R y msg env v = Some (out, y', v')" "I y'"
      "G y \<longrightarrow> G y' \<and> (\<exists>r. out = Inr r)" "\<forall>err. out = Inl err \<longrightarrow> isTransportError err"
      "now_nanos (rt_sys R) (Some (h, v)) \<le> now_nanos (rt_sys R) (Some (h, v'))"
      "now_nanos (rt_sys R) (Some (h, v')) \<le> now_nanos (rt_sys R) (Some (h, v)) + d"
    unfolding steady_def by meson
  have "now_nanos (rt_sys R) (Some (h(a \<mapsto> LeafObj y'), v')) = now_nanos (rt_sys R) (Some (h, v'))"
    using assms unfolding steady_def by blast
  with s y hv show "\<exists>out hv'. tr_Send (leaf_object R a x) msg env (Some hv) = (out, msg, env, Some hv') \<and> settled I (Single x) a (fst hv')
       \<and> now_nanos (rt_sys R) (Some hv) \<le> now_nanos (rt_sys R) (Some hv') \<and> now_nanos (rt_sys R) (Some hv') \<le> now_nanos (rt_sys R) (Some hv) + d
       \<and> (sure G (Single x) a (fst hv) \<longrightarrow> sure G (Single x) a (fst hv') \<and> (\<exists>r. out = Inr r)) \<and> (\<forall>err. out = Inl err \<longrightarrow> isTransportError err)"
    by (simp add: leaf_object_def call_def)
qed

text \<open>
  Worlds in which every child of a pool is ok and those in \<open>J\<close> are good. A send on one child keeps to
  them, as it does not reach the others.
\<close>

definition staffed ::
  "(nat \<Rightarrow> 'l heap \<Rightarrow> bool) \<Rightarrow> (nat \<Rightarrow> 'l heap \<Rightarrow> bool) \<Rightarrow> nat set \<Rightarrow> nat \<Rightarrow> ('l, 'v) world \<Rightarrow> bool" where
  "staffed oks goods J n w \<longleftrightarrow> (\<exists>hv. w = Some hv \<and> (\<forall>i<n. oks i (fst hv)) \<and> (\<forall>j\<in>J. goods j (fst hv)))"

lemma staffed_send:
  assumes "heap_objects R (child a) inh cs" "\<forall>i<length cs. \<forall>h. oks i h \<longrightarrow> inh i h"
    and own: "\<forall>i<length cs. owned (child a i) (oks i) \<and> owned (child a i) (goods i)"
    and prompt: "\<forall>i<length cs. prompt R M (oks i) (goods i) d (cs ! i)"
    and "M msg env" "J \<subseteq> {..<length cs}" "staffed oks goods J (length cs) w" "i < length cs" "tr_Send (cs ! i) msg env w = (out, m, e, w')"
  shows "staffed oks goods J (length cs) w' \<and> now_nanos (rt_sys R) w \<le> now_nanos (rt_sys R) w' \<and> now_nanos (rt_sys R) w' \<le> now_nanos (rt_sys R) w + d
    \<and> (i \<in> J \<longrightarrow> (\<exists>r. out = Inr r)) \<and> (\<forall>err. out = Inl err \<longrightarrow> isTransportError err)"
proof -
  obtain hv where hv: "w = Some hv" "\<forall>i<length cs. oks i (fst hv)" "\<forall>j\<in>J. goods j (fst hv)" using assms(7) by (auto simp: staffed_def)
  obtain out1 hv' where s: "tr_Send (cs ! i) msg env (Some hv) = (out1, msg, env, Some hv')"
      "oks i (fst hv')" "now_nanos (rt_sys R) (Some hv) \<le> now_nanos (rt_sys R) (Some hv')"
      "now_nanos (rt_sys R) (Some hv') \<le> now_nanos (rt_sys R) (Some hv) + d"
      "goods i (fst hv) \<longrightarrow> goods i (fst hv') \<and> (\<exists>r. out1 = Inr r)" "\<forall>err. out1 = Inl err \<longrightarrow> isTransportError err"
    by (rule promptD [OF prompt [rule_format, OF assms(8)] assms(5) hv(2) [rule_format, OF assms(8)]])
  have eq: "out1 = out" "w' = Some hv'" using s(1) assms(9) hv(1) by simp_all
  have fr: "frame (child a i) (fst hv) (fst hv')"
    using heap_object.send_ok [OF heap_objects.member [OF assms(1,8)] _ s(1)] assms(2,8) hv(2) by blast
  have "oks j (fst hv')" if "j < length cs" for j
    using own agree_apart [OF fr, of j] hv(2) that s(2) unfolding owned_def by (cases "i = j") blast+
  moreover have "goods j (fst hv')" if "j \<in> J" for j
  proof (cases "i = j")
    case False
    have "j < length cs" using that assms(6) by blast
    with own agree_apart [OF fr False] hv(3) that show ?thesis unfolding owned_def by blast
  qed (use s(5) hv(3) that in blast)
  ultimately show ?thesis using s eq hv by (auto simp: staffed_def)
qed

text \<open>A pool of prompt objects is one, if trying all of them fits in its retry period.\<close>

lemma pool_prompt:
  fixes R :: "('l, 'v) runtime"
  assumes sel: "pool_selector (int (length cs)) period good dead nxt mark"
    and objs: "heap_objects R (child a) inh cs" "\<forall>i<length cs. \<forall>h. oks i h \<longrightarrow> inh i h"
    and own: "\<forall>i<length cs. owned (child a i) (oks i) \<and> owned (child a i) (goods i)"
    and prompt: "\<forall>i<length cs. prompt R M (oks i) (goods i) d (cs ! i)"
    and time: "0 \<le> d" "int (length cs) * d \<le> period" "\<And>h h' v. now_nanos (rt_sys R) (Some (h, v)) = now_nanos (rt_sys R) (Some (h', v))"
    and state: "\<And>s. state (object s) = Some s"
    and send: "\<And>msg env. tr_Send tr msg env = call state object a (dispatch (rt_sys R) nxt mark cs msg env None) msg env"
  shows "prompt R M (pool_ok state good a oks (length cs))
    (\<lambda>h. \<exists>s. Option.bind (h a) state = Some s \<and> (\<exists>i\<in>{..<length cs}. dead s (int i) = None \<and> goods i h)) (int (length cs) * d) tr"
  unfolding prompt_def
proof (intro allI impI)
  fix msg env and hv :: "'l heap \<times> 'v"
  assume M: "M msg env" and ok: "pool_ok state good a oks (length cs) (fst hv)"
  let ?S = "rt_sys R" and ?n = "length cs"
  let ?sure = "\<lambda>h. \<exists>s. Option.bind (h a) state = Some s \<and> (\<exists>i\<in>{..<?n}. dead s (int i) = None \<and> goods i h)"
  obtain s where s: "Option.bind (fst hv a) state = Some s" "good s" "\<forall>i<?n. oks i (fst hv)" using ok by (auto simp: pool_ok_def)
  obtain J where J: "J \<subseteq> {..<?n}" "\<And>j. j \<in> J \<Longrightarrow> dead s (int j) = None \<and> goods j (fst hv)" "?sure (fst hv) \<Longrightarrow> J \<noteq> {}"
  proof (cases "?sure (fst hv)")
    case True
    then obtain i where "i < ?n" "dead s (int i) = None \<and> goods i (fst hv)" using s(1) by auto
    then show thesis using that [of "{i}"] by simp
  qed (use that [of "{}"] in auto)
  let ?W = "staffed oks goods J ?n"
  note one = staffed_send [OF objs own prompt M J(1)]
  have fits: "pool_fits ?W (int ?n) period ?S cs msg env d"
    unfolding pool_fits_def using one time(1,2) by (fastforce simp: in_set_conv_nth)
  have W: "?W (Some hv)" using s(3) J(2) by (simp add: staffed_def)
  from pool_selector.send_returns [OF sel s(2) fits W, of None] obtain "is" out s' w' where d:
    "dispatch ?S nxt mark cs msg env None s (Some hv) = Some (out, s', w')"
    "dispatch_run ?S nxt mark cs msg env None s (Some hv) is out s' w'" "good s'" "?W w'"
    "now_nanos ?S (Some hv) \<le> now_nanos ?S w'" "now_nanos ?S w' \<le> now_nanos ?S (Some hv) + int ?n * d" by blast
  have soft: "isTransportError err" if "?W w" "t \<in> set cs" "tr_Send t msg env w = (Inl err, m, e, w')" for t w err m e w'
    using one that by (metis in_set_conv_nth)
  obtain h1 v1 where w': "w' = Some (h1, v1)" "\<forall>i<?n. oks i h1" "\<forall>j\<in>J. goods j h1" using d(4) by (auto simp: staffed_def)
  let ?h = "h1(a \<mapsto> object s')"
  have call: "tr_Send tr msg env (Some hv) = (out, msg, env, Some (?h, v1))"
    unfolding send call_def using s(1) d(1) w'(1) by (auto simp: Option.bind_eq_Some_conv split_beta)
  have keep: "oks i ?h" "goods i h1 \<Longrightarrow> goods i ?h" if "i < ?n" for i
    using own w'(2) that agree_above unfolding owned_def by blast+
  have "?sure ?h \<and> (\<exists>r. out = Inr r)" if g: "?sure (fst hv)"
  proof -
    obtain j where j: "j \<in> J" using J(3) [OF g] by blast
    have acc: "\<exists>r m e w'. tr_Send (cs ! nat (int j)) msg env w = (Inr r, m, e, w')" if "?W w" for w
      using one [OF that, of j] j J(1) by (cases "tr_Send (cs ! j) msg env w") auto
    have "(\<exists>r. out = Inr r) \<and> dead s' (int j) = None"
      by (rule pool_selector.run_succeeds [OF sel d(2) s(2) _ _ _ _ _ fits W])
        (use j J acc soft in auto)
    with j J(1) w'(3) keep(2) state show ?thesis by auto
  qed
  moreover have "isTransportError err" if "out = Inl err" for err
    by (rule pool_selector.run_soft [OF sel d(2) s(2) _ fits W _ that]) (rule soft, assumption+, simp)
  moreover have "now_nanos ?S (Some (?h, v1)) = now_nanos ?S w'" unfolding w'(1) by (rule time(3))
  ultimately show "\<exists>out hv'. tr_Send tr msg env (Some hv) = (out, msg, env, Some hv') \<and> pool_ok state good a oks ?n (fst hv')
       \<and> now_nanos ?S (Some hv) \<le> now_nanos ?S (Some hv') \<and> now_nanos ?S (Some hv') \<le> now_nanos ?S (Some hv) + int ?n * d
       \<and> (?sure (fst hv) \<longrightarrow> ?sure (fst hv') \<and> (\<exists>r. out = Inr r)) \<and> (\<forall>err. out = Inl err \<longrightarrow> isTransportError err)"
    using call d keep(1) state by (intro exI [of _ out] exI [of _ "(?h, v1)"]) (simp add: pool_ok_def)
qed

section \<open>Prompt trees\<close>

lemma settled_pool:
  "settled I (RoundRobin ts p) a = pool_ok rr_of (rr_inv (int (length ts)) p) a (\<lambda>i. settled I (ts ! i) (child a i)) (length ts)"
  "settled I (Failover ts p) a = pool_ok failover_of (fo_inv (int (length ts)) p) a (\<lambda>i. settled I (ts ! i) (child a i)) (length ts)"
  by (simp_all add: pool_ok_def fun_eq_iff)

lemma children_prompt:
  assumes "\<And>i. i < length ts \<Longrightarrow> prompt R M (settled I (ts ! i) (child a i)) (sure G (ts ! i) (child a i)) (budget d (ts ! i)) (transport_of R (child a i) (ts ! i))"
  shows "\<forall>i<length (transports_of R a ts). prompt R M (settled I (ts ! i) (child a i)) (sure G (ts ! i) (child a i))
    (foldr max (map (budget d) ts) 0) (transports_of R a ts ! i)"
proof (intro allI impI)
  fix i
  assume "i < length (transports_of R a ts)"
  then have i: "i < length ts" by (simp add: transports_of_def)
  then have "budget d (ts ! i) \<le> foldr max (map (budget d) ts) 0" by (intro foldr_max_ge) simp
  with prompt_mono [OF assms [OF i]] i show "prompt R M (settled I (ts ! i) (child a i)) (sure G (ts ! i) (child a i))
      (foldr max (map (budget d) ts) 0) (transports_of R a ts ! i)" by (simp add: transports_of_def)
qed

lemma tree_prompt:
  fixes R :: "('l, 'v) runtime"
  assumes st: "steady R M I G d"
  shows "roomy d t \<Longrightarrow> prompt R M (settled I t a) (sure G t a) (budget d t) (transport_of R a t)"
proof (induction t arbitrary: a)
  case (Single x)
  show ?case unfolding transport_of.simps budget.simps by (rule leaf_prompt [OF st])
next
  case (RoundRobin ts p)
  let ?cs = "transports_of R a ts"
  have len: "length ?cs = length ts" by (simp add: transports_of_def)
  have "prompt R M (pool_ok rr_of (rr_inv (int (length ts)) p) a (\<lambda>i. settled I (ts ! i) (child a i)) (length ?cs))
      (\<lambda>h. \<exists>s. Option.bind (h a) rr_of = Some s \<and> (\<exists>i\<in>{..<length ?cs}. rr_dead s (int i) = None \<and> sure G (ts ! i) (child a i) h))
      (int (length ?cs) * foldr max (map (budget d) ts) 0) (roundrobin_object R a ?cs p)"
  proof (rule pool_prompt [where period = p and object = RoundRobinObj, OF _ children.heap_objects_axioms])
    show "pool_selector (int (length ?cs)) p (rr_inv (int (length ts)) p) rr_dead nextTransportLocked (markDead ?cs)"
      unfolding len by (rule rr_select.pool_selector_axioms)
    show "\<forall>i<length ?cs. prompt R M (settled I (ts ! i) (child a i)) (sure G (ts ! i) (child a i)) (foldr max (map (budget d) ts) 0) (?cs ! i)"
      using RoundRobin by (intro children_prompt) (simp add: list_all_length)
    show "now_nanos (rt_sys R) (Some (h, v)) = now_nanos (rt_sys R) (Some (h', v))" for h h' v using st unfolding steady_def by blast
  qed (use RoundRobin.prems in \<open>auto simp: len settled_in_heap owned_tree foldr_max_nonneg roundrobin_object_def pool_Send_eq fun_eq_iff\<close>)
  moreover have "sure G (RoundRobin ts p) a = (\<lambda>h. \<exists>s. Option.bind (h a) rr_of = Some s
      \<and> (\<exists>i\<in>{..<length ts}. rr_dead s (int i) = None \<and> sure G (ts ! i) (child a i) h))" by (simp add: fun_eq_iff)
  ultimately show ?case unfolding settled_pool len by (simp add: transports_of_def)
next
  case (Failover ts p)
  let ?cs = "transports_of R a ts"
  have len: "length ?cs = length ts" by (simp add: transports_of_def)
  have "prompt R M (pool_ok failover_of (fo_inv (int (length ts)) p) a (\<lambda>i. settled I (ts ! i) (child a i)) (length ?cs))
      (\<lambda>h. \<exists>s. Option.bind (h a) failover_of = Some s
         \<and> (\<exists>i\<in>{..<length ?cs}. (rr_dead \<circ> fo_rr) s (int i) = None \<and> sure G (ts ! i) (child a i) h))
      (int (length ?cs) * foldr max (map (budget d) ts) 0) (failover_object R a ?cs p)"
  proof (rule pool_prompt [where period = p and object = FailoverObj, OF _ children.heap_objects_axioms])
    show "pool_selector (int (length ?cs)) p (fo_inv (int (length ts)) p) (rr_dead \<circ> fo_rr) failover_nextTransport (failover_markDead ?cs)"
      unfolding len by (rule fo_select.pool_selector_axioms)
    show "\<forall>i<length ?cs. prompt R M (settled I (ts ! i) (child a i)) (sure G (ts ! i) (child a i)) (foldr max (map (budget d) ts) 0) (?cs ! i)"
      using Failover by (intro children_prompt) (simp add: list_all_length)
    show "now_nanos (rt_sys R) (Some (h, v)) = now_nanos (rt_sys R) (Some (h', v))" for h h' v using st unfolding steady_def by blast
  qed (use Failover.prems in \<open>auto simp: len settled_in_heap owned_tree foldr_max_nonneg failover_object_def pool_Send_eq fun_eq_iff\<close>)
  moreover have "sure G (Failover ts p) a = (\<lambda>h. \<exists>s. Option.bind (h a) failover_of = Some s
      \<and> (\<exists>i\<in>{..<length ts}. (rr_dead \<circ> fo_rr) s (int i) = None \<and> sure G (ts ! i) (child a i) h))" by (simp add: fun_eq_iff)
  ultimately show ?case unfolding settled_pool len by (simp add: transports_of_def)
qed

section \<open>New trees\<close>

lemma new_pool_alive:
  "cs \<noteq> [] \<Longrightarrow> rr_dead (new_rr R a cs p) = Map.empty \<and> rr_dead (fo_rr (new_failover R a cs p)) = Map.empty"
  by (simp add: new_rr_def new_failover_def NewRoundRobinTransport_def NewFailoverTransport_def SetInitialCursor_def)

lemma new_settled:
  assumes "proper t" "\<And>q. h (fst a, snd a @ q) = object_at R a t q" "\<forall>x\<in>set_dtree t. I x"
  shows "settled I t a h"
  using assms
proof (induction R a t rule: transport_of.induct)
  case (1 R a x)
  then show ?case using 1(2) [of "[]"] by simp
next
  case (2 R a ts p)
  have "settled I (ts ! i) (child a i) h" if "i < length ts" for i
  proof (rule 2(1))
    show "\<forall>x\<in>set_dtree (ts ! i). I x" using 2(4) nth_mem [OF that] by auto
    show "h (fst (child a i), snd (child a i) @ q) = object_at R (child a i) (ts ! i) q" for q
      using 2(3) [of "i # q"] that by (simp add: child_def)
  qed (use 2(2) that in \<open>simp_all add: list_all_length\<close>)
  then show ?case using object_at_ok [OF 2(2,3)] by simp
next
  case (3 R a ts p)
  have "settled I (ts ! i) (child a i) h" if "i < length ts" for i
  proof (rule 3(1))
    show "\<forall>x\<in>set_dtree (ts ! i). I x" using 3(4) nth_mem [OF that] by auto
    show "h (fst (child a i), snd (child a i) @ q) = object_at R (child a i) (ts ! i) q" for q
      using 3(3) [of "i # q"] that by (simp add: child_def)
  qed (use 3(2) that in \<open>simp_all add: list_all_length\<close>)
  then show ?case using object_at_ok [OF 3(2,3)] by simp
qed

lemma new_sure:
  assumes "\<And>q. h (fst a, snd a @ q) = object_at R a t q" "\<exists>x\<in>set_dtree t. G x"
  shows "sure G t a h"
  using assms
proof (induction R a t rule: transport_of.induct)
  case (1 R a x)
  then show ?case using 1(1) [of "[]"] by simp
next
  case (2 R a ts p)
  from 2(3) obtain t x where "t \<in> set ts" "x \<in> set_dtree t" "G x" by auto
  then obtain i where i: "i < length ts" "\<exists>x\<in>set_dtree (ts ! i). G x" by (metis in_set_conv_nth)
  then have "sure G (ts ! i) (child a i) h" using 2(1) [of i] 2(2) [of "i # _"] by (simp add: child_def)
  moreover have "h a = Some (RoundRobinObj (new_rr R a (transports_of R a ts) p))" using 2(2) [of "[]"] by simp
  moreover have "transports_of R a ts \<noteq> []" using i(1) by (auto simp: transports_of_def)
  ultimately show ?case using i(1) new_pool_alive [of "transports_of R a ts" R a p] by auto
next
  case (3 R a ts p)
  from 3(3) obtain t x where "t \<in> set ts" "x \<in> set_dtree t" "G x" by auto
  then obtain i where i: "i < length ts" "\<exists>x\<in>set_dtree (ts ! i). G x" by (metis in_set_conv_nth)
  then have "sure G (ts ! i) (child a i) h" using 3(1) [of i] 3(2) [of "i # _"] by (simp add: child_def)
  moreover have "h a = Some (FailoverObj (new_failover R a (transports_of R a ts) p))" using 3(2) [of "[]"] by simp
  moreover have "transports_of R a ts \<noteq> []" using i(1) by (auto simp: transports_of_def)
  ultimately show ?case using i(1) new_pool_alive [of "transports_of R a ts" R a p] by auto
qed

section \<open>Sequences of sends\<close>

text \<open>The results of sending messages one after the other, and the world after them.\<close>

fun send_all :: "'w transport \<Rightarrow> (raw_message \<times> envelope option) list \<Rightarrow> 'w \<Rightarrow> outcome list \<times> 'w" where
  "send_all tr [] w = ([], w)"
| "send_all tr ((msg, env) # ms) w =
    (case tr_Send tr msg env w of (out, _, _, w) \<Rightarrow> case send_all tr ms w of (outs, w) \<Rightarrow> (out # outs, w))"

lemma prompt_send_all:
  assumes "prompt R M ok good d tr" "list_all (\<lambda>(msg, env). M msg env) ms" "ok (fst hv)" "good (fst hv)"
  shows "\<exists>outs hv'. send_all tr ms (Some hv) = (outs, Some hv') \<and> list_all (\<lambda>out. \<exists>r. out = Inr r) outs \<and> length outs = length ms \<and> ok (fst hv') \<and> good (fst hv')
    \<and> now_nanos (rt_sys R) (Some hv') \<le> now_nanos (rt_sys R) (Some hv) + int (length ms) * d"
  using assms(2-)
proof (induction ms arbitrary: hv)
  case (Cons me ms)
  obtain msg env where me: "me = (msg, env)" by (cases me)
  then have M: "M msg env" using Cons.prems by simp
  obtain out hv1 where s: "tr_Send tr msg env (Some hv) = (out, msg, env, Some hv1)" "ok (fst hv1)" "good (fst hv1)" "\<exists>r. out = Inr r"
    "now_nanos (rt_sys R) (Some hv1) \<le> now_nanos (rt_sys R) (Some hv) + d"
    using promptD [OF assms(1) M Cons.prems(2)] Cons.prems(3) by metis
  from Cons.IH [OF _ s(2,3)] Cons.prems(1) obtain outs hv' where "send_all tr ms (Some hv1) = (outs, Some hv')" "list_all (\<lambda>out. \<exists>r. out = Inr r) outs"
    "length outs = length ms" "ok (fst hv')" "good (fst hv')"
    "now_nanos (rt_sys R) (Some hv') \<le> now_nanos (rt_sys R) (Some hv1) + int (length ms) * d" by auto
  with s me show ?case by (simp add: algebra_simps)
qed simp

end
