(* ===== verification/Assembly.thy ===== *)
theory Assembly
  imports Composite_Live Smtp_Factory Sendmail Ses
begin

text \<open>
  The program put together: the transports of the packages as leaves of the trees that a DSN
  resolves to, and the packages' \<^verbatim>\<open>init\<close> functions (\<^verbatim>\<open>transport/null.go\<close>, \<^verbatim>\<open>smtp/factory.go\<close>,
  \<^verbatim>\<open>sendmail/factory.go\<close>, \<^verbatim>\<open>ses/factory.go\<close>).
\<close>

section \<open>Leaves\<close>

text \<open>The transports that the packages' factories make.\<close>

datatype 'w leaf = LNull "'w base_transport" | LSmtp esmtp | LSendmail "'w base_transport" | LSes "'w base_transport"

text \<open>
  Their methods. The SMTP transport reads the clock, the context and the network of its peer \<open>P\<close>;
  the others those of \<open>S\<close>. Only the SMTP transport has a \<^verbatim>\<open>Close\<close>.
\<close>

fun leaf_Send :: "peer \<Rightarrow> 'w sys \<Rightarrow> 'w leaf \<Rightarrow> raw_message \<Rightarrow> envelope option \<Rightarrow> 'w \<Rightarrow> (outcome \<times> 'w leaf \<times> 'w) option" where
  "leaf_Send P S (LSmtp x) msg env w =
    map_option (\<lambda>(out, b, t). (out, LSmtp \<lparr>es_smtp = t, es_base = b\<rparr>, w)) (smtp_Send P msg env (es_base x) (es_smtp x))"
| "leaf_Send P S (LNull b) msg env w = map_option (\<lambda>(out, b, w). (out, LNull b, w)) (base_Send S b msg env w)"
| "leaf_Send P S (LSendmail b) msg env w = map_option (\<lambda>(out, b, w). (out, LSendmail b, w)) (base_Send S b msg env w)"
| "leaf_Send P S (LSes b) msg env w = map_option (\<lambda>(out, b, w). (out, LSes b, w)) (base_Send S b msg env w)"

fun leaf_String :: "'w leaf \<Rightarrow> bytes" where
  "leaf_String (LSmtp x) = computeName (es_smtp x)"
| "leaf_String (LNull b) = bt_Name b"
| "leaf_String (LSendmail b) = bt_Name b"
| "leaf_String (LSes b) = bt_Name b"

fun leaf_Close :: "peer \<Rightarrow> 'w leaf \<Rightarrow> ('w \<Rightarrow> goerr option \<times> 'w leaf \<times> 'w) option" where
  "leaf_Close P (LSmtp x) = Some (\<lambda>w. case smtp_Close P (es_smtp x) of (err, t) \<Rightarrow> (err, LSmtp (x\<lparr>es_smtp := t\<rparr>), w))"
| "leaf_Close P _ = None"

definition leaf_runtime ::
  "peer \<Rightarrow> 'w sys \<Rightarrow> ('w leaf, 'w) world sys \<Rightarrow> (address \<Rightarrow> int \<Rightarrow> int option) \<Rightarrow> ('w leaf, 'w) runtime" where
  "leaf_runtime P S pools pick =
    \<lparr>rt_Send = leaf_Send P S, rt_String = leaf_String, rt_Close = leaf_Close P, rt_sys = pools, rt_pick = pick\<rparr>"

section \<open>Packages\<close>

definition lift_factory :: "('a \<Rightarrow> 'b) \<Rightarrow> 'a factory \<Rightarrow> 'b factory" where
  "lift_factory g f = \<lparr>fa_Create = (\<lambda>d. map_sum id g (fa_Create f d)), fa_Supports = fa_Supports f, fa_Schemes = fa_Schemes f\<rparr>"

text \<open>
  The packages a program may import. The \<^verbatim>\<open>init\<close> function of each registers its factory; Go runs
  them once each, in the order of the imports.
\<close>

datatype package = PkgNull | PkgSmtp | PkgSendmail | PkgSes

fun package_init ::
  "esmtp_lib \<Rightarrow> peer \<Rightarrow> netlib \<Rightarrow> 'w runner
    \<Rightarrow> (bytes option \<times> (bytes \<times> bytes \<times> bytes) option \<Rightarrow> goerr + 'w ses_client)
    \<Rightarrow> package \<Rightarrow> 'w leaf default_factories \<Rightarrow> 'w leaf default_factories" where
  "package_init E P L run load PkgNull = RegisterDefaultFactory (\<lambda>_. NullFactory (LNull NewNullTransport))"
| "package_init E P L run load PkgSmtp = RegisterDefaultFactory (\<lambda>_. lift_factory LSmtp (EsmtpFactory E P))"
| "package_init E P L run load PkgSendmail = RegisterDefaultFactory (\<lambda>_. lift_factory LSendmail (SendmailFactory L run))"
| "package_init E P L run load PkgSes = RegisterDefaultFactory (\<lambda>_. lift_factory LSes (SesFactory L load))"

definition imported where
  "imported E P L run load pkgs = fold (package_init E P L run load) pkgs []"

lemma imported_factories:
  "set (DefaultRegistry (imported E P L run load pkgs)) \<subseteq>
    {NullFactory (LNull NewNullTransport), lift_factory LSmtp (EsmtpFactory E P), lift_factory LSendmail (SendmailFactory L run),
     lift_factory LSes (SesFactory L load)}"
proof (induction pkgs rule: rev_induct)
  case (snoc p pkgs)
  then show ?case by (cases p) (auto simp: imported_def DefaultRegistry_def NewRegistry_def RegisterDefaultFactory_def)
qed (simp add: imported_def DefaultRegistry_def NewRegistry_def)

lemma imported_smtp:
  assumes "f \<in> set (DefaultRegistry (imported E P L run load pkgs))" "fa_Create f d = Inr (LSmtp x)"
  shows "esmtp_Create E P d = Inr x"
  using subsetD [OF imported_factories assms(1)] assms(2)
  by (auto simp: lift_factory_def NullFactory_def null_Create_def EsmtpFactory_def map_sum_Inr split: if_splits)

lemma imported_base:
  assumes "f \<in> set (DefaultRegistry (imported E P L run load pkgs))"
  shows "fa_Create f d = Inr (LNull b) \<Longrightarrow> b = NewNullTransport"
    "fa_Create f d = Inr (LSendmail b) \<Longrightarrow> sendmail_Create L run d = Inr b"
    "fa_Create f d = Inr (LSes b) \<Longrightarrow> ses_Create L load d = Inr b"
  using subsetD [OF imported_factories assms]
  by (auto simp: lift_factory_def NullFactory_def null_Create_def EsmtpFactory_def SendmailFactory_def SesFactory_def map_sum_Inr
      split: if_splits)

section \<open>What a leaf went through\<close>

text \<open>The settings of an SMTP transport that a DSN determines.\<close>

definition dsn_settings :: "esmtp_lib \<Rightarrow> dsn \<Rightarrow> bytes \<times> int \<times> bool \<times> bool \<times> bool \<times> bytes \<times> bytes" where
  "dsn_settings E d =
    (dsn_host d, if dsn_Port d 0 = 0 then (if tls_on_connect (el_unicode E) d then 465 else 25) else dsn_Port d 0,
     tls_on_connect (el_unicode E) d, auto_tls_of (el_unicode E) d,
     dsn_BoolOption (el_unicode E) d ''require_tls'' False, dsn_user d, dsn_password d)"

text \<open>
  A leaf comes from a DSN that \<open>described\<close> allows, by the factory of its package; since then an SMTP
  transport was only used, and the delivery hook of the others is the one the factory set.
\<close>

definition leaf_origin ::
  "esmtp_lib \<Rightarrow> peer \<Rightarrow> netlib \<Rightarrow> 'w runner \<Rightarrow> (bytes option \<times> (bytes \<times> bytes \<times> bytes) option \<Rightarrow> goerr + 'w ses_client)
    \<Rightarrow> (dsn \<Rightarrow> bool) \<Rightarrow> 'w leaf \<Rightarrow> bool" where
  "leaf_origin E P L run load described y \<longleftrightarrow>
    (case y of
       LSmtp x \<Rightarrow> \<exists>d x0. described d \<and> esmtp_Create E P d = Inr x0 \<and> dial_settings (es_smtp x0) = dsn_settings E d
         \<and> smtp_uses P (es_base x0) (es_smtp x0) (es_base x) (es_smtp x)
     | LNull b \<Rightarrow> bt_DoSend b = bt_DoSend NewNullTransport
     | LSendmail b \<Rightarrow> \<exists>d b0. described d \<and> sendmail_Create L run d = Inr b0 \<and> bt_DoSend b = bt_DoSend b0
     | LSes b \<Rightarrow> \<exists>d b0. described d \<and> ses_Create L load d = Inr b0 \<and> bt_DoSend b = bt_DoSend b0)"

lemma leaf_origin_new:
  assumes "fromDSNObject (DefaultRegistry (imported E P L run load pkgs)) d = Inr y" "described d"
  shows "leaf_origin E P L run load described y"
proof -
  obtain f where f: "f \<in> set (DefaultRegistry (imported E P L run load pkgs))" "fa_Create f d = Inr y"
    using fromDSNObject_Inr [OF assms(1)] by blast
  show ?thesis
  proof (cases y)
    case (LSmtp x)
    have c: "esmtp_Create E P d = Inr x" using imported_smtp [OF f(1)] f(2) LSmtp by blast
    with esmtp_Create_settings [OF c] uses_none assms(2) show ?thesis
      unfolding LSmtp leaf_origin_def leaf.case dsn_settings_def by blast
  qed (use f(2) imported_base [OF f(1)] assms(2) in \<open>auto simp: leaf_origin_def\<close>)
qed

lemma base_Send_keeps_hook:
  "base_Send S b msg env w = Some (out, b', w') \<Longrightarrow> bt_DoSend b' = bt_DoSend b"
  by (auto simp: base_Send_def checkThrottling_def Let_def split: option.splits if_splits sum.splits prod.splits)

lemma leaf_origin_send:
  assumes "leaf_origin E P L run load described y" "leaf_Send P S y msg env v = Some (out, y', v')"
  shows "leaf_origin E P L run load described y'"
proof (cases y)
  case (LSmtp x)
  then obtain b t where "smtp_Send P msg env (es_base x) (es_smtp x) = Some (out, b, t)" "y' = LSmtp \<lparr>es_smtp = t, es_base = b\<rparr>"
    using assms(2) by auto
  with assms(1) LSmtp uses_send show ?thesis by (fastforce simp: leaf_origin_def)
qed (use assms base_Send_keeps_hook in \<open>fastforce simp: leaf_origin_def\<close>)+

lemma leaf_origin_close:
  assumes "leaf_origin E P L run load described y" "leaf_Close P y = Some c" "c v = (err, y', v')"
  shows "leaf_origin E P L run load described y'"
proof (cases y)
  case (LSmtp x)
  then obtain t where "smtp_Close P (es_smtp x) = (err, t)" "y' = LSmtp (x\<lparr>es_smtp := t\<rparr>)"
    using assms(2,3) by (auto split: prod.splits)
  with assms(1) LSmtp uses_close show ?thesis by (fastforce simp: leaf_origin_def)
qed (use assms(2) in auto)

lemma leaf_origin_touches:
  assumes "touches (leaf_runtime P S pools pick) hv hv'" "\<And>a y. fst hv a = Some (LeafObj y) \<Longrightarrow> leaf_origin E P L run load described y"
  shows "fst hv' a = Some (LeafObj y) \<Longrightarrow> leaf_origin E P L run load described y"
  using assms by (rule touches_leaves) (auto simp: leaf_runtime_def intro: leaf_origin_send leaf_origin_close)

lemma smtp_uses_run: "smtp_uses P b t b' t' \<Longrightarrow> smtp_run P b t \<Longrightarrow> smtp_run P b' t'"
  by (induction rule: smtp_uses.induct) (auto intro: run_send run_close)

lemma leaf_origin_run: "leaf_origin E P L run load described (LSmtp x) \<Longrightarrow> smtp_run P (es_base x) (es_smtp x)"
  by (auto simp: leaf_origin_def intro: smtp_uses_run esmtp_Create_run)

text \<open>What it means for each kind of leaf to have accepted a message, with the result \<open>r\<close>.\<close>

definition took :: "peer \<Rightarrow> 'w sys \<Rightarrow> raw_message \<Rightarrow> envelope option \<Rightarrow> sent option \<Rightarrow> 'w \<Rightarrow> 'w leaf \<Rightarrow> bool" where
  "took P S msg env r w y \<longleftrightarrow>
    (case y of
       LSmtp x \<Rightarrow> \<exists>sm. r = Some sm \<and> delivered (p_lib P) msg env sm (writes (s_trace (es_smtp x)))
     | LNull b \<Rightarrow> \<exists>b0 w0. bt_DoSend b0 = bt_DoSend b \<and> base_Send S b0 msg env w0 = Some (Inr r, b, w)
     | LSendmail b \<Rightarrow> \<exists>b0 w0. bt_DoSend b0 = bt_DoSend b \<and> base_Send S b0 msg env w0 = Some (Inr r, b, w)
     | LSes b \<Rightarrow> \<exists>b0 w0. bt_DoSend b0 = bt_DoSend b \<and> base_Send S b0 msg env w0 = Some (Inr r, b, w))"

lemma leaf_Send_took:
  assumes "leaf_Send P S y msg env v = Some (Inr r, y', v')" "leaf_origin E P L run load described y"
  shows "took P S msg env r v' y'"
proof (cases y)
  case (LSmtp x)
  then obtain b t where s: "smtp_Send P msg env (es_base x) (es_smtp x) = Some (Inr r, b, t)" "y' = LSmtp \<lparr>es_smtp = t, es_base = b\<rparr>"
    using assms(1) by auto
  have "bt_DoSend (es_base x) = Some (doSend P)" using smtp_run_ok [OF leaf_origin_run] assms(2) LSmtp by blast
  from send_loop_delivered [OF s(1) [unfolded smtp_Send_def] this] s(2) show ?thesis by (simp add: took_def)
qed (use assms(1) base_Send_keeps_hook in \<open>force simp: took_def\<close>)+

lemma accepted_took:
  assumes "accepted_by (leaf_runtime P S pools pick) msg env a r hv hv'" "\<And>a y. fst hv a = Some (LeafObj y) \<Longrightarrow> leaf_origin E P L run load described y"
  shows "\<exists>b y. below a b \<and> fst hv' b = Some (LeafObj y) \<and> took P S msg env r (snd hv') y"
proof -
  from assms(1) obtain b y y' h v where b: "below a b" "touches (leaf_runtime P S pools pick) hv (h, v)" "h b = Some (LeafObj y)"
    "leaf_Send P S y msg env v = Some (Inr r, y', snd hv')" "fst hv' b = Some (LeafObj y')"
    unfolding accepted_by_def by (auto simp: leaf_runtime_def)
  have "leaf_origin E P L run load described y" using leaf_origin_touches [OF b(2) assms(2)] b(3) by simp
  with b leaf_Send_took [OF b(4)] show ?thesis by blast
qed

text \<open>Every leaf that \<^verbatim>\<open>FromString\<close> resolved comes from a DSN inside the text.\<close>

definition in_text :: "(bytes \<Rightarrow> url option) \<Rightarrow> bytes \<Rightarrow> dsn \<Rightarrow> bool" where
  "in_text url_Parse s d \<longleftrightarrow> (\<exists>part. sublist part s \<and> ParseDSN url_Parse part = Inr d)"

lemma leaf_origin_text:
  assumes "FromString url_Parse (DefaultRegistry (imported E P L run load pkgs)) s = Some (Inr t)" "y \<in> set_dtree t"
    and "\<And>d. in_text url_Parse s d \<Longrightarrow> described d"
  shows "leaf_origin E P L run load described y"
proof -
  from FromString_leaves [OF assms(1)] assms(2) obtain part where p: "sublist part s"
    "resolve_single url_Parse (DefaultRegistry (imported E P L run load pkgs)) part = Inr y"
    unfolding resolved_leaves_def by blast
  then obtain d where d: "ParseDSN url_Parse part = Inr d" "fromDSNObject (DefaultRegistry (imported E P L run load pkgs)) d = Inr y"
    unfolding resolve_single_def bindE_eq_Inr by (elim exE conjE)
  from leaf_origin_new [OF d(2)] assms(3) d(1) p(1) show ?thesis unfolding in_text_def by blast
qed

end
