(* ===== verification/Spec2Isabelle.thy ===== *)
theory Spec2Isabelle
  imports Content_Spec Delivery_Spec Smtp_Spec Client_Spec Assembly
begin

text \<open>
  A verification of \<^bold>\<open>go-mailer\<close>, a Go library that builds e-mail messages and delivers them
  through SMTP, sendmail, Amazon SES or compositions of transports.

  \<^bold>\<open>The program and how its parts interact.\<close> A \<^verbatim>\<open>Message\<close> (\<^verbatim>\<open>src/message.go\<close>) is built by
  setters, sealed on first use (date and message identifier) and serialized with the
  encoders of \<^verbatim>\<open>src/mime.go\<close>; an \<^verbatim>\<open>Envelope\<close> (\<^verbatim>\<open>src/envelope.go\<close>) holds the addresses used for
  delivery. A transport's \<^verbatim>\<open>Send\<close> takes both; leaf transports embed \<^verbatim>\<open>BaseTransport\<close>
  (\<^verbatim>\<open>src/transport.go\<close>), which derives the envelope, makes a \<^verbatim>\<open>SentMessage\<close>, throttles and calls
  the leaf's delivery hook. Pools and the router (\<^verbatim>\<open>src/transport/\<close>) call the \<^verbatim>\<open>Send\<close> of their
  children, middlewares (\<^verbatim>\<open>src/middleware/\<close>) wrap a transport, the registry
  (\<^verbatim>\<open>src/transport/registry.go\<close>) builds trees of transports from DSN text through factories, and
  the \<^verbatim>\<open>Mailer\<close> (\<^verbatim>\<open>src/mailer.go\<close>) calls the transport it was given.

  \<^bold>\<open>Modelling.\<close> A Go string or byte slice is a list of characters (\<open>bytes\<close>). A Go error is a value
  of \<open>goerr\<close>, so that \<^verbatim>\<open>errors.Is\<close> and \<^verbatim>\<open>errors.As\<close> compute; a fallible function returns a sum with
  the error on the left; a panic, and a loop that does not end, is \<open>None\<close>. Structs are records,
  a method on a pointer returns the updated record. Machine integers are \<open>int\<close> with \<open>wrap64\<close> where
  the code can overflow. What is outside the sources is a parameter: \<open>netlib\<close> (\<^verbatim>\<open>net/mail\<close>,
  \<^verbatim>\<open>idna\<close>, media types, Unicode tables), \<open>sys\<close> (clock, context, timers, random bytes), \<open>peer\<close> (the
  network and the server, which answer as functions of everything that happened before on the
  transport's own connections, the addresses dialled included), the
  URL parser, the program runner of sendmail, the AWS client, and the hooks, tracers and meters
  of the caller. No property assumes more of a parameter than its statement says.

  \<^bold>\<open>Theories\<close> (each after those it imports).
  \<^item> \<open>Prelude\<close>, \<open>Go_Strings\<close>: shared lemmas; UTF-8 decoding and the parts of \<^verbatim>\<open>strings\<close>, \<^verbatim>\<open>bytes\<close> and
    \<^verbatim>\<open>strconv\<close> the code uses.
  \<^item> \<open>Errors\<close>: \<^verbatim>\<open>src/errors.go\<close>, with \<^verbatim>\<open>fmt.Errorf\<close> and the error walk.
  \<^item> \<open>Go_Mime\<close>, \<open>Mime\<close>, \<open>Mime_Props\<close>, \<open>Quoted_Printable\<close>: the standard encoders, \<^verbatim>\<open>src/mime.go\<close>, and
    their round trips and line bounds.
  \<^item> \<open>Address\<close>: \<^verbatim>\<open>src/address.go\<close>.
  \<^item> \<open>Message\<close>, \<open>Message_Props\<close>: \<^verbatim>\<open>src/message.go\<close>; the invariant of built messages, the refinement
    of the header list to a map, sealing, and a reader that recovers fields and part tree from
    the serialized bytes.
  \<^item> \<open>Envelope\<close>, \<open>Base_Transport\<close>: \<^verbatim>\<open>src/envelope.go\<close>, \<^verbatim>\<open>src/sentmessage.go\<close>, \<^verbatim>\<open>src/transport.go\<close>.
  \<^item> \<open>Pool\<close>, \<open>Pool_Props\<close>: \<^verbatim>\<open>roundrobin.go\<close>, \<^verbatim>\<open>failover.go\<close>, \<^verbatim>\<open>close.go\<close>. The send loop is one partial
    function over a selection strategy; the locales \<open>pool_selector\<close> and \<open>pool_log\<close> state what a
    strategy promises, both pools interpret them, and termination, success and reports are
    proved once.
  \<^item> \<open>Router\<close>: \<^verbatim>\<open>transports.go\<close> and the null transport.
  \<^item> \<open>Registry\<close>, \<open>Registry_Props\<close>: \<^verbatim>\<open>dsn.go\<close>, \<^verbatim>\<open>factory.go\<close>, \<^verbatim>\<open>registry.go\<close>; the locale
    \<open>factory_contract\<close> is what the registry expects of a factory, interpreted by every factory.
  \<^item> \<open>Composite\<close>: the objects that a resolved DSN makes, in a heap, over arbitrary leaves. A call on an
    object reads and writes its state at its address; the world is \<open>None\<close> after a panic or a call
    that does not return. The locales \<open>heap_object\<close> and \<open>heap_objects\<close> say what a call on a tree may do to
    the heap; every tree of pools interprets them, and a router over trees keeps them.
    \<open>Composite_Live\<close>: when a tree is sure to deliver, and how long it may take.
  \<^item> \<open>Smtp_Codec\<close>, \<open>Smtp\<close>, \<open>Smtp_Props\<close>: \<^verbatim>\<open>src/transport/smtp/smtp.go\<close>, first its pure functions, then
    the conversation as state passing over a trace of network events; the inductive relation
    \<open>smtp_run\<close> is every use of a transport by its owner. \<open>Smtp_Conversation\<close> lifts a relation between
    states from the primitive steps to the conversation, by locales; \<open>Smtp_Deadlines\<close> (deadlines
    and cancellation hooks) and \<open>Smtp_Targets\<close> (addresses dialled, TLS configurations) interpret
    them. \<open>Smtp_Secrecy\<close> relates two runs that differ in the password. \<open>Smtp_Concurrent\<close> splits a
    send into its critical sections, proves that a sender alone makes the same send, and lets
    any number of senders interleave.
  \<^item> \<open>Smtp_Factory\<close>: \<^verbatim>\<open>src/transport/smtp/factory.go\<close>; created transports are in \<open>smtp_run\<close>.
  \<^item> \<open>Sendmail\<close>, \<open>Ses\<close>: \<^verbatim>\<open>src/transport/sendmail/\<close>, \<^verbatim>\<open>src/transport/ses/\<close>, \<^verbatim>\<open>src/suppression.go\<close>.
  \<^item> \<open>Assembly\<close>: the transports of the packages as the leaves of \<open>Composite\<close>, the packages' \<^verbatim>\<open>init\<close>
    functions, and what a leaf that is used in a tree has gone through.
  \<^item> \<open>Middleware\<close>: \<^verbatim>\<open>src/middleware/\<close> and \<^verbatim>\<open>src/mailer.go\<close>; the locale \<open>decorator\<close> is what a layer must
    keep, stacks of decorators are decorators. \<open>Otel\<close>: \<^verbatim>\<open>src/middleware/otelmw/\<close>, over an arbitrary
    OpenTelemetry SDK.
  \<^item> \<open>Recording\<close>: \<^verbatim>\<open>src/mailertest/\<close>.
  \<^item> \<open>Samples\<close>, \<open>Content_Spec\<close>, \<open>Delivery_Spec\<close>, \<open>Smtp_Spec\<close>, \<open>Client_Spec\<close> and this theory: concrete
    values, and the properties with their witnesses.

  \<^bold>\<open>What is shown.\<close> Content: the serialized message reads back as its fields and parts, headers
  behave as a map, Bcc is never written, lines are bounded, encoders round-trip, validity checks
  are exact, a single-part message serializes to the same bytes each time. Delivery: pools return
  in bounded time and succeed under stated timing, in the documented order, and report exactly what their children did; the router and the throttle do as documented;
  DSN text parses totally and round-trips. SMTP: a successful send put exactly the transaction for the message
  and envelope on the wire, the data are transparent, credentials travel only under TLS and
  the password never into results or transcripts, responses are bounded, a delivery never
  waits on the network without a deadline or a cancellation hook, and all this holds of senders
  that share a transport. Around it: middlewares are transparent, hooks
  compose, telemetry is exported as measured, sendmail and SES requests have the documented
  shape. The sections below follow a DSN text to a delivery across registry, factories, nested
  pools, router, base transport and conversation, and to the connections it leads to: where
  the message goes, that credentials stay protected, and when delivery is certain. Some
  properties show where the code falls short of its documentation: a refused EHLO bypasses
  RequireTLS, a reply can make the client panic, slow children keep a pool busy for ever,
  \<^verbatim>\<open>SetRecipients\<close> is not atomic, a pinned fingerprint may match any certificate, the first line
  of a message is not dot-stuffed for sendmail, a multipart message does not serialize to the
  same bytes twice, commands after a send whose context had a
  deadline have none, and a refused send leaves a transaction open into which another sender
  may step.

  \<^bold>\<open>Loops and fuel.\<close> \<open>parseDSN\<close> runs on fuel \<open>2 * length s + 1\<close>; every two levels of its recursion
  consume a byte, and \<open>parseDSN_fuel\<close> proves it is never exhausted. The SMTP retry loop recurses
  on the attempts left, the reading of a response is bounded by its 64 KiB limit, the body
  encoders recurse on their input. The pools' loop and the pagination of SES may run for ever
  and are partial functions; properties say when they return and when not.

  \<^bold>\<open>Concurrency.\<close> The pools hold a mutex during the whole of \<^verbatim>\<open>Send\<close>, so their sends are the
  sequential ones of the model. The SMTP transport locks each critical section on its own;
  \<open>Smtp_Concurrent\<close> has one atomic step per section. A message is built by
  one goroutine and then changes only when it is sealed, which its own mutex makes one step.
  The other components are modelled in sequential use.

  \<^bold>\<open>Not modelled.\<close> The text that the assertions of \<^verbatim>\<open>src/mailertest/\<close> report. The serializer writes to
  memory, which does not fail; \<^verbatim>\<open>WriteTo\<close> hands its bytes to an arbitrary writer. Setters called while other goroutines send. A connection
  that a context cancels in the middle of a critical section is the peer's failing read or
  write. The clock stands still while a pool looks for a live child. Go's random iteration
  over a map of failed authenticators is taken in the order of insertion. A rate is a
  rational number; NaN and infinite rates are outside the model.
\<close>

section \<open>From a DSN to a delivery\<close>

text \<open>
  What holds of the leaves after any number of calls, when the trees were resolved from texts that
  \<open>described\<close> covers.
\<close>

lemma leaves_described:
  assumes "touches (leaf_runtime P S pools pick) (objects R trees, w) hv"
    and "\<And>name t. (name, t) \<in> set trees \<Longrightarrow>
      \<exists>s. FromString url_Parse (DefaultRegistry (imported E P L run load pkgs)) s = Some (Inr t) \<and> (\<forall>d. in_text url_Parse s d \<longrightarrow> described d)"
  shows "fst hv a = Some (LeafObj y) \<Longrightarrow> leaf_origin E P L run load described y"
proof (erule leaf_origin_touches [OF assms(1), rotated])
  fix a y
  assume "fst (objects R trees, w) a = Some (LeafObj y)"
  then obtain name t where t: "(name, t) \<in> set trees" "y \<in> set_dtree t" using objects_leaf [of R trees a y] by auto
  from assms(2) [OF t(1)] obtain s where
    "FromString url_Parse (DefaultRegistry (imported E P L run load pkgs)) s = Some (Inr t)" "\<forall>d. in_text url_Parse s d \<longrightarrow> described d" by blast
  with t(2) show "leaf_origin E P L run load described y" by (intro leaf_origin_text) blast+
qed

lemma leaf_safe:
  assumes "leaf_origin E P L run load described y"
  shows "case y of LSmtp x \<Rightarrow> secrets_safe (s_trace (es_smtp x)) | _ \<Rightarrow> True"
proof (cases y)
  case (LSmtp x)
  have "smtp_ok (es_smtp x)" using smtp_run_ok [OF leaf_origin_run [OF assms [unfolded LSmtp]]] ..
  then show ?thesis by (simp add: LSmtp smtp_ok_def smtp_inv_def)
qed simp_all

text \<open>
  (C12) From a DSN to a delivery: take whatever \<^verbatim>\<open>FromDSN\<close> makes of a text, a single transport or
  pools nested to any depth, whichever of the packages are imported and in whichever order,
  and use it in any way. Then every leaf comes from a DSN inside the text: an SMTP transport
  dials that DSN's host and port (or the default port of its TLS mode) with its credentials and
  its TLS settings, and wrote credentials only under TLS; the others run the delivery hook of
  their package. And if the next send succeeds, some leaf took the message: an SMTP leaf put
  its whole transaction on the wire, another one's hook reported success, with the result that
  the caller gets.
\<close>

theorem dsn_to_delivery:
  assumes "FromDSN url_Parse (imported E P L run load pkgs) s = Some (Inr tree)" "R = leaf_runtime P S pools pick"
    and "used (transport_of R ([], []) tree) (objects R [([], tree)], w) hv"
    and "tr_Send (transport_of R ([], []) tree) msg env (Some hv) = (out, m, e, Some hv')"
  shows "(\<forall>a y. fst hv' a = Some (LeafObj y) \<longrightarrow> leaf_origin E P L run load (in_text url_Parse s) y
      \<and> (case y of LSmtp x \<Rightarrow> secrets_safe (s_trace (es_smtp x)) | _ \<Rightarrow> True))
    \<and> (case out of Inr r \<Rightarrow> \<exists>a y. fst hv' a = Some (LeafObj y) \<and> took P S msg env r (snd hv') y | Inl _ \<Rightarrow> True)"
proof -
  have parsed: "FromString url_Parse (DefaultRegistry (imported E P L run load pkgs)) s = Some (Inr tree)"
    using assms(1) by (simp add: FromDSN_def)
  have "in_heap tree ([], []) (objects R [([], tree)])" by (rule objects_ok [OF _ FromString_proper [OF parsed]]) simp
  with tree.used_ok [OF assms(3)] have u: "in_heap tree ([], []) (fst hv)" "touches R (objects R [([], tree)], w) hv" by simp_all
  from tree.send_ok [OF u(1) assms(4)] have s: "touches R hv hv'"
    "\<forall>r. out = Inr r \<longrightarrow> accepted_by R msg env ([], []) r hv hv'" by blast+
  have origin: "leaf_origin E P L run load (in_text url_Parse s) y"
    if "touches R (objects R [([], tree)], w) g" "fst g a = Some (LeafObj y)" for g a y
    by (rule leaves_described [OF that(1) [unfolded assms(2)] _ that(2)]) (use parsed in auto)
  have "\<exists>a y. fst hv' a = Some (LeafObj y) \<and> took P S msg env r (snd hv') y" if "out = Inr r" for r
    using accepted_took [of P S pools pick msg env "([], [])" r hv hv' E L run load "in_text url_Parse s"] s(2) that origin [OF u(2)] assms(2) by blast
  moreover have "leaf_origin E P L run load (in_text url_Parse s) y \<and> (case y of LSmtp x \<Rightarrow> secrets_safe (s_trace (es_smtp x)) | _ \<Rightarrow> True)"
    if "fst hv' a = Some (LeafObj y)" for a y
    using origin [OF touches_trans [OF s(1) u(2)] that] leaf_safe by blast
  ultimately show ?thesis by (cases out) simp_all
qed

definition host_url :: "bytes \<Rightarrow> url option" where
  "host_url s = Some \<lparr>u_Scheme = ''smtps'', u_Hostname = s, u_Port = [], u_User = Some (''u'', Some ''p''), u_Query = []\<rparr>"

definition backup_server :: peer where
  "backup_server = auth_server\<lparr>p_dial := \<lambda>tr. if list_ex (\<lambda>ev. case ev of EvDial addr src \<Rightarrow> addr = ''a:465'' | _ \<Rightarrow> False) tr then Some ''refused'' else None\<rparr>"

definition sample_imports :: "nat leaf default_factories" where
  "sample_imports = imported sample_esmtp_lib backup_server sample_lib (\<lambda>a s w. ((None, []), w)) (\<lambda>opts. Inr sample_ses) [PkgNull, PkgSendmail, PkgSmtp]"

definition still_sys :: "'w sys" where
  "still_sys = \<lparr>sys_lib = sample_lib, ctx_Err = \<lambda>w. None, Now = \<lambda>w. sample_time, sleep_or_done = \<lambda>d w. (None, w),
     rand_stream = \<lambda>w. sample_draws, rand_used = \<lambda>n w. w, second_div = \<lambda>r. 0\<rparr>"

definition sample_runtime :: "(nat leaf, nat) runtime" where
  "sample_runtime = leaf_runtime backup_server still_sys still_sys (\<lambda>a n. None)"

definition failover_tree :: "nat leaf dtree option" where
  "failover_tree = (case FromDSN host_url sample_imports ''failover(a b)'' of Some (Inr tree) \<Rightarrow> Some tree | _ \<Rightarrow> None)"

definition first_send :: "nat leaf dtree \<Rightarrow> outcome \<times> raw_message \<times> envelope option \<times> (nat leaf, nat) world" where
  "first_send tree = tr_Send (transport_of sample_runtime ([], []) tree) (BytesRaw ''hi'') (Some sample_envelope)
     (Some (objects sample_runtime [([], tree)], 0))"

text \<open>The first server refuses the connection, the second one accepts the message.\<close>

definition backed_up :: "outcome \<times> raw_message \<times> envelope option \<times> (nat leaf, nat) world \<Rightarrow> bool" where
  "backed_up r =
    (case r of
       (Inr (Some sm), m, e, Some (h, v)) \<Rightarrow>
         (case (h ([], [0]), h ([], [1])) of
            (Some (LeafObj (LSmtp x)), Some (LeafObj (LSmtp y))) \<Rightarrow> writes (s_trace (es_smtp x)) = [] \<and> writes (s_trace (es_smtp y)) \<noteq> []
          | _ \<Rightarrow> False)
     | _ \<Rightarrow> False)"

lemma failover_backed_up: "case failover_tree of Some tree \<Rightarrow> backed_up (first_send tree) | None \<Rightarrow> False"
  by code_simp

theorem dsn_to_delivery_witness:
  "\<exists>tree sm m e hv'. FromDSN host_url sample_imports ''failover(a b)'' = Some (Inr tree)
    \<and> first_send tree = (Inr (Some sm), m, e, Some hv') \<and> backed_up (first_send tree)
    \<and> (\<exists>a y. fst hv' a = Some (LeafObj y) \<and> took backup_server still_sys (BytesRaw ''hi'') (Some sample_envelope) (Some sm) (snd hv') y)"
proof -
  obtain tree where t: "FromDSN host_url sample_imports ''failover(a b)'' = Some (Inr tree)" "backed_up (first_send tree)"
    using failover_backed_up by (auto simp: failover_tree_def split: option.splits sum.splits)
  then obtain sm m e hv' where s: "first_send tree = (Inr (Some sm), m, e, Some hv')"
    by (cases "first_send tree") (auto simp: backed_up_def split: option.splits sum.splits)
  from conjunct2 [OF dsn_to_delivery [OF t(1) [unfolded sample_imports_def] sample_runtime_def used_none s [unfolded first_send_def]]]
  have "\<exists>a y. fst hv' a = Some (LeafObj y) \<and> took backup_server still_sys (BytesRaw ''hi'') (Some sample_envelope) (Some sm) (snd hv') y" by simp
  with t s show ?thesis by blast
qed

text \<open>
  (C13) The same for a router over named DSNs, as \<^verbatim>\<open>FromDSNs\<close> makes it: after any use of it, every leaf
  comes from a DSN inside one of the texts, credentials travelled only under TLS, and a send
  that succeeds was taken by a leaf of the transport that the message's X-Transport header
  names, or of the default one if it has none; the leaf got the message without that header.
\<close>

theorem routed_delivery:
  assumes "R = leaf_runtime P S pools pick" "distinct (map fst named)"
    and "FromDSNs url_Parse (imported E P L run load pkgs) (\<lambda>name. transport_of R (name, [])) named = Some (Inr router)"
    and "resolve_all url_Parse (DefaultRegistry (imported E P L run load pkgs)) named (sort (map fst named)) = Some (Inr trees)"
    and "used (router_transport router) (objects R trees, w) hv"
    and "tr_Send (router_transport router) msg env (Some hv) = (out, m, e, Some hv')"
  shows "(\<forall>a y. fst hv' a = Some (LeafObj y) \<longrightarrow> leaf_origin E P L run load (\<lambda>d. list_ex (\<lambda>s. in_text url_Parse s d) (map snd named)) y
      \<and> (case y of LSmtp x \<Rightarrow> secrets_safe (s_trace (es_smtp x)) | _ \<Rightarrow> True))
    \<and> (case out of
         Inr r \<Rightarrow> \<exists>q y. fst hv' (route router msg, q) = Some (LeafObj y) \<and> took P S (routed msg) env r (snd hv') y
       | Inl _ \<Rightarrow> True)"
proof -
  let ?described = "\<lambda>d. list_ex (\<lambda>s. in_text url_Parse s d) (map snd named)"
  have routes: "routes_trees R trees router"
    by (rule FromStrings_routes [OF assms(3) [unfolded FromDSNs_def] assms(4,2)])
  have "all_in_heap trees (objects R trees)" by (rule trees_objects_ok [OF assms(4)]) (simp add: assms(2))
  with router_used [OF assms(5) routes] have u: "all_in_heap trees (fst hv)" "touches R (objects R trees, w) hv" by simp_all
  have "router_Send router msg env (Some hv) = (out, m, e, Some hv')" using assms(6) by (simp add: router_transport_def)
  from router_send_ok [OF routes u(1) this] have s: "touches R hv hv'"
    "\<forall>r. out = Inr r \<longrightarrow> accepted_by R (routed msg) env (route router msg, []) r hv hv'" by blast+
  have texts: "\<exists>s. FromString url_Parse (DefaultRegistry (imported E P L run load pkgs)) s = Some (Inr t) \<and> (\<forall>d. in_text url_Parse s d \<longrightarrow> ?described d)"
    if "(name, t) \<in> set trees" for name t
  proof -
    have r: "map fst trees = sort (map fst named)"
      "FromString url_Parse (DefaultRegistry (imported E P L run load pkgs)) (the (map_of named name)) = Some (Inr t)"
      using resolve_all_trees [OF assms(4)] that by auto
    have "name \<in> set (map fst trees)" using that by force
    with r(1) obtain s where "map_of named name = Some s" by (metis list.set_map map_of_eq_None_iff not_None_eq set_sort)
    moreover from map_of_SomeD [OF this] have "s \<in> set (map snd named)" by force
    ultimately show ?thesis using r(2) by (auto simp: list_ex_iff)
  qed
  have origin: "leaf_origin E P L run load ?described y" if "touches R (objects R trees, w) g" "fst g a = Some (LeafObj y)" for g a y
    by (rule leaves_described [OF that(1) [unfolded assms(1)] texts that(2)])
  have "\<exists>q y. fst hv' (route router msg, q) = Some (LeafObj y) \<and> took P S (routed msg) env r (snd hv') y" if "out = Inr r" for r
  proof -
    from s(2) that have "accepted_by (leaf_runtime P S pools pick) (routed msg) env (route router msg, []) r hv hv'" by (simp add: assms(1))
    from accepted_took [OF this origin [OF u(2)]] show ?thesis by (auto simp: below_def)
  qed
  moreover have "leaf_origin E P L run load ?described y \<and> (case y of LSmtp x \<Rightarrow> secrets_safe (s_trace (es_smtp x)) | _ \<Rightarrow> True)"
    if "fst hv' a = Some (LeafObj y)" for a y
    using origin [OF touches_trans [OF s(1) u(2)] that] leaf_safe by blast
  ultimately show ?thesis by (cases out) simp_all
qed

definition sample_named :: "(bytes \<times> bytes) list" where
  "sample_named = [(''x'', ''a''), (''y'', ''failover(a b)'')]"

definition addressed :: raw_message where
  "addressed = MsgRaw (SetHeader (SetText (SetTo (SetFrom NewMessage [alice]) [bob]) ''hello'') transportHeader ''y'')"

definition routed_send :: "(nat leaf, nat) world router \<Rightarrow> (bytes \<times> nat leaf dtree) list \<Rightarrow> outcome \<times> raw_message \<times> envelope option \<times> (nat leaf, nat) world" where
  "routed_send router trees = tr_Send (router_transport router) addressed None (Some (objects sample_runtime trees, 0))"

definition named_router :: "(nat leaf, nat) world router option" where
  "named_router =
    (case FromDSNs host_url sample_imports (\<lambda>name. transport_of sample_runtime (name, [])) sample_named of Some (Inr t) \<Rightarrow> Some t | _ \<Rightarrow> None)"

definition named_trees :: "(bytes \<times> nat leaf dtree) list option" where
  "named_trees =
    (case resolve_all host_url (DefaultRegistry sample_imports) sample_named (sort (map fst sample_named)) of Some (Inr ts) \<Rightarrow> Some ts | _ \<Rightarrow> None)"

definition went_out :: "outcome \<times> raw_message \<times> envelope option \<times> (nat leaf, nat) world \<Rightarrow> bool" where
  "went_out r = (case r of (Inr (Some sm), m, e, Some hv) \<Rightarrow> True | _ \<Rightarrow> False)"

lemma routed_succeeds:
  "case (named_router, named_trees) of (Some router, Some trees) \<Rightarrow> went_out (routed_send router trees) \<and> route router addressed = ''y'' | _ \<Rightarrow> False"
  by code_simp

theorem routed_delivery_witness:
  "\<exists>router trees sm m e hv'. named_router = Some router \<and> named_trees = Some trees
    \<and> routed_send router trees = (Inr (Some sm), m, e, Some hv')
    \<and> (\<exists>q y. fst hv' (''y'', q) = Some (LeafObj y) \<and> took backup_server still_sys (routed addressed) None (Some sm) (snd hv') y)"
proof -
  obtain router trees where t: "named_router = Some router" "named_trees = Some trees" "went_out (routed_send router trees)" "route router addressed = ''y''"
    using routed_succeeds by (auto split: option.splits)
  then have r: "FromDSNs host_url sample_imports (\<lambda>name. transport_of sample_runtime (name, [])) sample_named = Some (Inr router)"
    "resolve_all host_url (DefaultRegistry sample_imports) sample_named (sort (map fst sample_named)) = Some (Inr trees)"
    by (auto simp: named_router_def named_trees_def split: option.splits sum.splits)
  obtain sm m e hv' where s: "routed_send router trees = (Inr (Some sm), m, e, Some hv')"
    using t(3) by (cases "routed_send router trees") (auto simp: went_out_def split: option.splits sum.splits)
  have d: "distinct (map fst sample_named)" by (simp add: sample_named_def)
  from conjunct2 [OF routed_delivery [OF sample_runtime_def d r [unfolded sample_imports_def] used_none s [unfolded routed_send_def]]] t(4)
  have "\<exists>q y. fst hv' (''y'', q) = Some (LeafObj y) \<and> took backup_server still_sys (routed addressed) None (Some sm) (snd hv') y" by simp
  with t(1,2) s show ?thesis by blast
qed

text \<open>
  (C6) When pools deliver, nested to any depth: if every leaf answers within \<open>d\<close> and fails only with
  transport errors, and trying all the children of a pool, each within the time its own tree may
  take, fits in the retry period of every pool, then whatever \<^verbatim>\<open>FromDSN\<close> makes of a text with one
  leaf that accepts every message accepts every message: each of a sequence of sends returns
  with a result, however the other leaves fail, and all of them together within the time of the
  tree for each.
\<close>

theorem good_leaf_delivers:
  assumes "FromDSN url_Parse defaults s = Some (Inr tree)" "steady R M I G d" "roomy d tree"
    and "\<forall>x\<in>set_dtree tree. I x" "\<exists>x\<in>set_dtree tree. G x" "list_all (\<lambda>(msg, env). M msg env) ms"
  shows "\<exists>outs hv. send_all (transport_of R ([], []) tree) ms (Some (objects R [([], tree)], v)) = (outs, Some hv)
    \<and> length outs = length ms \<and> list_all (\<lambda>out. \<exists>r. out = Inr r) outs
    \<and> now_nanos (rt_sys R) (Some hv) \<le> now_nanos (rt_sys R) (Some (objects R [([], tree)], v)) + int (length ms) * budget d tree"
proof -
  let ?h = "objects R [([], tree)]"
  have h: "?h (fst ([], []), snd ([], []) @ q) = object_at R ([], []) tree q" for q by (simp add: objects_def)
  have "proper tree" using assms(1) FromString_proper by (simp add: FromDSN_def)
  then have "settled I tree ([], []) ?h" using h assms(4) by (rule new_settled)
  moreover have "sure G tree ([], []) ?h" using h assms(5) by (rule new_sure)
  ultimately show ?thesis
    using prompt_send_all [OF tree_prompt [OF assms(2,3)] assms(6), of "([], [])" "(?h, v)"] by auto
qed

definition scheme_url :: "bytes \<Rightarrow> url option" where
  "scheme_url s = Some \<lparr>u_Scheme = s, u_Hostname = ''h'', u_Port = [], u_User = None, u_Query = []\<rparr>"

text \<open>A sendmail program that takes a while and fails.\<close>

definition broken_program :: "nat runner" where
  "broken_program args stdin w = ((Some (Foreign ''exit status 1''), []), w + 1)"

definition broken_imports :: "nat leaf default_factories" where
  "broken_imports = imported sample_esmtp_lib backup_server sample_lib broken_program (\<lambda>opts. Inr sample_ses) [PkgSendmail, PkgNull]"

definition broken_sendmail :: "nat leaf" where
  "broken_sendmail = LSendmail (projr (NewSendmailTransport sample_lib broken_program []))"

definition spare_null :: "nat leaf" where
  "spare_null = LNull NewNullTransport"

definition ticking_sys :: "('w \<Rightarrow> nat) \<Rightarrow> 'w sys" where
  "ticking_sys f = still_sys\<lparr>Now := \<lambda>w. \<lparr>t_nanos = int (f w), t_offset = 0\<rparr>\<rparr>"

definition ticking_runtime :: "(nat leaf, nat) runtime" where
  "ticking_runtime = leaf_runtime backup_server (ticking_sys id) (ticking_sys (\<lambda>w. case w of Some (h, v) \<Rightarrow> v | None \<Rightarrow> 0)) (\<lambda>a n. None)"

definition nested_tree :: "nat leaf dtree" where
  "nested_tree = Failover [RoundRobin [Single broken_sendmail, Single broken_sendmail] DefaultRetryPeriod, Single spare_null] DefaultRetryPeriod"

lemma default_command: "\<not> hasExactArg (splitCommand DefaultCommand) ''-bs''" "hasExactArg (splitCommand DefaultCommand) ''-t''"
  by code_simp+

lemma broken_created: "NewSendmailTransport sample_lib broken_program [] = Inr (projr (NewSendmailTransport sample_lib broken_program []))"
  by (simp add: NewSendmailTransport_def Let_def default_command)

lemma nested_parsed: "FromDSN scheme_url broken_imports ''failover(roundrobin(sendmail sendmail) null)'' = Some (Inr nested_tree)"
proof -
  have "lift_factory LSendmail (SendmailFactory sample_lib broken_program) =
      \<lparr>fa_Create = \<lambda>d. map_sum id LSendmail (sendmail_Create sample_lib broken_program d), fa_Supports = sendmail_Supports, fa_Schemes = Some [''sendmail'']\<rparr>"
    by (simp add: lift_factory_def SendmailFactory_def)
  moreover have "map_sum id LSendmail (sendmail_Create sample_lib broken_program d) = Inr broken_sendmail"
    if "dsn_scheme d = ''sendmail''" "dsn_options d = []" for d
    using that by (subst broken_sendmail_def, simp add: sendmail_Create_def sendmail_Supports_def dsn_Option_def, subst broken_created, simp)
  ultimately show ?thesis
    by (simp add: go_eval scheme_url_def broken_imports_def nested_tree_def spare_null_def imported_def sendmail_Supports_def numeral_eq_Suc)
qed

lemma broken_invoked: "case sendmail_invocation sample_lib DefaultCommand sample_envelope ''hi'' of Inr (args, stdin) \<Rightarrow> args \<noteq> [] | Inl _ \<Rightarrow> False"
  by code_simp

lemma broken_fails:
  "\<exists>err. leaf_Send backup_server (ticking_sys id) broken_sendmail (BytesRaw ''hi'') (Some sample_envelope) v = Some (Inl err, broken_sendmail, v + 1)
    \<and> isTransportError err"
proof -
  obtain args stdin where i: "sendmail_invocation sample_lib DefaultCommand sample_envelope ''hi'' = Inr (args, stdin)" "args \<noteq> []"
    using broken_invoked by (auto split: sum.splits)
  then show ?thesis
    by (simp add: broken_sendmail_def NewSendmailTransport_def default_command base_Send_def NewSentMessage_def ticking_sys_def still_sys_def
        isNilRawMessage_def checkThrottling_def sendmail_doSend_def cloneEnvelope_def Envelope_Clone_def wrapTransportError_def broken_program_def
        isTransportError_def NewTransportError_def Let_def)
qed

lemma null_accepts:
  "\<exists>sm. leaf_Send backup_server (ticking_sys id) spare_null (BytesRaw ''hi'') (Some sample_envelope) v = Some (Inr (Some sm), spare_null, v)"
  by (simp add: go_eval spare_null_def ticking_sys_def still_sys_def)

lemma broken_steady:
  "steady ticking_runtime (\<lambda>msg env. msg = BytesRaw ''hi'' \<and> env = Some sample_envelope) (\<lambda>x. x = broken_sendmail \<or> x = spare_null) (\<lambda>x. x = spare_null) 1"
proof -
  have "broken_sendmail \<noteq> spare_null" by (simp add: broken_sendmail_def spare_null_def)
  moreover have "now_nanos (rt_sys ticking_runtime) (Some (h, v)) = int v" for h v
    by (simp add: now_nanos_def ticking_runtime_def leaf_runtime_def ticking_sys_def)
  moreover have "rt_Send ticking_runtime = leaf_Send backup_server (ticking_sys id)" by (simp add: ticking_runtime_def leaf_runtime_def)
  ultimately show ?thesis
    unfolding steady_def using broken_fails null_accepts by fastforce
qed

theorem good_leaf_delivers_witness:
  "\<exists>outs hv. FromDSN scheme_url broken_imports ''failover(roundrobin(sendmail sendmail) null)'' = Some (Inr nested_tree)
    \<and> send_all (transport_of ticking_runtime ([], []) nested_tree) (replicate 3 (BytesRaw ''hi'', Some sample_envelope))
        (Some (objects ticking_runtime [([], nested_tree)], 0)) = (outs, Some hv)
    \<and> length outs = 3 \<and> list_all (\<lambda>out. \<exists>r. out = Inr r) outs"
proof -
  have "roomy 1 nested_tree" by (simp add: nested_tree_def DefaultRetryPeriod_def)
  from good_leaf_delivers [OF nested_parsed broken_steady this, of "replicate 3 (BytesRaw ''hi'', Some sample_envelope)" 0] nested_parsed
  show ?thesis by (auto simp: nested_tree_def list_all_length)
qed

section \<open>Connections\<close>

text \<open>
  (C15) The connections of a transport made from a DSN, in any sequence of sends and closes and
  whatever the server does: every dial goes to the DSN's host and port, from its source
  address if it has one, and every TLS handshake, implicit or after STARTTLS, demands TLS 1.2,
  names the DSN's host as the server, verifies the peer unless the DSN turned it off, and
  checks the DSN's fingerprint if it has one.
\<close>

theorem connections_follow_dsn:
  assumes "esmtp_Create E P d = Inr x" "smtp_uses P (es_base x) (es_smtp x) b t"
  shows "\<forall>ev\<in>set (s_trace t).
    (\<forall>addr src. ev = EvDial addr src \<longrightarrow>
       addr = JoinHostPort (dsn_host d) (Itoa (if dsn_Port d 0 = 0 then (if tls_on_connect (el_unicode E) d then 465 else 25) else dsn_Port d 0))
       \<and> src = (if dsn_Option d ''source_ip'' [] = [] then None else Some (Trim (dsn_Option d ''source_ip'' []) ''[]'')))
    \<and> (\<forall>c. ev = EvHandshake c \<longrightarrow> c = policy_of (el_unicode E) d (dsn_host d))"
proof -
  obtain tc where tc: "s_trace (es_smtp x) = []" "bt_DoSend (es_base x) = Some (doSend P)" "tls_options (el_unicode E) d = Inr tc"
    "target (es_smtp x) = (dsn_host d, if dsn_Port d 0 = 0 then (if tls_on_connect (el_unicode E) d then 465 else 25) else dsn_Port d 0,
       dsn_Option d ''source_ip'' [], tc)"
    using esmtp_Create_target [OF assms(1)] by (elim conjE exE)
  have "effectiveTLSConfig (es_smtp x) = policy_of (el_unicode E) d (dsn_host d)"
    using effective_policy [of "el_unicode E" d "es_smtp x"] tc(3,4) by (simp add: target_def)
  moreover have "\<forall>ev\<in>set (s_trace t). aimed (es_smtp x) ev"
    using smtp_uses_aims [OF assms(2) tc(2)] tc(1) by (auto simp: aims_def)
  ultimately show ?thesis using tc(4) by (auto simp: aimed_def dial_event_def target_def)
qed

definition sample_smtps :: dsn where
  "sample_smtps = \<lparr>dsn_scheme = ''smtps'', dsn_host = ''h'', dsn_user = ''u'', dsn_password = ''p'', dsn_hasUser = True,
     dsn_hasPass = True, dsn_port = 0, dsn_hasPort = False, dsn_options = []\<rparr>"

definition sample_esmtp :: esmtp where
  "sample_esmtp = \<lparr>es_smtp = auth_transport, es_base = smtp_base auth_server auth_transport\<rparr>"

lemma sample_esmtp_created: "esmtp_Create sample_esmtp_lib auth_server sample_smtps = Inr sample_esmtp"
proof -
  have "smtp_base auth_server (NewTransport ''h'' 0 True) = smtp_base auth_server auth_transport"
    by (simp add: smtp_base_def computeName_def auth_transport_def NewTransport_def SetUsername_def SetPassword_def)
  moreover have "with_credentials sample_esmtp_lib sample_smtps (SetRequireTLS (SetAutoTLS (NewTransport ''h'' 0 True) True) False)
      = auth_transport"
    by (simp add: with_credentials_def sample_smtps_def dsn_Option_def auth_transport_def NewTransport_def SetUsername_def
        SetPassword_def SetRequireTLS_def SetAutoTLS_def)
  moreover have "dsn_Option sample_smtps k [] = []" "dsn_BoolOption U sample_smtps k v = v" for k U v
    by (simp_all add: sample_smtps_def dsn_Option_def dsn_BoolOption_def)
  moreover have "dsn_scheme sample_smtps = ''smtps''" "dsn_host sample_smtps = ''h''" "dsn_Port sample_smtps 0 = 0"
    by (simp_all add: sample_smtps_def dsn_Port_def)
  ultimately show ?thesis
    by (simp add: esmtp_Create_def esmtp_Supports_def tls_on_connect_def auto_tls_of_def with_tls_def with_source_def tls_options_def with_rate_def
        with_restart_def with_ping_def with_retry_def sample_esmtp_def Let_def)
qed

theorem connections_follow_dsn_witness:
  "\<exists>b t. smtp_uses auth_server (es_base sample_esmtp) (es_smtp sample_esmtp) b t
    \<and> list_ex (\<lambda>ev. ev = EvHandshake (policy_of sample_unicode sample_smtps ''h'')) (s_trace t)
    \<and> list_all (\<lambda>ev. case ev of EvDial addr src \<Rightarrow> addr = ''h:465'' \<and> src = None | _ \<Rightarrow> True) (s_trace t)"
proof -
  have "case sent_by auth_server auth_transport of
      Some (sm, b', t') \<Rightarrow> list_ex (\<lambda>ev. case ev of EvHandshake c \<Rightarrow> True | _ \<Rightarrow> False) (s_trace t') | None \<Rightarrow> False"
    by code_simp
  then obtain sm b' t' ev where s0: "sent_by auth_server auth_transport = Some (sm, b', t')" "ev \<in> set (s_trace t')"
      "case ev of EvHandshake c \<Rightarrow> True | _ \<Rightarrow> False"
    by (auto simp: list_ex_iff split: option.splits)
  then obtain c where s: "sent_by auth_server auth_transport = Some (sm, b', t')" "EvHandshake c \<in> set (s_trace t')"
    by (cases ev) auto
  have send: "smtp_Send auth_server (BytesRaw ''hi'') (Some sample_envelope) (es_base sample_esmtp) (es_smtp sample_esmtp)
      = Some (Inr (Some sm), b', t')" using sent_by_Some [OF s(1)] by (simp add: sample_esmtp_def)
  have u: "smtp_uses auth_server (es_base sample_esmtp) (es_smtp sample_esmtp) b' t'"
    by (rule uses_send [OF uses_none send])
  have addr: "JoinHostPort (dsn_host sample_smtps) (Itoa 465) = ''h:465'' \<and> dsn_Port sample_smtps 0 = 0
      \<and> tls_on_connect sample_unicode sample_smtps \<and> dsn_Option sample_smtps ''source_ip'' [] = [] \<and> dsn_host sample_smtps = ''h''"
    by code_simp
  have E: "el_unicode sample_esmtp_lib = sample_unicode" by (simp add: sample_esmtp_lib_def)
  note p = connections_follow_dsn [OF sample_esmtp_created u]
  have "list_all (\<lambda>ev. case ev of EvDial addr src \<Rightarrow> addr = ''h:465'' \<and> src = None | _ \<Rightarrow> True) (s_trace t')"
    using p addr by (auto simp: E list_all_iff split: event.split)
  moreover have "c = policy_of sample_unicode sample_smtps ''h''" using p s(2) addr by (auto simp: E)
  ultimately show ?thesis using u s(2) by (auto simp: list_ex_iff)
qed

end
